(* ===== verification/Btfind_Prelude.thy ===== *)
theory Btfind_Prelude
  imports Main "HOL-Library.Word" "HOL-Library.List_Lexorder" "HOL-Library.AList"
    "HOL-Library.Finite_Map" "HOL-Library.Monad_Syntax"
begin

text \<open>
  What every component of the model shares: the machine integers and byte strings of the
  Rust program, Rust \<open>String\<close>s (byte lists), big-endian integers, \<open>HashMap\<close> and
  \<open>BTreeMap\<close> as association lists, panics as \<open>None\<close>, and two interfaces stated as
  locales: a byte codec and a state machine with an invariant.
\<close>

unbundle bit_operations_syntax

subsection \<open>Types\<close>

type_synonym u8 = "8 word"
type_synonym u16 = "16 word"
type_synonym u32 = "32 word"
type_synonym u64 = "64 word"
type_synonym bytes = "u8 list"

text \<open>A Rust \<open>String\<close> is its UTF-8 byte sequence; \<open>str\<close> writes a literal.\<close>

type_synonym rstring = bytes

definition str :: "string \<Rightarrow> rstring" where
  "str s = map of_char s"

text \<open>
  \<open>Instant\<close> and \<open>Duration\<close> are counted in nanoseconds (\<open>nat\<close>); a reading of the clocks
  is one value of \<open>clock\<close>, the monotonic \<open>Instant::now()\<close> and the wall-clock seconds of
  \<open>chrono::Utc::now().timestamp()\<close> taken together.
\<close>

type_synonym instant = nat
type_synonym duration = nat

record clock =
  ck_now :: instant
  ck_unix :: int

definition secs :: "nat \<Rightarrow> duration" where
  "secs n = n * 1000000000"

subsection \<open>Collections of facts\<close>

named_theorems wire_simps \<open>lengths and decompositions of encoded data\<close>
named_theorems inv_intros \<open>one operation preserves one invariant\<close>

subsection \<open>Byte strings\<close>

lemma u8_of_char_inj: "inj (of_char :: char \<Rightarrow> u8)"
proof (rule injI)
  fix c d :: char
  assume eq: "(of_char c :: u8) = of_char d"
  have u: "unat (of_char e :: u8) = of_char e" for e :: char
  proof -
    have e: "(of_char e :: u8) = of_nat (of_char e)" by (rule of_nat_of_char [symmetric])
    have "unat (of_nat (of_char e) :: u8) = of_char e" by (simp add: unat_of_nat del: of_nat_of_char)
    then show ?thesis by (simp only: e)
  qed
  have "(of_char c :: nat) = of_char d" using u [of c] u [of d] by (simp only: eq)
  then show "c = d" by (simp add: of_char_eq_iff)
qed

lemma str_eq_iff [simp]: "str s = str t \<longleftrightarrow> s = t"
  using u8_of_char_inj by (simp add: str_def inj_map_eq_map)

lemma length_str [simp]: "length (str s) = length s"
  by (simp add: str_def)

lemma str_append: "str (s @ t) = str s @ str t"
  by (simp add: str_def)

lemma unat_lt2p_nat: "unat (w :: 'a::len word) < 2 ^ LENGTH('a)"
  by (rule unsigned_less)

subsection \<open>Big-endian integers\<close>

text \<open>\<open>to_be_bytes\<close> and \<open>from_be_bytes\<close> of the unsigned integers, as base 256 digits.\<close>

fun be_bytes :: "nat \<Rightarrow> nat \<Rightarrow> bytes" where
  "be_bytes 0 n = []"
| "be_bytes (Suc k) n = be_bytes k (n div 256) @ [of_nat n]"

fun be_acc :: "nat \<Rightarrow> bytes \<Rightarrow> nat" where
  "be_acc a [] = a"
| "be_acc a (b # bs) = be_acc (256 * a + unat b) bs"

definition be_value :: "bytes \<Rightarrow> nat" where
  "be_value bs = be_acc 0 bs"

definition u16_be :: "u16 \<Rightarrow> bytes" where
  "u16_be w = be_bytes 2 (unat w)"

definition u32_be :: "u32 \<Rightarrow> bytes" where
  "u32_be w = be_bytes 4 (unat w)"

definition u64_be :: "u64 \<Rightarrow> bytes" where
  "u64_be w = be_bytes 8 (unat w)"

definition u16_of_be :: "bytes \<Rightarrow> u16" where
  "u16_of_be bs = of_nat (be_value bs)"

definition u32_of_be :: "bytes \<Rightarrow> u32" where
  "u32_of_be bs = of_nat (be_value bs)"

lemma length_be_bytes [simp]: "length (be_bytes k n) = k"
  by (induction k arbitrary: n) auto

lemma length_u16_be [simp, wire_simps]: "length (u16_be w) = 2"
  by (simp add: u16_be_def)

lemma length_u32_be [simp, wire_simps]: "length (u32_be w) = 4"
  by (simp add: u32_be_def)

lemma length_u64_be [simp, wire_simps]: "length (u64_be w) = 8"
  by (simp add: u64_be_def)

lemma be_acc_append: "be_acc a (xs @ ys) = be_acc (be_acc a xs) ys"
  by (induction xs arbitrary: a) auto

lemma be_value_snoc: "be_value (bs @ [b]) = 256 * be_value bs + unat b"
  by (simp add: be_value_def be_acc_append)

lemma be_value_be_bytes: "be_value (be_bytes k n) = n mod 256 ^ k"
proof (induction k arbitrary: n)
  case 0
  then show ?case by (simp add: be_value_def)
next
  case (Suc k)
  have "be_value (be_bytes (Suc k) n) = 256 * (n div 256 mod 256 ^ k) + n mod 256"
    by (simp add: be_value_snoc Suc.IH unat_of_nat)
  also have "\<dots> = n mod 256 ^ Suc k"
    by (simp add: mod_mult2_eq mult.commute)
  finally show ?case .
qed

lemma be_bytes_be_value: "be_bytes (length bs) (be_value bs) = bs"
proof (induction bs rule: rev_induct)
  case Nil
  then show ?case by simp
next
  case (snoc b bs)
  have lt: "unat b < 256" using unat_lt2p_nat [of b] by simp
  then have "(256 * be_value bs + unat b) div 256 = be_value bs" by simp
  moreover have "(of_nat (256 * be_value bs + unat b) :: u8) = b"
    by (simp add: word_unat_eq_iff unat_of_nat unat_word_ariths lt)
  ultimately show ?case using snoc.IH by (simp add: be_value_snoc del: of_nat_add)
qed

lemma be_value_less: "be_value bs < 256 ^ length bs"
proof -
  have "be_value bs = be_value (be_bytes (length bs) (be_value bs))"
    by (simp only: be_bytes_be_value)
  also have "\<dots> = be_value bs mod 256 ^ length bs"
    by (rule be_value_be_bytes)
  finally have e: "be_value bs = be_value bs mod 256 ^ length bs" .
  have "be_value bs mod 256 ^ length bs < 256 ^ length bs" by simp
  then show ?thesis by (simp only: e [symmetric])
qed

lemma u16_of_be_u16_be [simp]: "u16_of_be (u16_be w) = w"
  using unat_lt2p_nat [of w]
  by (simp add: u16_of_be_def u16_be_def be_value_be_bytes)

lemma u32_of_be_u32_be [simp]: "u32_of_be (u32_be w) = w"
  using unat_lt2p_nat [of w]
  by (simp add: u32_of_be_def u32_be_def be_value_be_bytes)

lemma u16_be_u16_of_be: "length bs = 2 \<Longrightarrow> u16_be (u16_of_be bs) = bs"
  using be_value_less [of bs] be_bytes_be_value [of bs]
  by (simp add: u16_of_be_def u16_be_def unat_of_nat)

lemma u32_be_u32_of_be: "length bs = 4 \<Longrightarrow> u32_be (u32_of_be bs) = bs"
  using be_value_less [of bs] be_bytes_be_value [of bs]
  by (simp add: u32_of_be_def u32_be_def unat_of_nat)

lemma unat_u32_of_be: "length bs = 4 \<Longrightarrow> unat (u32_of_be bs) = be_value bs"
  using be_value_less [of bs] by (simp add: u32_of_be_def unat_of_nat)

lemma u16_be_inj: "u16_be v = u16_be w \<longleftrightarrow> v = w"
  by (metis u16_of_be_u16_be)

text \<open>\<open>to_string\<close> of an unsigned integer: its decimal digits.\<close>

fun nat_text :: "nat \<Rightarrow> bytes" where
  "nat_text n = (if n < 10 then [of_nat (48 + n)] else nat_text (n div 10) @ [of_nat (48 + n mod 10)])"

declare nat_text.simps [simp del]

text \<open>\<open>saturating_add\<close> and \<open>saturating_sub\<close> of \<open>u64\<close>.\<close>

definition sat_add :: "u64 \<Rightarrow> u64 \<Rightarrow> u64" where
  "sat_add a b = (if unat a + unat b < 2 ^ 64 then a + b else 0xFFFFFFFFFFFFFFFF)"

definition sat_sub :: "u64 \<Rightarrow> u64 \<Rightarrow> u64" where
  "sat_sub a b = (if b \<le> a then a - b else 0)"

lemma unat_sat_add: "unat (sat_add a b) = min (unat a + unat b) (2 ^ 64 - 1)"
proof (cases "unat a + unat b < 2 ^ 64")
  case True
  then show ?thesis by (simp add: sat_add_def unat_word_ariths)
next
  case False
  then show ?thesis by (simp add: sat_add_def)
qed

lemma unat_sat_sub: "unat (sat_sub a b) = unat a - unat b"
  by (simp add: sat_sub_def unat_sub word_le_nat_alt)

subsection \<open>UTF-8\<close>

text \<open>
  The standard library's UTF-8 decoder, one chunk at a time: \<open>utf8_chunk bs\<close> reads the
  first scalar value of \<open>bs\<close> and returns whether it is well formed and how many bytes it
  takes (the maximal ill-formed prefix, when it is not).  \<open>String::from_utf8\<close> accepts a
  byte string whose chunks are all well formed; \<open>from_utf8_lossy\<close> puts U+FFFD in place of
  each ill-formed one.
\<close>

definition utf8_cont :: "u8 \<Rightarrow> bool" where
  "utf8_cont b \<longleftrightarrow> 0x80 \<le> b \<and> b \<le> 0xBF"

definition utf8_second3 :: "u8 \<Rightarrow> u8 \<Rightarrow> bool" where
  "utf8_second3 b c \<longleftrightarrow>
     (if b = 0xE0 then 0xA0 \<le> c \<and> c \<le> 0xBF
      else if b = 0xED then 0x80 \<le> c \<and> c \<le> 0x9F
      else utf8_cont c)"

definition utf8_second4 :: "u8 \<Rightarrow> u8 \<Rightarrow> bool" where
  "utf8_second4 b c \<longleftrightarrow>
     (if b = 0xF0 then 0x90 \<le> c \<and> c \<le> 0xBF
      else if b = 0xF4 then 0x80 \<le> c \<and> c \<le> 0x8F
      else utf8_cont c)"

fun utf8_chunk :: "bytes \<Rightarrow> bool \<times> nat" where
  "utf8_chunk [] = (False, 0)"
| "utf8_chunk (b # bs) =
     (if b < 0x80 then (True, 1)
      else if 0xC2 \<le> b \<and> b \<le> 0xDF then
        (case bs of c # _ \<Rightarrow> if utf8_cont c then (True, 2) else (False, 1) | [] \<Rightarrow> (False, 1))
      else if 0xE0 \<le> b \<and> b \<le> 0xEF then
        (case bs of
           [] \<Rightarrow> (False, 1)
         | c # cs \<Rightarrow>
             if \<not> utf8_second3 b c then (False, 1)
             else (case cs of [] \<Rightarrow> (False, 2)
                   | d # _ \<Rightarrow> if utf8_cont d then (True, 3) else (False, 2)))
      else if 0xF0 \<le> b \<and> b \<le> 0xF4 then
        (case bs of
           [] \<Rightarrow> (False, 1)
         | c # cs \<Rightarrow>
             if \<not> utf8_second4 b c then (False, 1)
             else (case cs of [] \<Rightarrow> (False, 2)
                   | d # ds \<Rightarrow>
                       if \<not> utf8_cont d then (False, 2)
                       else (case ds of [] \<Rightarrow> (False, 3)
                             | e # _ \<Rightarrow> if utf8_cont e then (True, 4) else (False, 3))))
      else (False, 1))"

fun utf8_valid :: "bytes \<Rightarrow> bool" where
  "utf8_valid [] = True"
| "utf8_valid (b # bs) =
     (case utf8_chunk (b # bs) of (ok, n) \<Rightarrow> ok \<and> utf8_valid (drop (n - 1) bs))"

fun from_utf8_lossy :: "bytes \<Rightarrow> rstring" where
  "from_utf8_lossy [] = []"
| "from_utf8_lossy (b # bs) =
     (case utf8_chunk (b # bs) of
        (ok, n) \<Rightarrow> (if ok then take n (b # bs) else [0xEF, 0xBF, 0xBD])
                  @ from_utf8_lossy (drop (n - 1) bs))"

definition from_utf8 :: "bytes \<Rightarrow> rstring option" where
  "from_utf8 bs = (if utf8_valid bs then Some bs else None)"

declare utf8_chunk.simps(2) [simp del]

lemma utf8_chunk_pos: "utf8_chunk (b # bs) = (ok, n) \<Longrightarrow> 0 < n"
  by (auto simp: utf8_chunk.simps split: if_splits list.splits)

lemma utf8_chunk_append:
  "utf8_chunk (b # bs) = (True, n) \<Longrightarrow> utf8_chunk (b # take (n - 1) bs @ ys) = (True, n)"
  by (auto simp: utf8_chunk.simps split: if_splits list.splits)

lemma utf8_chunk_length: "utf8_chunk (b # bs) = (True, n) \<Longrightarrow> n \<le> Suc (length bs)"
  by (auto simp: utf8_chunk.simps split: if_splits list.splits)

lemma from_utf8_lossy_id: "utf8_valid bs \<Longrightarrow> from_utf8_lossy bs = bs"
proof (induction bs rule: utf8_valid.induct)
  case 1
  then show ?case by simp
next
  case (2 b bs)
  obtain n where ch: "utf8_chunk (b # bs) = (True, n)" and v: "utf8_valid (drop (n - 1) bs)"
    using "2.prems" by (auto split: prod.splits)
  have "from_utf8_lossy (drop (n - 1) bs) = drop (n - 1) bs"
    using "2.IH" [OF ch [symmetric]] v by simp
  moreover obtain m where "n = Suc m" using utf8_chunk_pos [OF ch] by (cases n) auto
  ultimately show ?case using ch by simp
qed

lemma utf8_valid_chunk_append:
  "utf8_chunk (b # bs) = (True, n) \<Longrightarrow> utf8_valid ys \<Longrightarrow> utf8_valid (take n (b # bs) @ ys)"
proof -
  assume ch: "utf8_chunk (b # bs) = (True, n)" and v: "utf8_valid ys"
  obtain m where n: "n = Suc m" using utf8_chunk_pos [OF ch] by (cases n) auto
  have "m \<le> length bs" using utf8_chunk_length [OF ch] n by simp
  then show ?thesis using utf8_chunk_append [OF ch, of ys] v n by simp
qed

lemma utf8_valid_lossy: "utf8_valid (from_utf8_lossy bs)"
proof (induction bs rule: from_utf8_lossy.induct)
  case 1
  then show ?case by simp
next
  case (2 b bs)
  obtain ok n where ch: "utf8_chunk (b # bs) = (ok, n)" by fastforce
  have ih: "utf8_valid (from_utf8_lossy (drop (n - 1) bs))"
    by (rule "2.IH" [OF ch [symmetric]])
  show ?case
  proof (cases ok)
    case True
    then show ?thesis using ch ih utf8_valid_chunk_append [of b bs n] by simp
  next
    case False
    then show ?thesis using ch ih by (simp add: utf8_chunk.simps utf8_second3_def utf8_cont_def)
  qed
qed

lemma from_utf8_eq_Some [simp]: "from_utf8 bs = Some s \<longleftrightarrow> utf8_valid bs \<and> s = bs"
  by (auto simp: from_utf8_def)

lemma from_utf8_eq_None [simp]: "from_utf8 bs = None \<longleftrightarrow> \<not> utf8_valid bs"
  by (simp add: from_utf8_def)

subsection \<open>Lists: first position, chunks\<close>

fun position :: "('a \<Rightarrow> bool) \<Rightarrow> 'a list \<Rightarrow> nat option" where
  "position P [] = None"
| "position P (x # xs) = (if P x then Some 0 else map_option Suc (position P xs))"

lemma position_SomeD:
  "position P xs = Some i \<Longrightarrow> i < length xs \<and> P (xs ! i) \<and> (\<forall>j<i. \<not> P (xs ! j))"
proof (induction xs arbitrary: i)
  case Nil
  then show ?case by simp
next
  case (Cons x xs)
  show ?case
  proof (cases "P x")
    case True
    then show ?thesis using Cons.prems by simp
  next
    case False
    then obtain k where k: "position P xs = Some k" "i = Suc k" using Cons.prems by auto
    from Cons.IH [OF k(1)] False k(2) show ?thesis by (auto simp: nth_Cons split: nat.splits)
  qed
qed

lemma position_None: "position P xs = None \<longleftrightarrow> (\<forall>x\<in>set xs. \<not> P x)"
  by (induction xs) auto

lemma set_tl_subset: "set (tl xs) \<subseteq> set xs"
  by (cases xs) auto

text \<open>\<open>as_chunks::<n>().0\<close>: the complete chunks of \<open>n\<close> elements.\<close>

function chunks :: "nat \<Rightarrow> 'a list \<Rightarrow> 'a list list" where
  "chunks n xs = (if n = 0 \<or> length xs < n then [] else take n xs # chunks n (drop n xs))"
  by pat_completeness auto
termination
  by (relation "measure (\<lambda>(n, xs). length xs)") auto

declare chunks.simps [simp del]

lemma chunks_concat:
  "0 < n \<Longrightarrow> \<forall>x\<in>set xss. length x = n \<Longrightarrow> chunks n (concat xss) = xss"
  by (induction xss) (auto simp: chunks.simps [of n])

lemma chunks_length: "x \<in> set (chunks n xs) \<Longrightarrow> length x = n"
proof (induction n xs rule: chunks.induct)
  case (1 n xs)
  then show ?case by (subst (asm) chunks.simps) (auto split: if_splits)
qed

lemma concat_chunks: "0 < n \<Longrightarrow> length xs mod n = 0 \<Longrightarrow> concat (chunks n xs) = xs"
proof (induction n xs rule: chunks.induct)
  case (1 n xs)
  show ?case
  proof (cases "length xs < n")
    case True
    then show ?thesis using "1.prems" by (subst chunks.simps) simp
  next
    case False
    then have "length (drop n xs) mod n = 0" using "1.prems" by (simp add: le_mod_geq)
    then have "concat (chunks n (drop n xs)) = drop n xs"
      using "1.IH" False "1.prems" by simp
    then show ?thesis using False "1.prems"(1) by (subst chunks.simps) simp
  qed
qed

subsection \<open>Maps as association lists\<close>

text \<open>
  A \<open>HashMap\<close> is an association list with distinct keys, read by \<^const>\<open>map_of\<close>, written
  by \<^const>\<open>AList.update\<close> and \<^const>\<open>AList.delete\<close>, filtered by \<open>retain\<close>.  Its order
  stands for the map's iteration order, which Rust leaves open; no theorem rests on it.
  A \<open>BTreeMap\<close> is a list with strictly increasing keys, written by \<open>bt_insert\<close>.
\<close>

abbreviation keys :: "('k \<times> 'v) list \<Rightarrow> 'k list" where
  "keys m \<equiv> map fst m"

fun bt_insert :: "'k::linorder \<Rightarrow> 'v \<Rightarrow> ('k \<times> 'v) list \<Rightarrow> ('k \<times> 'v) list" where
  "bt_insert k v [] = [(k, v)]"
| "bt_insert k v ((k', v') # m) =
     (if k < k' then (k, v) # (k', v') # m
      else if k = k' then (k, v) # m
      else (k', v') # bt_insert k v m)"

definition bt_sorted :: "('k::linorder \<times> 'v) list \<Rightarrow> bool" where
  "bt_sorted m \<longleftrightarrow> sorted_wrt (<) (keys m)"

lemma bt_sorted_simps [simp]:
  "bt_sorted []"
  "bt_sorted ((k, v) # m) \<longleftrightarrow> (\<forall>k'\<in>set (keys m). k < k') \<and> bt_sorted m"
  by (auto simp: bt_sorted_def)

lemma map_of_bt_insert: "map_of (bt_insert k v m) = (map_of m)(k \<mapsto> v)" if "bt_sorted m"
  using that
proof (induction m)
  case Nil
  then show ?case by simp
next
  case (Cons p m)
  obtain k' v' where p: "p = (k', v')" by (cases p)
  show ?case
  proof (cases "k < k'")
    case True
    with p show ?thesis by (simp add: fun_eq_iff)
  next
    case False
    then show ?thesis using Cons p by (auto simp: fun_eq_iff)
  qed
qed

lemma set_keys_bt_insert [simp]: "fst ` set (bt_insert k v m) = insert k (fst ` set m)"
  by (induction k v m rule: bt_insert.induct) auto

lemma set_bt_insert:
  "bt_sorted m \<Longrightarrow> set (bt_insert k v m) = insert (k, v) {p \<in> set m. fst p \<noteq> k}"
proof (induction m)
  case (Cons p m)
  obtain k' v' where p: "p = (k', v')" by (cases p)
  have lt: "\<forall>q\<in>set m. k' < fst q" using Cons.prems p by auto
  show ?case using Cons lt p by auto
qed simp

lemma set_bt_insert_subset: "set (bt_insert k v m) \<subseteq> insert (k, v) (set m)"
  by (induction k v m rule: bt_insert.induct) auto

lemma bt_sorted_insert [intro]: "bt_sorted m \<Longrightarrow> bt_sorted (bt_insert k v m)"
proof (induction k v m rule: bt_insert.induct)
  case (2 k v k' v' m)
  have "\<forall>x\<in>fst ` set (bt_insert k v m). k' < x" if "\<not> k < k'" "k \<noteq> k'"
    using that "2.prems" by auto
  with 2 show ?case by auto
qed simp

lemma bt_sorted_distinct: "bt_sorted m \<Longrightarrow> distinct (keys m)"
  by (induction m) fastforce+

lemma bt_sorted_filter: "bt_sorted m \<Longrightarrow> bt_sorted (filter P m)"
  by (induction m) auto

lemma bt_sorted_delete: "bt_sorted m \<Longrightarrow> bt_sorted (AList.delete k m)"
  by (simp add: AList.delete_eq bt_sorted_filter)

lemma bt_insert_new: "k \<notin> set (keys m) \<Longrightarrow> length (bt_insert k v m) = Suc (length m)"
  by (induction k v m rule: bt_insert.induct) auto

lemma bt_insert_old: "bt_sorted m \<Longrightarrow> k \<in> set (keys m) \<Longrightarrow> length (bt_insert k v m) = length m"
  by (induction k v m rule: bt_insert.induct) auto

lemma length_update:
  "length (AList.update k v m) = (if k \<in> set (keys m) then length m else Suc (length m))"
  by (induction m) auto

lemma length_delete_le: "length (AList.delete k m) \<le> length m"
  by (simp add: AList.delete_eq)

lemma length_delete_less: "k \<in> set (keys m) \<Longrightarrow> length (AList.delete k m) < length m"
  by (induction m) (auto simp: AList.delete_eq intro: le_imp_less_Suc)

lemma map_of_SomeI: "distinct (keys m) \<Longrightarrow> (k, v) \<in> set m \<Longrightarrow> map_of m k = Some v"
  by simp

lemma map_of_None_iff: "map_of m k = None \<longleftrightarrow> k \<notin> set (keys m)"
  by (simp add: map_of_eq_None_iff)

lemma distinct_keys_filter: "distinct (keys m) \<Longrightarrow> distinct (keys (filter P m))"
  by (induction m) auto

subsection \<open>Panics\<close>

text \<open>
  A Rust panic (\<open>expect\<close>, an index out of range) is \<open>None\<close>; code that may panic runs in the
  option monad.  \<open>ensures m Q\<close>: \<open>m\<close> does not panic and its result satisfies \<open>Q\<close>.
\<close>

definition ensures :: "'a option \<Rightarrow> ('a \<Rightarrow> bool) \<Rightarrow> bool" where
  "ensures m Q = (case m of None \<Rightarrow> False | Some x \<Rightarrow> Q x)"

lemma ensures_simps [simp]: "ensures (Some x) Q = Q x" "\<not> ensures None Q"
  by (simp_all add: ensures_def)

lemma ensures_bind [simp]: "ensures (Option.bind m f) Q = ensures m (\<lambda>x. ensures (f x) Q)"
  by (cases m) auto

lemma ensures_mono: "ensures m P \<Longrightarrow> (\<And>x. P x \<Longrightarrow> Q x) \<Longrightarrow> ensures m Q"
  by (cases m) auto

lemma ensuresI: "m = Some x \<Longrightarrow> Q x \<Longrightarrow> ensures m Q"
  by simp

lemma ensures_conj: "ensures m P \<Longrightarrow> ensures m Q \<Longrightarrow> ensures m (\<lambda>x. P x \<and> Q x)"
  by (cases m) auto

lemma ensures_iff: "ensures m Q \<longleftrightarrow> (\<exists>x. m = Some x \<and> Q x)"
  by (cases m) auto

text \<open>A \<open>for\<close> loop over a list whose body may panic.\<close>

fun fold_opt :: "('a \<Rightarrow> 's \<Rightarrow> 's option) \<Rightarrow> 'a list \<Rightarrow> 's \<Rightarrow> 's option" where
  "fold_opt f [] s = Some s"
| "fold_opt f (x # xs) s = Option.bind (f x s) (fold_opt f xs)"

lemma fold_opt_inv:
  "I s \<Longrightarrow> (\<And>x s. x \<in> set xs \<Longrightarrow> I s \<Longrightarrow> ensures (f x s) I) \<Longrightarrow> ensures (fold_opt f xs s) I"
proof (induction xs arbitrary: s)
  case Nil
  then show ?case by simp
next
  case (Cons x xs)
  have step: "ensures (f y t) I" if "y \<in> set (x # xs)" "I t" for y t
    by (rule Cons.prems(2)) (use that in simp_all)
  have "ensures (f x s) (\<lambda>s. ensures (fold_opt f xs s) I)"
    by (rule ensures_mono [OF step Cons.IH]) (use Cons.prems(1) step in simp_all)
  then show ?case by simp
qed

lemma fold_inv:
  "I s \<Longrightarrow> (\<And>x s. x \<in> set xs \<Longrightarrow> I s \<Longrightarrow> I (f x s)) \<Longrightarrow> I (fold f xs s)"
proof (induction xs arbitrary: s)
  case (Cons x xs)
  have "I (f x s)" by (rule Cons.prems(2)) (use Cons.prems(1) in simp_all)
  moreover have "I (f y t)" if "y \<in> set xs" "I t" for y t
    by (rule Cons.prems(2)) (use that in simp_all)
  ultimately have "I (fold f xs (f x s))" by (rule Cons.IH)
  then show ?case by simp
qed simp

subsection \<open>Interfaces\<close>

text \<open>A codec decodes what it encoded.\<close>

locale codec =
  fixes encode :: "'a \<Rightarrow> bytes"
    and decode :: "bytes \<Rightarrow> 'a option"
    and valid :: "'a \<Rightarrow> bool"
  assumes decode_encode: "valid x \<Longrightarrow> decode (encode x) = Some x"
begin

lemma encode_inj: "valid x \<Longrightarrow> valid y \<Longrightarrow> encode x = encode y \<Longrightarrow> x = y"
  by (metis decode_encode option.inject)

lemma decode_all: "\<forall>x\<in>set xs. valid x \<Longrightarrow> List.map_filter decode (map encode xs) = xs"
  by (induction xs) (auto simp: List.map_filter_simps decode_encode)

end

text \<open>
  A fixed-width codec encodes every value in the same number of bytes, so that the
  encodings of a list can be concatenated and cut apart again.
\<close>

locale fixed_codec = codec +
  fixes width :: nat
  assumes width_pos: "0 < width"
    and length_encode: "valid x \<Longrightarrow> length (encode x) = width"
begin

lemma chunks_encode: "\<forall>x\<in>set xs. valid x \<Longrightarrow> chunks width (concat (map encode xs)) = map encode xs"
  using width_pos length_encode by (intro chunks_concat) auto

lemma length_concat_encode: "\<forall>x\<in>set xs. valid x \<Longrightarrow> length (concat (map encode xs)) = width * length xs"
  by (induction xs) (auto simp: length_encode)

lemma decode_concat:
  "\<forall>x\<in>set xs. valid x \<Longrightarrow> List.map_filter decode (chunks width (concat (map encode xs))) = xs"
  by (simp add: chunks_encode decode_all)

end

text \<open>
  A machine whose steps may panic, and an invariant that excludes the panics: from a state
  with the invariant no run panics, and every state it reaches has the invariant.
\<close>

locale machine =
  fixes step :: "'e \<Rightarrow> 's \<Rightarrow> 's option"
    and inv :: "'s \<Rightarrow> bool"
    and enabled :: "'e \<Rightarrow> bool"
  assumes step_inv: "inv s \<Longrightarrow> enabled e \<Longrightarrow> ensures (step e s) inv"
begin

lemma run_inv: "inv s \<Longrightarrow> list_all enabled es \<Longrightarrow> ensures (fold_opt step es s) inv"
  by (rule fold_opt_inv) (auto simp: step_inv list_all_iff)

lemma run_no_panic: "inv s \<Longrightarrow> list_all enabled es \<Longrightarrow> \<exists>s'. fold_opt step es s = Some s' \<and> inv s'"
  using run_inv [of s es] by (simp add: ensures_iff)

end

text \<open>
  A machine that draws identifiers from a counter: a step draws at most one, and the
  invariant is kept as long as the counter has not run out.
\<close>

locale counted_machine =
  fixes step :: "'e \<Rightarrow> 's \<Rightarrow> 's option"
    and inv :: "'s \<Rightarrow> bool"
    and enabled :: "'e \<Rightarrow> bool"
    and used :: "'s \<Rightarrow> nat"
    and limit :: nat
  assumes step_inv: "inv s \<Longrightarrow> enabled e \<Longrightarrow> used s < limit \<Longrightarrow>
    ensures (step e s) (\<lambda>s'. inv s' \<and> used s' \<le> Suc (used s))"
begin

lemma run_inv:
  "inv s \<Longrightarrow> list_all enabled es \<Longrightarrow> used s + length es \<le> limit \<Longrightarrow>
   ensures (fold_opt step es s) inv"
proof (induction es arbitrary: s)
  case (Cons e es)
  have "ensures (step e s) (\<lambda>s'. inv s' \<and> used s' \<le> Suc (used s))"
    by (rule step_inv) (use Cons.prems in simp_all)
  then have "ensures (step e s) (\<lambda>s'. ensures (fold_opt step es s') inv)"
    by (rule ensures_mono) (use Cons in simp)
  then show ?case by simp
qed simp

end

end
