(* ===== verification/Bencode.thy ===== *)
theory Bencode
  imports Btfind_Prelude
begin

text \<open>
  KRPC messages and their bencoded form, \<^verbatim>\<open>src/src/bencode.rs\<close>.  \<open>bvalue\<close> is the value
  type of the crate \<open>serde_bencode\<close>, whose encoder and decoder are the parameters \<open>enc\<close>
  (\<open>None\<close> where the \<open>expect\<close> on its result would panic) and \<open>dec\<close> (\<open>Inl\<close> with the text of
  its error).  A \<open>HashMap\<close> or \<open>BTreeMap\<close> whose order the code never looks at is a finite
  map; a \<open>String\<close> key is its UTF-8 bytes.
\<close>

subsection \<open>Values\<close>

type_synonym i64 = "64 word"

datatype bvalue =
  BBytes bytes
| BInt i64
| BList "bvalue list"
| BDict "(bytes, bvalue) fmap"

type_synonym bdict = "(bytes, bvalue) fmap"

datatype krpc_value =
  KBytes bytes
| KInt i64
| KList "krpc_value list"
| KDict "(rstring, krpc_value) fmap"

type_synonym krpc_dict = "(rstring, krpc_value) fmap"

type_synonym benc = "bvalue \<Rightarrow> bytes option"
type_synonym bdec = "bytes \<Rightarrow> rstring + bvalue"

record krpc_error =
  ke_code :: i64
  ke_description :: rstring

datatype krpc_message =
  Query (km_t: bytes) (km_y: rstring) (km_q: rstring) (km_a: krpc_dict) (km_extra: krpc_dict)
| Response (km_t: bytes) (km_y: rstring) (km_r: krpc_dict) (km_extra: krpc_dict)
| Error (km_t: bytes) (km_y: rstring) (km_e: krpc_error) (km_extra: krpc_dict)

primrec krpc_to_bencode :: "krpc_value \<Rightarrow> bvalue" where
  "krpc_to_bencode (KBytes b) = BBytes b"
| "krpc_to_bencode (KInt i) = BInt i"
| "krpc_to_bencode (KList l) = BList (map krpc_to_bencode l)"
| "krpc_to_bencode (KDict d) = BDict (fmmap krpc_to_bencode d)"

primrec bencode_to_krpc :: "bvalue \<Rightarrow> krpc_value" where
  "bencode_to_krpc (BBytes b) = KBytes b"
| "bencode_to_krpc (BInt i) = KInt i"
| "bencode_to_krpc (BList l) = KList (map bencode_to_krpc l)"
| "bencode_to_krpc (BDict d) = KDict (fmfilter utf8_valid (fmmap bencode_to_krpc d))"

subsection \<open>Messages\<close>

definition reserved_key :: "bytes \<Rightarrow> bool" where
  "reserved_key k \<longleftrightarrow>
     k \<in> {str ''t'', str ''y'', str ''q'', str ''a'', str ''r'', str ''e''}"

text \<open>The loop of \<open>insert_extra\<close> overwrites the entries of \<open>dict\<close> key by key.\<close>

definition insert_extra :: "bdict \<Rightarrow> krpc_dict \<Rightarrow> bdict" where
  "insert_extra dict extra =
     dict ++\<^sub>f fmmap krpc_to_bencode (fmfilter (\<lambda>k. \<not> reserved_key k) extra)"

definition collect_extra :: "bdict \<Rightarrow> krpc_dict" where
  "collect_extra dict =
     fmmap bencode_to_krpc (fmfilter (\<lambda>k. utf8_valid k \<and> \<not> reserved_key k) dict)"

definition get_bytes :: "bdict \<Rightarrow> rstring \<Rightarrow> bytes option" where
  "get_bytes dict key =
     (case fmlookup dict key of Some (BBytes b) \<Rightarrow> Some b | _ \<Rightarrow> None)"

definition get_string :: "bdict \<Rightarrow> rstring \<Rightarrow> rstring option" where
  "get_string dict key = map_option from_utf8_lossy (get_bytes dict key)"

definition get_dict :: "bdict \<Rightarrow> rstring \<Rightarrow> bdict option" where
  "get_dict dict key =
     (case fmlookup dict key of Some (BDict d) \<Rightarrow> Some d | _ \<Rightarrow> None)"

definition get_list :: "bdict \<Rightarrow> rstring \<Rightarrow> bvalue list option" where
  "get_list dict key =
     (case fmlookup dict key of Some (BList l) \<Rightarrow> Some l | _ \<Rightarrow> None)"

fun message_dict :: "krpc_message \<Rightarrow> bdict" where
  "message_dict (Query t y q a extra) =
     (let dict = fmupd (str ''t'') (BBytes t) fmempty;
          dict = insert_extra dict extra;
          dict = fmupd (str ''y'') (BBytes y) dict;
          dict = fmupd (str ''q'') (BBytes q) dict
      in fmupd (str ''a'') (BDict (fmmap krpc_to_bencode a)) dict)"
| "message_dict (Response t y r extra) =
     (let dict = fmupd (str ''t'') (BBytes t) fmempty;
          dict = insert_extra dict extra;
          dict = fmupd (str ''y'') (BBytes y) dict
      in fmupd (str ''r'') (BDict (fmmap krpc_to_bencode r)) dict)"
| "message_dict (Error t y e extra) =
     (let dict = fmupd (str ''t'') (BBytes t) fmempty;
          dict = insert_extra dict extra;
          dict = fmupd (str ''y'') (BBytes y) dict;
          e_list = [BInt (ke_code e), BBytes (ke_description e)]
      in fmupd (str ''e'') (BList e_list) dict)"

definition krpc_to_bytes :: "benc \<Rightarrow> krpc_message \<Rightarrow> bytes option" where
  "krpc_to_bytes enc m = enc (BDict (message_dict m))"

definition dict_to_krpc :: "bdict option \<Rightarrow> krpc_dict" where
  "dict_to_krpc d =
     (case d of None \<Rightarrow> fmempty | Some a \<Rightarrow> fmmap bencode_to_krpc (fmfilter utf8_valid a))"

definition ok_or :: "'e \<Rightarrow> 'a option \<Rightarrow> 'e + 'a" where
  "ok_or e x = (case x of None \<Rightarrow> Inl e | Some a \<Rightarrow> Inr a)"

definition parse_error :: "bdict \<Rightarrow> bytes \<Rightarrow> rstring \<Rightarrow> krpc_dict \<Rightarrow> rstring + krpc_message" where
  "parse_error dict t y extra =
     (case get_list dict (str ''e'') of
        None \<Rightarrow> Inl (str ''missing e'')
      | Some e_list \<Rightarrow>
          (case e_list of
             BInt code # rest \<Rightarrow>
               (let description =
                      (case rest of BBytes b # _ \<Rightarrow> from_utf8_lossy b | _ \<Rightarrow> str ''unknown error'')
                in Inr (Error t y \<lparr>ke_code = code, ke_description = description\<rparr> extra))
           | _ \<Rightarrow> Inl (str ''invalid error code'')))"

definition parse_message :: "bdict \<Rightarrow> rstring + krpc_message" where
  "parse_message dict =
     (case get_bytes dict (str ''t'') of
        None \<Rightarrow> Inl (str ''missing t'')
      | Some t \<Rightarrow>
     (case get_string dict (str ''y'') of
        None \<Rightarrow> Inl (str ''missing y'')
      | Some y \<Rightarrow>
     (let extra = collect_extra dict in
      if y = str ''q'' then
        (case get_string dict (str ''q'') of
           None \<Rightarrow> Inl (str ''missing q'')
         | Some q \<Rightarrow> Inr (Query t y q (dict_to_krpc (get_dict dict (str ''a''))) extra))
      else if y = str ''r'' then
        Inr (Response t y (dict_to_krpc (get_dict dict (str ''r''))) extra)
      else if y = str ''e'' then parse_error dict t y extra
      else Inl (str ''unknown message type: '' @ y))))"

definition krpc_from_bytes :: "bdec \<Rightarrow> bytes \<Rightarrow> rstring + krpc_message" where
  "krpc_from_bytes dec data =
     (case dec data of
        Inl e \<Rightarrow> Inl (str ''bencode decode error: '' @ e)
      | Inr (BDict dict) \<Rightarrow> parse_message dict
      | Inr _ \<Rightarrow> Inl (str ''top-level value is not a dict''))"

definition is_query :: "krpc_message \<Rightarrow> bool" where
  "is_query m = (case m of Query _ _ _ _ _ \<Rightarrow> True | _ \<Rightarrow> False)"

definition is_response :: "krpc_message \<Rightarrow> bool" where
  "is_response m = (case m of Response _ _ _ _ \<Rightarrow> True | _ \<Rightarrow> False)"

definition transaction_id :: "krpc_message \<Rightarrow> bytes" where
  "transaction_id m =
     (case m of Query t _ _ _ _ \<Rightarrow> t | Response t _ _ _ \<Rightarrow> t | Error t _ _ _ \<Rightarrow> t)"

definition top_level :: "krpc_message \<Rightarrow> rstring \<Rightarrow> krpc_value option" where
  "top_level m key =
     (case m of
        Query _ _ _ _ extra \<Rightarrow> fmlookup extra key
      | Response _ _ _ extra \<Rightarrow> fmlookup extra key
      | Error _ _ _ extra \<Rightarrow> fmlookup extra key)"

subsection \<open>What survives a round trip\<close>

text \<open>
  \<open>krpc_norm\<close> drops the dictionary keys that are not UTF-8, which a Rust \<open>String\<close> cannot
  hold; \<open>message_norm\<close> is the message that a decoder sees when the encoder wrote \<open>m\<close>: the
  reserved keys of \<open>extra\<close> are gone, the fields themselves stay.
\<close>

primrec krpc_ok :: "krpc_value \<Rightarrow> bool" where
  "krpc_ok (KBytes b) = True"
| "krpc_ok (KInt i) = True"
| "krpc_ok (KList l) = list_all krpc_ok l"
| "krpc_ok (KDict d) = (fmpred (\<lambda>k v. utf8_valid k) d \<and> pred_fmap (\<lambda>b. b) (fmmap krpc_ok d))"

definition dict_ok :: "krpc_dict \<Rightarrow> bool" where
  "dict_ok d \<longleftrightarrow> fmpred (\<lambda>k v. utf8_valid k \<and> krpc_ok v) d"

fun message_ok :: "krpc_message \<Rightarrow> bool" where
  "message_ok (Query t y q a extra) =
     (y = str ''q'' \<and> utf8_valid q \<and> dict_ok a \<and> dict_ok extra)"
| "message_ok (Response t y r extra) = (y = str ''r'' \<and> dict_ok r \<and> dict_ok extra)"
| "message_ok (Error t y e extra) =
     (y = str ''e'' \<and> utf8_valid (ke_description e) \<and> dict_ok extra)"

fun message_norm :: "krpc_message \<Rightarrow> krpc_message" where
  "message_norm (Query t y q a extra) = Query t y q a (fmfilter (\<lambda>k. \<not> reserved_key k) extra)"
| "message_norm (Response t y r extra) = Response t y r (fmfilter (\<lambda>k. \<not> reserved_key k) extra)"
| "message_norm (Error t y e extra) = Error t y e (fmfilter (\<lambda>k. \<not> reserved_key k) extra)"

lemma dict_ok_iff: "krpc_ok (KDict d) \<longleftrightarrow> dict_ok d"
  by (auto simp: dict_ok_def fmpred_iff fmap.pred_set fmlookup_ran'_iff)

lemma krpc_round_trip: "krpc_ok v \<Longrightarrow> bencode_to_krpc (krpc_to_bencode v) = v"
proof (induction v)
  case (KList l)
  then show ?case by (induction l) auto
next
  case (KDict d)
  have ok: "dict_ok d" using KDict.prems by (simp only: dict_ok_iff)
  have "fmfilter utf8_valid (fmmap bencode_to_krpc (fmmap krpc_to_bencode d)) = d"
  proof (rule fmap_ext)
    fix k
    show "fmlookup (fmfilter utf8_valid (fmmap bencode_to_krpc (fmmap krpc_to_bencode d))) k = fmlookup d k"
    proof (cases "fmlookup d k")
      case (Some v)
      then have "utf8_valid k" "krpc_ok v" using ok by (auto simp: dict_ok_def fmpred_iff)
      moreover have "v \<in> fmran' d" using Some by (rule fmran'I)
      ultimately show ?thesis using KDict.IH Some by simp
    qed simp
  qed
  then show ?case by simp
qed simp_all

lemma dict_round_trip:
  assumes "dict_ok d"
  shows "fmmap bencode_to_krpc (fmfilter utf8_valid (fmmap krpc_to_bencode d)) = d"
proof -
  have "bencode_to_krpc (krpc_to_bencode (KDict d)) = KDict d"
    by (rule krpc_round_trip) (use assms dict_ok_iff in blast)
  then show ?thesis by simp
qed

lemma reserved_keys [simp]:
  "reserved_key (str ''t'')" "reserved_key (str ''y'')" "reserved_key (str ''q'')"
  "reserved_key (str ''a'')" "reserved_key (str ''r'')" "reserved_key (str ''e'')"
  by (simp_all add: reserved_key_def)

lemma fmlookup_insert_extra:
  "fmlookup (insert_extra dict extra) k =
     (if reserved_key k then fmlookup dict k
      else case fmlookup extra k of None \<Rightarrow> fmlookup dict k | Some v \<Rightarrow> Some (krpc_to_bencode v))"
  by (auto simp: insert_extra_def fmdom'_notD split: option.splits)

lemma reserved_distinct: "reserved_key k \<Longrightarrow> k \<noteq> k' \<or> reserved_key k'"
  by auto

lemma collect_extra_eqI:
  assumes "dict_ok extra"
    and "\<And>k. \<not> reserved_key k \<Longrightarrow> fmlookup dict k = map_option krpc_to_bencode (fmlookup extra k)"
  shows "collect_extra dict = fmfilter (\<lambda>k. \<not> reserved_key k) extra"
proof (rule fmap_ext)
  fix k
  show "fmlookup (collect_extra dict) k = fmlookup (fmfilter (\<lambda>k. \<not> reserved_key k) extra) k"
  proof (cases "reserved_key k")
    case True
    then show ?thesis by (simp add: collect_extra_def)
  next
    case False
    then show ?thesis
    proof (cases "fmlookup extra k")
      case None
      then show ?thesis using False assms(2) [OF False] by (simp add: collect_extra_def)
    next
      case (Some v)
      then have "utf8_valid k" "krpc_ok v" using assms(1) by (auto simp: dict_ok_def fmpred_iff)
      then show ?thesis using False Some assms(2) [OF False]
        by (simp add: collect_extra_def krpc_round_trip)
    qed
  qed
qed

lemma dict_to_krpc_eq [simp]:
  "dict_ok a \<Longrightarrow> dict_to_krpc (Some (fmmap krpc_to_bencode a)) = a"
  using dict_round_trip [of a] by (simp only: dict_to_krpc_def option.case)

lemma lossy_utf8 [simp]: "utf8_valid s \<Longrightarrow> from_utf8_lossy s = s"
  by (rule from_utf8_lossy_id)

lemma utf8_kinds [simp]:
  "utf8_valid (str ''q'')" "utf8_valid (str ''r'')" "utf8_valid (str ''e'')"
  by code_simp+

lemma message_dict_fields:
  "fmlookup (message_dict m) (str ''t'') = Some (BBytes (km_t m))"
  "fmlookup (message_dict m) (str ''y'') = Some (BBytes (km_y m))"
  by (cases m; simp add: Let_def fmlookup_insert_extra)+

lemma message_dict_extra:
  assumes "\<not> reserved_key k"
  shows "fmlookup (message_dict m) k = map_option krpc_to_bencode (fmlookup (km_extra m) k)"
proof -
  have sub: "reserved_key l \<Longrightarrow> l \<noteq> k" for l
    by (rule notI) (simp only: assms)
  have ne: "str ''t'' \<noteq> k" "str ''y'' \<noteq> k" "str ''q'' \<noteq> k" "str ''a'' \<noteq> k" "str ''r'' \<noteq> k"
    "str ''e'' \<noteq> k"
    by (rule sub, rule reserved_keys)+
  show ?thesis
    by (cases m; simp add: Let_def fmlookup_insert_extra assms ne split: option.split)
qed

lemma parse_message_dict: "message_ok m \<Longrightarrow> parse_message (message_dict m) = Inr (message_norm m)"
proof -
  assume ok: "message_ok m"
  then have ok_extra: "dict_ok (km_extra m)" by (cases m) simp_all
  have ex: "collect_extra (message_dict m) = fmfilter (\<lambda>k. \<not> reserved_key k) (km_extra m)"
    by (rule collect_extra_eqI [OF ok_extra message_dict_extra])
  have t: "get_bytes (message_dict m) (str ''t'') = Some (km_t m)"
    by (simp add: get_bytes_def message_dict_fields)
  have "utf8_valid (km_y m)" using ok by (cases m) simp_all
  then have y: "get_string (message_dict m) (str ''y'') = Some (km_y m)"
    by (simp add: get_string_def get_bytes_def message_dict_fields)
  define d where "d = message_dict m"
  have parse: "parse_message d =
      (if km_y m = str ''q'' then
        (case get_string d (str ''q'') of
           None \<Rightarrow> Inl (str ''missing q'')
         | Some q \<Rightarrow> Inr (Query (km_t m) (km_y m) q (dict_to_krpc (get_dict d (str ''a'')))
             (fmfilter (\<lambda>k. \<not> reserved_key k) (km_extra m))))
      else if km_y m = str ''r'' then
        Inr (Response (km_t m) (km_y m) (dict_to_krpc (get_dict d (str ''r'')))
          (fmfilter (\<lambda>k. \<not> reserved_key k) (km_extra m)))
      else if km_y m = str ''e'' then
        parse_error d (km_t m) (km_y m) (fmfilter (\<lambda>k. \<not> reserved_key k) (km_extra m))
      else Inl (str ''unknown message type: '' @ km_y m))"
    by (simp add: parse_message_def t [folded d_def] y [folded d_def] ex [folded d_def] Let_def)
  show ?thesis
    unfolding d_def [symmetric] parse
    using ok by (cases m)
      (simp_all add: d_def Let_def get_string_def get_bytes_def get_dict_def get_list_def
        parse_error_def cong del: fmfilter_cong)
qed

text \<open>What the parser answers is well formed: it can be written and read again unchanged.\<close>

lemma bencode_to_krpc_ok: "krpc_ok (bencode_to_krpc v)"
proof (induction v)
  case (BList l)
  then show ?case by (simp add: list_all_iff)
next
  case (BDict d)
  have "dict_ok (fmfilter utf8_valid (fmmap bencode_to_krpc d))"
    using BDict.IH by (auto simp: dict_ok_def fmpred_iff fmran'I split: if_splits)
  then show ?case by (simp only: bencode_to_krpc.simps dict_ok_iff)
qed simp_all

lemma collect_extra_ok: "dict_ok (collect_extra dict)"
  by (auto simp: collect_extra_def dict_ok_def fmpred_iff bencode_to_krpc_ok split: if_splits)

lemma dict_to_krpc_ok: "dict_ok (dict_to_krpc d)"
  by (auto simp: dict_to_krpc_def dict_ok_def fmpred_iff bencode_to_krpc_ok
      split: option.splits if_splits)

lemma collect_extra_norm: "fmfilter (\<lambda>k. \<not> reserved_key k) (collect_extra dict) = collect_extra dict"
  by (rule fmap_ext) (simp add: collect_extra_def)

lemma utf8_unknown [simp]: "utf8_valid (str ''unknown error'')"
  by code_simp

lemma parse_message_ok:
  assumes "parse_message dict = Inr m"
  shows "message_ok m" "message_norm m = m"
  using assms
  by (auto simp: parse_message_def parse_error_def Let_def get_string_def collect_extra_ok
      dict_to_krpc_ok collect_extra_norm utf8_valid_lossy
      split: option.splits if_splits list.splits bvalue.splits)

definition krpc_norm :: "krpc_value \<Rightarrow> krpc_value" where
  "krpc_norm v = bencode_to_krpc (krpc_to_bencode v)"

text \<open>Concrete messages for the witnesses.\<close>

definition ex_ping :: krpc_message where
  "ex_ping = Query [1, 2] (str ''q'') (str ''ping'') (fmupd (str ''id'') (KBytes (replicate 20 7)) fmempty)
     (fmupd (str ''y'') (KInt 3) (fmupd (str ''v'') (KBytes [1]) fmempty))"

lemma message_ok_ex_ping [simp]: "message_ok ex_ping"
proof -
  have "utf8_valid (str ''ping'')" "utf8_valid (str ''id'')" "utf8_valid (str ''v'')" by code_simp+
  moreover have "utf8_valid (str ''y'')" by code_simp
  ultimately show ?thesis by (simp add: ex_ping_def dict_ok_def fmpred_upd)
qed

subsection \<open>Properties of the message codec\<close>

text \<open>
  C20: a message that was encoded is decoded to itself, given that the bencode library
  decodes what it encoded: transaction id, kind, method, arguments and error all come back,
  and reserved keys smuggled into \<open>extra\<close> neither override the fields nor come back.
\<close>

theorem krpc_round_trip_message:
  assumes "message_ok m"
    and enc: "krpc_to_bytes enc m = Some bs"
    and lib: "\<And>v. enc v = Some bs \<Longrightarrow> dec bs = Inr v"
  shows "krpc_from_bytes dec bs = Inr (message_norm m)"
  using parse_message_dict [OF assms(1)] lib enc by (simp add: krpc_from_bytes_def krpc_to_bytes_def)

lemma krpc_round_trip_message_witness:
  "krpc_from_bytes (\<lambda>bs. if bs = [100] then Inr (BDict (message_dict ex_ping)) else Inl [])
     [100] = Inr (message_norm ex_ping)"
  by (rule krpc_round_trip_message
      [where enc = "\<lambda>v. if v = BDict (message_dict ex_ping) then Some [100] else Some []"])
    (simp_all add: krpc_to_bytes_def split: if_splits)

text \<open>
  C21: whatever bytes arrive, a message the decoder accepts is well formed: its kind letter
  agrees with its constructor, its method, error text and dictionary keys are UTF-8, its
  extra keys are not reserved, and encoding and decoding it again gives the same message.
\<close>

theorem krpc_accepts_well_formed:
  assumes "krpc_from_bytes dec data = Inr m"
  shows "message_ok m \<and> message_norm m = m \<and> parse_message (message_dict m) = Inr m"
  using parse_message_ok [of _ m] parse_message_dict [of m] assms
  by (auto simp: krpc_from_bytes_def split: sum.splits bvalue.splits)

lemma krpc_accepts_well_formed_witness:
  "message_ok (message_norm ex_ping)"
  using krpc_accepts_well_formed
      [of "\<lambda>bs. Inr (BDict (message_dict ex_ping))" "[]" "message_norm ex_ping"]
    parse_message_dict [of ex_ping] by (simp add: krpc_from_bytes_def)

end
