(* ===== verification/Node_Types.thy ===== *)
theory Node_Types
  imports Btfind_Prelude
begin

text \<open>
  The shared data types of \<^verbatim>\<open>src/src/types.rs\<close>: node identifiers and info hashes, contacts,
  discovery sources, failure reasons and the statistics events, with the XOR distance of
  the Kademlia routing table.  \<open>SocketAddrV4\<close> is the standard library's IPv4 socket
  address with its derived order (octets first, then the port).
\<close>

definition NODE_ID_LEN :: nat where "NODE_ID_LEN = 20"
definition INFO_HASH_LEN :: nat where "INFO_HASH_LEN = 20"
definition TRANSACTION_ID_LEN :: nat where "TRANSACTION_ID_LEN = 2"

text \<open>The arrays \<open>[u8; 20]\<close> are byte lists; \<open>valid_id\<close> is the length the Rust type fixes.\<close>

type_synonym node_id = bytes
type_synonym info_hash = bytes

definition valid_id :: "node_id \<Rightarrow> bool" where
  "valid_id i \<longleftrightarrow> length i = NODE_ID_LEN"

lemma length_valid_id [simp]: "valid_id i \<Longrightarrow> length i = 20"
  by (simp add: valid_id_def NODE_ID_LEN_def)

definition zero_hash :: info_hash where
  "zero_hash = replicate 20 0"

subsection \<open>Socket addresses\<close>

datatype ipv4_addr = Ipv4Addr u8 u8 u8 u8
datatype socket_addr_v4 = SocketAddrV4 (sa_ip: ipv4_addr) (sa_port: u16)

fun octets :: "ipv4_addr \<Rightarrow> bytes" where
  "octets (Ipv4Addr a b c d) = [a, b, c, d]"

lemma length_octets [simp, wire_simps]: "length (octets ip) = 4"
  by (cases ip) simp

lemma octets_inj [simp]: "octets ip = octets ip' \<longleftrightarrow> ip = ip'"
  by (cases ip; cases ip') simp

definition addr_key :: "socket_addr_v4 \<Rightarrow> nat list" where
  "addr_key a = map unat (octets (sa_ip a)) @ [unat (sa_port a)]"

lemma addr_key_inj: "addr_key a = addr_key b \<Longrightarrow> a = b"
  by (cases a; cases b; cases "sa_ip a"; cases "sa_ip b")
    (auto simp: addr_key_def word_unat_eq_iff)

instantiation socket_addr_v4 :: linorder
begin

definition less_eq_socket_addr_v4 :: "socket_addr_v4 \<Rightarrow> socket_addr_v4 \<Rightarrow> bool" where
  "a \<le> b \<longleftrightarrow> addr_key a \<le> addr_key b"

definition less_socket_addr_v4 :: "socket_addr_v4 \<Rightarrow> socket_addr_v4 \<Rightarrow> bool" where
  "a < b \<longleftrightarrow> addr_key a < addr_key b"

instance
  by standard (auto simp: less_eq_socket_addr_v4_def less_socket_addr_v4_def addr_key_inj)

end

subsection \<open>Contacts and discoveries\<close>

record node_contact =
  nc_id :: node_id
  nc_addr :: socket_addr_v4
  nc_last_seen :: instant
  nc_last_seen_unix :: int

record peer_contact =
  pc_addr :: socket_addr_v4

datatype discovery_source =
  InboundGetPeers | AnnouncePeer | Resume | SampleInfohashes | OutboundGetPeers

fun discovery_source_as_str :: "discovery_source \<Rightarrow> rstring" where
  "discovery_source_as_str InboundGetPeers = str ''inbound_get_peers''"
| "discovery_source_as_str AnnouncePeer = str ''announce_peer''"
| "discovery_source_as_str Resume = str ''resume''"
| "discovery_source_as_str SampleInfohashes = str ''sample_infohashes''"
| "discovery_source_as_str OutboundGetPeers = str ''outbound_get_peers''"

record hash_discovery =
  hd_info_hash :: info_hash
  hd_peers :: "peer_contact list"
  hd_source :: discovery_source

datatype metadata_failure_reason =
  FR_Connect | FR_ConnectTimeout | FR_HandshakeTimeout | FR_ExtensionTimeout
| FR_MetadataTimeout | FR_HandshakeIo | FR_ExtensionIo | FR_MetadataIo | FR_Handshake
| FR_ExtensionsUnsupported | FR_MetadataUnsupported | FR_MetadataDisabled
| FR_MetadataSizeMissing | FR_MetadataTooLarge | FR_ExtensionProtocol | FR_Rejected
| FR_Protocol | FR_HashMismatch | FR_Parse

fun failure_reason_as_str :: "metadata_failure_reason \<Rightarrow> rstring" where
  "failure_reason_as_str FR_ConnectTimeout = str ''connect_timeout''"
| "failure_reason_as_str FR_HandshakeTimeout = str ''handshake_timeout''"
| "failure_reason_as_str FR_ExtensionTimeout = str ''extension_timeout''"
| "failure_reason_as_str FR_MetadataTimeout = str ''metadata_timeout''"
| "failure_reason_as_str FR_HandshakeIo = str ''handshake_io''"
| "failure_reason_as_str FR_ExtensionIo = str ''extension_io''"
| "failure_reason_as_str FR_MetadataIo = str ''metadata_io''"
| "failure_reason_as_str FR_ExtensionsUnsupported = str ''extensions_unsupported''"
| "failure_reason_as_str FR_MetadataUnsupported = str ''metadata_unsupported''"
| "failure_reason_as_str FR_MetadataDisabled = str ''metadata_disabled''"
| "failure_reason_as_str FR_MetadataSizeMissing = str ''metadata_size_missing''"
| "failure_reason_as_str FR_MetadataTooLarge = str ''metadata_too_large''"
| "failure_reason_as_str FR_ExtensionProtocol = str ''extension_protocol''"
| "failure_reason_as_str FR_Connect = str ''connect''"
| "failure_reason_as_str FR_Handshake = str ''handshake''"
| "failure_reason_as_str FR_Rejected = str ''rejected''"
| "failure_reason_as_str FR_Protocol = str ''protocol''"
| "failure_reason_as_str FR_HashMismatch = str ''hash_mismatch''"
| "failure_reason_as_str FR_Parse = str ''parse''"

datatype metadata_job_admission = JA_Accepted | JA_Unchanged | JA_NoPeers | JA_AtCapacity

datatype metadata_retrieval_outcome =
  RO_Complete | RO_RetryAt | RO_WaitingPeers | RO_Invalid | RO_Unsupported

datatype crawl_stats_event =
  DhtSnapshot nat nat nat
| DhtNodeSeen node_id socket_addr_v4
| MetadataFetched
| MetadataFetchFailed metadata_failure_reason
| RpcAnswered
| RpcTimedOut
| RpcMalformed
| RpcUnsolicited
| RpcUnexpectedSource
| DiscoveryBackpressure
| SamplingResponse nat
| MetadataQueue nat nat nat
| SampleObserved info_hash node_id socket_addr_v4 u64
| HashObserved info_hash discovery_source bool bool nat

subsection \<open>Hexadecimal info hashes\<close>

text \<open>\<open>hex::decode\<close> and \<open>hex::encode\<close> belong to the crate \<open>hex\<close> and are parameters.\<close>

definition info_hash_from_hex :: "(rstring \<Rightarrow> bytes option) \<Rightarrow> rstring \<Rightarrow> info_hash option" where
  "info_hash_from_hex hex_decode hex =
     (case hex_decode hex of
        None \<Rightarrow> None
      | Some bytes \<Rightarrow> if length bytes \<noteq> INFO_HASH_LEN then None else Some bytes)"

definition info_hash_to_hex :: "(bytes \<Rightarrow> rstring) \<Rightarrow> info_hash \<Rightarrow> rstring" where
  "info_hash_to_hex hex_encode hash = hex_encode hash"

lemma info_hash_hex_round_trip:
  "hex_decode (hex_encode h) = Some h \<Longrightarrow> valid_id h \<Longrightarrow>
   info_hash_from_hex hex_decode (info_hash_to_hex hex_encode h) = Some h"
  by (simp add: info_hash_from_hex_def info_hash_to_hex_def INFO_HASH_LEN_def)

subsection \<open>The XOR distance\<close>

definition node_id_distance :: "node_id \<Rightarrow> node_id \<Rightarrow> bytes" where
  "node_id_distance a b = map (\<lambda>i. a ! i XOR b ! i) [0..<NODE_ID_LEN]"

lemma length_distance [simp]: "length (node_id_distance a b) = 20"
  by (simp add: node_id_distance_def NODE_ID_LEN_def)

lemma nth_distance: "i < 20 \<Longrightarrow> node_id_distance a b ! i = a ! i XOR b ! i"
  by (simp add: node_id_distance_def NODE_ID_LEN_def)

lemma distance_sym: "node_id_distance a b = node_id_distance b a"
  by (simp add: node_id_distance_def xor.commute)

lemma xor_cancel_iff: "(a XOR c = b XOR c) \<longleftrightarrow> a = (b :: 'a::len word)"
  by (metis xor.assoc xor.right_neutral xor_self_eq)

lemma distance_inj:
  assumes "valid_id a" "valid_id b"
  shows "node_id_distance a t = node_id_distance b t \<longleftrightarrow> a = b"
proof
  assume eq: "node_id_distance a t = node_id_distance b t"
  show "a = b"
  proof (rule nth_equalityI)
    show "length a = length b" using assms by simp
  next
    fix i assume "i < length a"
    then have i: "i < 20" using assms by simp
    have "a ! i XOR t ! i = b ! i XOR t ! i"
      using eq nth_distance [OF i] by metis
    then show "a ! i = b ! i" by (simp add: xor_cancel_iff)
  qed
qed simp

lemma distance_zero: "valid_id a \<Longrightarrow> valid_id b \<Longrightarrow> node_id_distance a b = zero_hash \<longleftrightarrow> a = b"
proof -
  assume v: "valid_id a" "valid_id b"
  have "node_id_distance b b = zero_hash"
    by (rule nth_equalityI) (auto simp: nth_distance zero_hash_def)
  then show ?thesis using distance_inj [OF v, of b] by simp
qed

end
