(* ===== verification/Wire.thy ===== *)
theory Wire
  imports Bencode Node_Types
begin

text \<open>
  The peer wire protocol of \<^verbatim>\<open>src/src/wire.rs\<close>: handshake, framed messages, the extension
  handshake of BEP 10 and the metadata messages of BEP 9, with the hand-written scanner that
  finds where a bencoded value ends in an untrusted buffer.
\<close>

subsection \<open>Handshake\<close>

definition BT_PROTOCOL :: bytes where "BT_PROTOCOL = str ''BitTorrent protocol''"
definition HANDSHAKE_LEN :: nat where "HANDSHAKE_LEN = 68"

record handshake =
  h_info_hash :: info_hash
  h_peer_id :: bytes
  h_reserved :: bytes

definition new_handshake :: "info_hash \<Rightarrow> bytes \<Rightarrow> handshake" where
  "new_handshake info_hash peer_id =
     (let reserved = replicate 8 0;
          reserved = reserved[5 := reserved ! 5 OR 0x10];
          reserved = reserved[7 := reserved ! 7 OR 0x01]
      in \<lparr>h_info_hash = info_hash, h_peer_id = peer_id, h_reserved = reserved\<rparr>)"

definition handshake_to_bytes :: "handshake \<Rightarrow> bytes" where
  "handshake_to_bytes h =
     [of_nat (length BT_PROTOCOL)] @ BT_PROTOCOL @ h_reserved h @ h_info_hash h @ h_peer_id h"

definition subrange :: "nat \<Rightarrow> nat \<Rightarrow> 'a list \<Rightarrow> 'a list" where
  "subrange i j xs = take (j - i) (drop i xs)"

definition handshake_from_bytes :: "bytes \<Rightarrow> handshake option" where
  "handshake_from_bytes data =
     (if length data < HANDSHAKE_LEN then None
      else if unat (data ! 0) \<noteq> 19 \<or> subrange 1 20 data \<noteq> BT_PROTOCOL then None
      else Some \<lparr>h_info_hash = subrange 28 48 data, h_peer_id = subrange 48 68 data,
                 h_reserved = subrange 20 28 data\<rparr>)"

definition supports_extensions :: "handshake \<Rightarrow> bool" where
  "supports_extensions h \<longleftrightarrow> h_reserved h ! 5 AND 0x10 \<noteq> 0"

subsection \<open>Framed messages\<close>

definition MSG_CHOKE :: u8 where "MSG_CHOKE = 0"
definition MSG_UNCHOKE :: u8 where "MSG_UNCHOKE = 1"
definition MSG_INTERESTED :: u8 where "MSG_INTERESTED = 2"
definition MSG_NOT_INTERESTED :: u8 where "MSG_NOT_INTERESTED = 3"
definition MSG_HAVE :: u8 where "MSG_HAVE = 4"
definition MSG_BITFIELD :: u8 where "MSG_BITFIELD = 5"
definition MSG_REQUEST :: u8 where "MSG_REQUEST = 6"
definition MSG_PIECE :: u8 where "MSG_PIECE = 7"
definition MSG_CANCEL :: u8 where "MSG_CANCEL = 8"
definition MSG_PORT :: u8 where "MSG_PORT = 9"
definition MSG_EXTENDED :: u8 where "MSG_EXTENDED = 20"

lemmas msg_id_defs = MSG_CHOKE_def MSG_UNCHOKE_def MSG_INTERESTED_def MSG_NOT_INTERESTED_def
  MSG_HAVE_def MSG_BITFIELD_def MSG_REQUEST_def MSG_PIECE_def MSG_CANCEL_def MSG_PORT_def
  MSG_EXTENDED_def

datatype wire_message =
  KeepAlive
| Choke
| Unchoke
| Interested
| NotInterested
| Have u32
| Bitfield bytes
| Request u32 u32 u32
| Piece u32 u32 bytes
| Cancel u32 u32 u32
| Port u16
| Extended u8 bytes

fun message_payload :: "wire_message \<Rightarrow> bytes" where
  "message_payload KeepAlive = []"
| "message_payload Choke = [MSG_CHOKE]"
| "message_payload Unchoke = [MSG_UNCHOKE]"
| "message_payload Interested = [MSG_INTERESTED]"
| "message_payload NotInterested = [MSG_NOT_INTERESTED]"
| "message_payload (Have piece) = MSG_HAVE # u32_be piece"
| "message_payload (Bitfield data) = MSG_BITFIELD # data"
| "message_payload (Request index begin len) =
     MSG_REQUEST # u32_be index @ u32_be begin @ u32_be len"
| "message_payload (Piece index begin block) =
     MSG_PIECE # u32_be index @ u32_be begin @ block"
| "message_payload (Cancel index begin len) =
     MSG_CANCEL # u32_be index @ u32_be begin @ u32_be len"
| "message_payload (Port port) = MSG_PORT # u16_be port"
| "message_payload (Extended i payload) = MSG_EXTENDED # i # payload"

definition message_to_bytes :: "wire_message \<Rightarrow> bytes" where
  "message_to_bytes m =
     (if m = KeepAlive then [0, 0, 0, 0]
      else (let payload = message_payload m in u32_be (of_nat (length payload)) @ payload))"

definition u32_at :: "nat \<Rightarrow> bytes \<Rightarrow> u32" where
  "u32_at i body = u32_of_be [body ! i, body ! (i + 1), body ! (i + 2), body ! (i + 3)]"

fun from_payload :: "bytes \<Rightarrow> wire_message option" where
  "from_payload [] = Some KeepAlive"
| "from_payload (msg_id # body) =
     (if msg_id = MSG_CHOKE then Some Choke
      else if msg_id = MSG_UNCHOKE then Some Unchoke
      else if msg_id = MSG_INTERESTED then Some Interested
      else if msg_id = MSG_NOT_INTERESTED then Some NotInterested
      else if msg_id = MSG_HAVE \<and> 4 \<le> length body then Some (Have (u32_at 0 body))
      else if msg_id = MSG_BITFIELD then Some (Bitfield body)
      else if msg_id = MSG_REQUEST \<and> 12 \<le> length body then
        Some (Request (u32_at 0 body) (u32_at 4 body) (u32_at 8 body))
      else if msg_id = MSG_PIECE \<and> 8 \<le> length body then
        Some (Piece (u32_at 0 body) (u32_at 4 body) (drop 8 body))
      else if msg_id = MSG_CANCEL \<and> 12 \<le> length body then
        Some (Cancel (u32_at 0 body) (u32_at 4 body) (u32_at 8 body))
      else if msg_id = MSG_PORT \<and> 2 \<le> length body then
        Some (Port (u16_of_be [body ! 0, body ! 1]))
      else if msg_id = MSG_EXTENDED \<and> body \<noteq> [] then Some (Extended (body ! 0) (drop 1 body))
      else None)"

definition message_from_bytes :: "bytes \<Rightarrow> wire_message option" where
  "message_from_bytes data =
     (if length data < 4 then None
      else (let len = unat (u32_of_be (take 4 data)) in
            if len = 0 then Some KeepAlive
            else if length data < 4 + len then None
            else from_payload (subrange 4 (4 + len) data)))"

definition from_bytes_frame :: "u32 \<Rightarrow> bytes \<Rightarrow> wire_message option" where
  "from_bytes_frame len body =
     (if len = 0 then Some KeepAlive
      else if length body < unat len then None
      else from_payload (take (unat len) body))"

subsection \<open>Round trips of handshake and messages\<close>

definition handshake_valid :: "handshake \<Rightarrow> bool" where
  "handshake_valid h \<longleftrightarrow> valid_id (h_info_hash h) \<and> length (h_peer_id h) = 20 \<and> length (h_reserved h) = 8"

definition message_fits :: "wire_message \<Rightarrow> bool" where
  "message_fits m \<longleftrightarrow> length (message_payload m) < 2 ^ 32"

lemma length_BT_PROTOCOL [simp]: "length BT_PROTOCOL = 19"
  by (simp add: BT_PROTOCOL_def)

lemma subrange_append_left [simp]:
  "length xs \<le> i \<Longrightarrow> subrange i j (xs @ ys) = subrange (i - length xs) (j - length xs) ys"
  by (simp add: subrange_def)

lemma subrange_append_right [simp]: "length xs = j \<Longrightarrow> subrange 0 j (xs @ ys) = xs"
  by (simp add: subrange_def)

lemma subrange_all [simp]: "length xs = j \<Longrightarrow> subrange 0 j xs = xs"
  by (simp add: subrange_def)

lemma subrange_Cons [simp]: "0 < i \<Longrightarrow> subrange i j (x # xs) = subrange (i - 1) (j - 1) xs"
  by (cases i; cases j) (simp_all add: subrange_def)

lemma length_subrange [simp]: "length (subrange i j xs) = min (j - i) (length xs - i)"
  by (simp add: subrange_def min.commute)

lemma handshake_valid_slices: "handshake_from_bytes data = Some h \<Longrightarrow> handshake_valid h"
  by (auto simp: handshake_from_bytes_def handshake_valid_def HANDSHAKE_LEN_def valid_id_def
      NODE_ID_LEN_def split: if_splits)

interpretation hs: fixed_codec handshake_to_bytes handshake_from_bytes handshake_valid 68
  by unfold_locales
    (auto simp: handshake_to_bytes_def handshake_from_bytes_def handshake_valid_def HANDSHAKE_LEN_def)

lemma subrange_subrange: "i \<le> j \<Longrightarrow> j \<le> k \<Longrightarrow> subrange i j xs @ subrange j k xs = subrange i k xs"
proof -
  assume ij: "i \<le> j" "j \<le> k"
  then obtain n m where j: "j = i + n" and k: "k = i + (n + m)" by (metis le_Suc_ex add.assoc)
  have "subrange i j xs @ subrange j k xs = take n (drop i xs) @ take m (drop n (drop i xs))"
    by (simp add: subrange_def j k add.commute)
  also have "\<dots> = take (n + m) (drop i xs)" by (simp only: take_add)
  finally show ?thesis by (simp add: subrange_def k)
qed

lemma handshake_bytes:
  assumes "handshake_from_bytes data = Some h"
  shows "handshake_to_bytes h = take 68 data"
proof -
  have len: "68 \<le> length data" and d0: "unat (data ! 0) = 19" and p: "subrange 1 20 data = BT_PROTOCOL"
    and h: "h = \<lparr>h_info_hash = subrange 28 48 data, h_peer_id = subrange 48 68 data,
                 h_reserved = subrange 20 28 data\<rparr>"
    using assms by (auto simp: handshake_from_bytes_def HANDSHAKE_LEN_def split: if_splits)
  have "of_nat (unat (data ! 0)) = (19 :: u8)" by (simp only: d0) simp
  then have "[of_nat (length BT_PROTOCOL)] = [data ! 0]" by simp
  moreover have "subrange 0 1 data = [data ! 0]"
    using len by (cases data) (simp_all add: subrange_def)
  ultimately have "handshake_to_bytes h =
      subrange 0 1 data @ subrange 1 20 data @ subrange 20 28 data @ subrange 28 48 data @ subrange 48 68 data"
    by (simp only: handshake_to_bytes_def h p handshake.select_convs)
  also have "\<dots> = subrange 0 68 data" by (simp add: subrange_subrange)
  finally show ?thesis by (simp add: subrange_def)
qed

lemma u32_be_list:
  obtains a b c d where "u32_be w = [a, b, c, d]"
proof -
  have "length (u32_be w) = Suc (Suc (Suc (Suc 0)))" by simp
  then show ?thesis unfolding length_Suc_conv length_0_conv using that by blast
qed

lemma u16_be_list:
  obtains a b where "u16_be w = [a, b]"
proof -
  have "length (u16_be w) = Suc (Suc 0)" by simp
  then show ?thesis unfolding length_Suc_conv length_0_conv using that by blast
qed

lemma u32_at_be:
  "u32_at 0 (u32_be w @ xs) = w"
  "u32_at 4 (u32_be v @ u32_be w @ xs) = w"
  "u32_at 8 (u32_be u @ u32_be v @ u32_be w @ xs) = w"
proof -
  obtain a b c d where w: "u32_be w = [a, b, c, d]" by (rule u32_be_list)
  have e: "u32_of_be [a, b, c, d] = w" by (simp flip: w)
  obtain a' b' c' d' where v: "u32_be v = [a', b', c', d']" by (rule u32_be_list)
  obtain a'' b'' c'' d'' where u: "u32_be u = [a'', b'', c'', d'']" by (rule u32_be_list)
  show "u32_at 0 (u32_be w @ xs) = w" "u32_at 4 (u32_be v @ u32_be w @ xs) = w"
    "u32_at 8 (u32_be u @ u32_be v @ u32_be w @ xs) = w"
    by (simp_all add: u32_at_def w v u e)
qed

lemma u32_at_be_Nil:
  "u32_at 0 (u32_be w) = w"
  "u32_at 8 (u32_be u @ u32_be v @ u32_be w) = w"
  using u32_at_be(1) [of w "[]"] u32_at_be(3) [of u v w "[]"] by simp_all

lemma from_payload_payload: "from_payload (message_payload m) = Some m"
proof (cases m)
  case (Port port)
  obtain a b where "u16_be port = [a, b]" by (rule u16_be_list)
  moreover from this have "u16_of_be [a, b] = port" by (metis u16_of_be_u16_be)
  ultimately show ?thesis using Port by (simp add: msg_id_defs)
qed (simp_all add: msg_id_defs u32_at_be u32_at_be_Nil)

lemma payload_Nil: "message_payload m = [] \<longleftrightarrow> m = KeepAlive"
  by (cases m) auto

lemma message_from_to_bytes:
  assumes "message_fits m"
  shows "message_from_bytes (message_to_bytes m @ rest) = Some m"
proof (cases "m = KeepAlive")
  case True
  then show ?thesis by (simp add: message_to_bytes_def message_from_bytes_def u32_of_be_def be_value_def)
next
  case False
  have u: "unat (of_nat (length (message_payload m)) :: u32) = length (message_payload m)"
    using assms by (simp add: message_fits_def unat_of_nat)
  show ?thesis using False u
    by (simp add: message_to_bytes_def message_from_bytes_def Let_def subrange_def
        from_payload_payload payload_Nil)
qed

lemma frame_from_to_bytes:
  assumes "message_fits m" "m \<noteq> KeepAlive"
  shows "from_bytes_frame (u32_of_be (take 4 (message_to_bytes m))) (drop 4 (message_to_bytes m)) = Some m"
proof -
  have u: "unat (of_nat (length (message_payload m)) :: u32) = length (message_payload m)"
    using assms by (simp add: message_fits_def unat_of_nat)
  have "(of_nat (length (message_payload m)) :: u32) \<noteq> 0"
    using u assms(2) payload_Nil by (metis length_0_conv unat_0)
  then show ?thesis using assms(2) u
    by (simp add: message_to_bytes_def from_bytes_frame_def Let_def from_payload_payload)
qed

interpretation wm: codec message_to_bytes message_from_bytes message_fits
proof
  fix m assume "message_fits m"
  then show "message_from_bytes (message_to_bytes m) = Some m"
    using message_from_to_bytes [of m "[]"] by simp
qed

subsection \<open>The extension handshake\<close>

record extended_handshake =
  eh_m :: "(rstring, u32) fmap"
  eh_metadata_size :: "u32 option"
  eh_v :: "rstring option"
  eh_your_ip :: "rstring option"
  eh_reqq :: "u32 option"

definition insert_some :: "bytes \<Rightarrow> bvalue option \<Rightarrow> bdict \<Rightarrow> bdict" where
  "insert_some k v dict = (case v of None \<Rightarrow> dict | Some x \<Rightarrow> fmupd k x dict)"

definition extended_to_dict :: "extended_handshake \<Rightarrow> bdict" where
  "extended_to_dict h =
     (let m_dict = fmmap (\<lambda>v. BInt (ucast v)) (eh_m h);
          dict = fmupd (str ''m'') (BDict m_dict) fmempty;
          dict = insert_some (str ''metadata_size'') (map_option (\<lambda>n. BInt (ucast n)) (eh_metadata_size h)) dict;
          dict = insert_some (str ''v'') (map_option BBytes (eh_v h)) dict;
          dict = insert_some (str ''yourip'') (map_option BBytes (eh_your_ip h)) dict
      in insert_some (str ''reqq'') (map_option (\<lambda>n. BInt (ucast n)) (eh_reqq h)) dict)"

text \<open>
  One round of the loop over the dictionary \<open>m\<close>: \<open>None\<close> where the function returns
  \<open>None\<close>, \<open>Some None\<close> where the entry is skipped.  The loop meets the keys in the order of
  a \<open>HashMap\<close>; its result does not depend on it.
\<close>

definition ext_entry :: "bytes \<Rightarrow> bvalue \<Rightarrow> u32 option option" where
  "ext_entry k v =
     (case v of
        BInt i \<Rightarrow>
          if utf8_valid k then
            (if 0 \<le> sint i \<and> sint i \<le> 255 then Some (Some (ucast i))
             else if k = str ''ut_metadata'' then None
             else Some None)
          else Some None
      | _ \<Rightarrow> if k = str ''ut_metadata'' then None else Some None)"

definition ext_ids :: "bdict \<Rightarrow> (rstring, u32) fmap option" where
  "ext_ids m_dict =
     (if fmpred (\<lambda>k v. ext_entry k v \<noteq> None) m_dict
      then Some (fmmap_keys (\<lambda>k v. case ext_entry k v of Some (Some x) \<Rightarrow> x | _ \<Rightarrow> 0)
        (fmfilter (\<lambda>k. case fmlookup m_dict k of None \<Rightarrow> False
           | Some v \<Rightarrow> (case ext_entry k v of Some (Some x) \<Rightarrow> True | _ \<Rightarrow> False)) m_dict))
      else None)"

definition lossy_field :: "bdict \<Rightarrow> bytes \<Rightarrow> rstring option" where
  "lossy_field dict k =
     (case fmlookup dict k of Some (BBytes b) \<Rightarrow> Some (from_utf8_lossy b) | _ \<Rightarrow> None)"

definition extended_m :: "bdict \<Rightarrow> (rstring, u32) fmap option" where
  "extended_m dict =
     (case fmlookup dict (str ''m'') of
        None \<Rightarrow> Some fmempty
      | Some (BDict m_dict) \<Rightarrow> ext_ids m_dict
      | Some _ \<Rightarrow> None)"

definition extended_size :: "bdict \<Rightarrow> u32 option option" where
  "extended_size dict =
     (case fmlookup dict (str ''metadata_size'') of
        None \<Rightarrow> Some None
      | Some (BInt i) \<Rightarrow>
          if sint i \<le> 0 \<or> sint i > 64 * 1024 * 1024 then None else Some (Some (ucast i))
      | Some _ \<Rightarrow> None)"

definition extended_reqq :: "bdict \<Rightarrow> u32 option" where
  "extended_reqq dict =
     (case fmlookup dict (str ''reqq'') of
        Some (BInt i) \<Rightarrow> if 1 \<le> sint i \<and> sint i \<le> 64 then Some (ucast i) else None
      | _ \<Rightarrow> None)"

definition extended_from_bytes :: "bdec \<Rightarrow> bytes \<Rightarrow> extended_handshake option" where
  "extended_from_bytes dec data =
     (case dec data of
        Inr (BDict dict) \<Rightarrow> do {
          m \<leftarrow> extended_m dict;
          metadata_size \<leftarrow> extended_size dict;
          Some \<lparr>eh_m = m, eh_metadata_size = metadata_size,
                eh_v = lossy_field dict (str ''v''),
                eh_your_ip = lossy_field dict (str ''yourip''),
                eh_reqq = extended_reqq dict\<rparr>
        }
      | _ \<Rightarrow> None)"

subsection \<open>Where a bencoded value ends\<close>

definition MAX_BENCODE_DEPTH :: nat where "MAX_BENCODE_DEPTH = 32"
definition MAX_BENCODE_ITEMS :: nat where "MAX_BENCODE_ITEMS = 1024"
definition MAX_BENCODE_STRING :: nat where "MAX_BENCODE_STRING = 1024 * 1024"
definition USIZE_MAX :: nat where "USIZE_MAX = 2 ^ 64 - 1"

definition get_at :: "bytes \<Rightarrow> nat \<Rightarrow> u8 option" where
  "get_at data i = (if i < length data then Some (data ! i) else None)"

definition is_ascii_digit :: "u8 \<Rightarrow> bool" where
  "is_ascii_digit b \<longleftrightarrow> 48 \<le> b \<and> b \<le> 57"

definition skip_digits :: "bytes \<Rightarrow> nat \<Rightarrow> nat" where
  "skip_digits data pos = pos + length (takeWhile is_ascii_digit (drop pos data))"

text \<open>\<open>parse::<usize>\<close> of a string of digits; \<open>None\<close> on overflow.\<close>

definition digits_value :: "bytes \<Rightarrow> nat" where
  "digits_value ds = foldl (\<lambda>a d. 10 * a + (unat d - 48)) 0 ds"

definition parse_usize :: "bytes \<Rightarrow> nat option" where
  "parse_usize ds = (if digits_value ds \<le> USIZE_MAX then Some (digits_value ds) else None)"

definition parse_string :: "bytes \<Rightarrow> nat \<Rightarrow> rstring + nat" where
  "parse_string data start =
     (let pos = skip_digits data start in
      if start = pos \<or> get_at data pos \<noteq> Some 58 then Inl (str ''invalid bencode string length'')
      else case from_utf8 (subrange start pos data) of
        None \<Rightarrow> Inl (str ''invalid bencode string length'')
      | Some length_text \<Rightarrow>
          if 1 < length length_text \<and> length_text ! 0 = 48
          then Inl (str ''non-canonical bencode string length'')
          else case parse_usize length_text of
            None \<Rightarrow> Inl (str ''bencode string length overflow'')
          | Some len \<Rightarrow>
              if MAX_BENCODE_STRING < len then Inl (str ''bencode string exceeds limit'')
              else if USIZE_MAX < pos + 1 + len then Inl (str ''bencode string end overflow'')
              else if length data < pos + 1 + len then Inl (str ''truncated bencode string'')
              else Inr (pos + 1 + len))"

definition parse_integer :: "bytes \<Rightarrow> nat \<Rightarrow> rstring + nat" where
  "parse_integer data start =
     (let digits_start = (if get_at data start = Some 45 then start + 1 else start);
          pos = skip_digits data digits_start
      in if digits_start = pos \<or> get_at data pos \<noteq> Some 101 then Inl (str ''invalid bencode integer'')
         else if data ! start = 48 \<and> 1 < pos - start then Inl (str ''non-canonical bencode integer'')
         else Inr (pos + 1))"

text \<open>
  The recursive scanner.  \<open>None\<close> stands for running out of the first argument, the fuel,
  which bounds the nesting of calls and loop rounds; \<open>find_bencode_end\<close> gives enough for any
  input.  A result is the new position and item count, or the error.
\<close>

type_synonym scan = "(rstring + nat \<times> nat) option"

definition scan_bind :: "scan \<Rightarrow> (nat \<Rightarrow> nat \<Rightarrow> scan) \<Rightarrow> scan" where
  "scan_bind r f =
     (case r of None \<Rightarrow> None | Some (Inl e) \<Rightarrow> Some (Inl e) | Some (Inr (pos, items)) \<Rightarrow> f pos items)"

definition scan_pos :: "rstring + nat \<Rightarrow> nat \<Rightarrow> scan" where
  "scan_pos r items = (case r of Inl e \<Rightarrow> Some (Inl e) | Inr pos \<Rightarrow> Some (Inr (pos, items)))"

function (sequential) parse_one :: "nat \<Rightarrow> bytes \<Rightarrow> nat \<Rightarrow> nat \<Rightarrow> nat \<Rightarrow> scan"
  and parse_dict_items :: "nat \<Rightarrow> bytes \<Rightarrow> nat \<Rightarrow> nat \<Rightarrow> nat \<Rightarrow> scan"
  and parse_list_items :: "nat \<Rightarrow> bytes \<Rightarrow> nat \<Rightarrow> nat \<Rightarrow> nat \<Rightarrow> scan" where
  "parse_one 0 data pos depth items = None"
| "parse_one (Suc n) data pos depth items =
     (if MAX_BENCODE_DEPTH < depth then Some (Inl (str ''bencode nesting exceeds limit''))
      else if length data \<le> pos then Some (Inl (str ''truncated bencode value''))
      else if USIZE_MAX < items + 1 then Some (Inl (str ''bencode item count overflow''))
      else if MAX_BENCODE_ITEMS < items + 1 then Some (Inl (str ''bencode item count exceeds limit''))
      else if data ! pos = 100 then parse_dict_items n data (pos + 1) depth (items + 1)
      else if data ! pos = 108 then parse_list_items n data (pos + 1) depth (items + 1)
      else if data ! pos = 105 then scan_pos (parse_integer data (pos + 1)) (items + 1)
      else if is_ascii_digit (data ! pos) then scan_pos (parse_string data pos) (items + 1)
      else Some (Inl (str ''invalid bencode type marker'')))"
| "parse_dict_items 0 data pos depth items = None"
| "parse_dict_items (Suc n) data pos depth items =
     (if length data \<le> pos then Some (Inl (str ''unterminated bencode dictionary''))
      else if data ! pos = 101 then Some (Inr (pos + 1, items))
      else scan_bind (scan_pos (parse_string data pos) items) (\<lambda>pos' _.
        if pos' = pos then Some (Inl (str ''invalid bencode dictionary key''))
        else scan_bind (parse_one n data pos' (depth + 1) items)
          (\<lambda>pos items. parse_dict_items n data pos depth items)))"
| "parse_list_items 0 data pos depth items = None"
| "parse_list_items (Suc n) data pos depth items =
     (if length data \<le> pos then Some (Inl (str ''unterminated bencode list''))
      else if data ! pos = 101 then Some (Inr (pos + 1, items))
      else scan_bind (parse_one n data pos (depth + 1) items)
        (\<lambda>pos items. parse_list_items n data pos depth items))"
  by pat_completeness auto
termination
  by (relation "measure (case_sum fst (case_sum fst fst))") simp_all

declare parse_one.simps [simp del] parse_dict_items.simps [simp del] parse_list_items.simps [simp del]

definition scan_fuel :: "bytes \<Rightarrow> nat" where
  "scan_fuel data = 2 * length data + 2"

definition find_bencode_end :: "bytes \<Rightarrow> (rstring + nat) option" where
  "find_bencode_end data =
     map_option (map_sum (\<lambda>e. e) fst) (parse_one (scan_fuel data) data 0 0 0)"

subsection \<open>Metadata messages\<close>

definition UT_METADATA_REQUEST :: u8 where "UT_METADATA_REQUEST = 0"
definition UT_METADATA_DATA :: u8 where "UT_METADATA_DATA = 1"
definition UT_METADATA_REJECT :: u8 where "UT_METADATA_REJECT = 2"

definition metadata_request_dict :: "u32 \<Rightarrow> bdict" where
  "metadata_request_dict piece =
     fmupd (str ''piece'') (BInt (ucast piece))
       (fmupd (str ''msg_type'') (BInt (ucast UT_METADATA_REQUEST)) fmempty)"

definition build_metadata_request :: "benc \<Rightarrow> u32 \<Rightarrow> bytes option" where
  "build_metadata_request enc piece = enc (BDict (metadata_request_dict piece))"

type_synonym metadata_response = "unit + u32 \<times> u32 \<times> bytes"

definition u32_field :: "bdict \<Rightarrow> bytes \<Rightarrow> u32 option" where
  "u32_field dict k =
     (case fmlookup dict k of
        Some (BInt i) \<Rightarrow> if 0 \<le> sint i \<and> sint i < 2 ^ 32 then Some (ucast i) else None
      | _ \<Rightarrow> None)"

definition u8_field :: "bdict \<Rightarrow> bytes \<Rightarrow> u8 option" where
  "u8_field dict k =
     (case fmlookup dict k of
        Some (BInt i) \<Rightarrow> if 0 \<le> sint i \<and> sint i \<le> 255 then Some (ucast i) else None
      | _ \<Rightarrow> None)"

definition parse_response_dict :: "bdict \<Rightarrow> bytes \<Rightarrow> metadata_response option" where
  "parse_response_dict dict meta_data = do {
     msg_type \<leftarrow> u8_field dict (str ''msg_type'');
     if msg_type = UT_METADATA_REJECT then Some (Inl ())
     else if msg_type \<noteq> UT_METADATA_DATA then None
     else do {
       piece \<leftarrow> u32_field dict (str ''piece'');
       total_size \<leftarrow> u32_field dict (str ''total_size'');
       Some (Inr (piece, total_size, meta_data))
     }
   }"

definition parse_metadata_response :: "bdec \<Rightarrow> bytes \<Rightarrow> metadata_response option" where
  "parse_metadata_response dec data =
     (case find_bencode_end data of
        Some (Inr dict_end) \<Rightarrow>
          (case dec (take dict_end data) of
             Inr (BDict dict) \<Rightarrow> parse_response_dict dict (drop dict_end data)
           | _ \<Rightarrow> None)
      | _ \<Rightarrow> None)"


subsection \<open>The scanner advances, stays in the buffer and always answers\<close>

lemma skip_digits_ge: "start \<le> skip_digits data start"
  by (simp add: skip_digits_def)

lemma get_at_SomeD: "get_at data i = Some b \<Longrightarrow> i < length data \<and> data ! i = b"
  by (simp add: get_at_def split: if_splits)

lemma parse_string_bounds:
  assumes "parse_string data start = Inr pos"
  shows "start < pos \<and> pos \<le> length data"
  using assms skip_digits_ge [of start data]
  by (auto simp: parse_string_def Let_def split: if_splits option.splits)

lemma parse_integer_bounds:
  assumes "parse_integer data start = Inr pos"
  shows "start < pos \<and> pos \<le> length data"
  using assms skip_digits_ge [of start data] skip_digits_ge [of "start + 1" data]
  by (auto simp: parse_integer_def Let_def split: if_splits dest!: get_at_SomeD)

lemma scan_bind_InrD:
  assumes "scan_bind r f = Some (Inr x)"
  obtains pos items where "r = Some (Inr (pos, items))" "f pos items = Some (Inr x)"
  using assms that by (auto simp: scan_bind_def split: option.splits sum.splits prod.splits)

lemma scan_pos_Inr [simp]:
  "scan_pos r items = Some (Inr (pos', items')) \<longleftrightarrow> r = Inr pos' \<and> items' = items"
  by (auto simp: scan_pos_def split: sum.splits)

lemma scan_pos_not_None [simp]: "scan_pos r items \<noteq> None"
  by (simp add: scan_pos_def split: sum.splits)

lemma scan_bounds:
  "parse_one n data pos depth items = Some (Inr (pos', items')) \<Longrightarrow>
     pos < pos' \<and> pos' \<le> length data \<and> items < items' \<and> items' \<le> MAX_BENCODE_ITEMS"
  "parse_dict_items n data pos depth items = Some (Inr (pos', items')) \<Longrightarrow>
     items \<le> MAX_BENCODE_ITEMS \<Longrightarrow>
     pos < pos' \<and> pos' \<le> length data \<and> items \<le> items' \<and> items' \<le> MAX_BENCODE_ITEMS"
  "parse_list_items n data pos depth items = Some (Inr (pos', items')) \<Longrightarrow>
     items \<le> MAX_BENCODE_ITEMS \<Longrightarrow>
     pos < pos' \<and> pos' \<le> length data \<and> items \<le> items' \<and> items' \<le> MAX_BENCODE_ITEMS"
proof (induction n data pos depth items and n data pos depth items and n data pos depth items
    arbitrary: pos' items' and pos' items' and pos' items'
    rule: parse_one_parse_dict_items_parse_list_items.induct)
  case (2 n data pos depth items)
  then show ?case
    by (fastforce simp: parse_one.simps split: if_splits dest: parse_string_bounds parse_integer_bounds)
next
  case (4 n data pos depth items)
  show ?case
  proof (cases "data ! pos = 101")
    case True
    then show ?thesis using "4.prems" by (simp add: parse_dict_items.simps split: if_splits)
  next
    case False
    then obtain p1 p2 it2 where p1: "parse_string data pos = Inr p1" "p1 \<noteq> pos"
      and p2: "parse_one n data p1 (depth + 1) items = Some (Inr (p2, it2))"
      and p3: "parse_dict_items n data p2 depth it2 = Some (Inr (pos', items'))"
      and len: "pos < length data"
      using "4.prems"(1) by (auto simp: parse_dict_items.simps split: if_splits elim!: scan_bind_InrD)
    have s: "scan_pos (parse_string data pos) items = Some (Inr (p1, items))" using p1 by simp
    have "p1 < p2 \<and> p2 \<le> length data \<and> items < it2 \<and> it2 \<le> MAX_BENCODE_ITEMS"
      using "4.IH"(1) [OF _ False p1(2) p2] len by simp
    moreover from this
    have "p2 < pos' \<and> pos' \<le> length data \<and> it2 \<le> items' \<and> items' \<le> MAX_BENCODE_ITEMS"
      using "4.IH"(2) [OF _ False p1(2) p3] len by simp
    ultimately show ?thesis using parse_string_bounds [OF p1(1)] by linarith
  qed
next
  case (6 n data pos depth items)
  show ?case
  proof (cases "data ! pos = 101")
    case True
    then show ?thesis using "6.prems" by (simp add: parse_list_items.simps split: if_splits)
  next
    case False
    then obtain p2 it2 where
        p2: "parse_one n data pos (depth + 1) items = Some (Inr (p2, it2))"
      and p3: "parse_list_items n data p2 depth it2 = Some (Inr (pos', items'))"
      and len: "pos < length data"
      using "6.prems"(1) by (auto simp: parse_list_items.simps split: if_splits elim!: scan_bind_InrD)
    have "pos < p2 \<and> p2 \<le> length data \<and> items < it2 \<and> it2 \<le> MAX_BENCODE_ITEMS"
      using "6.IH"(1) [OF _ False p2] len by simp
    moreover from this
    have "p2 < pos' \<and> pos' \<le> length data \<and> it2 \<le> items' \<and> items' \<le> MAX_BENCODE_ITEMS"
      using "6.IH"(2) [OF _ False p3] len by simp
    ultimately show ?thesis by linarith
  qed
qed (simp_all add: parse_one.simps parse_dict_items.simps parse_list_items.simps)

lemma scan_bind_not_None:
  assumes "r \<noteq> None" "\<And>pos items. r = Some (Inr (pos, items)) \<Longrightarrow> f pos items \<noteq> None"
  shows "scan_bind r f \<noteq> None"
  using assms by (auto simp: scan_bind_def split: option.splits sum.splits prod.splits)

lemma scan_total:
  "2 * (length data - pos) + 2 \<le> n \<Longrightarrow> parse_one n data pos depth items \<noteq> None"
  "2 * (length data - pos) + 1 \<le> n \<Longrightarrow> parse_dict_items n data pos depth items \<noteq> None"
  "2 * (length data - pos) + 3 \<le> n \<Longrightarrow> parse_list_items n data pos depth items \<noteq> None"
proof (induction n data pos depth items and n data pos depth items and n data pos depth items
    rule: parse_one_parse_dict_items_parse_list_items.induct)
  case (2 n data pos depth items)
  show ?case
  proof (cases "pos < length data")
    case True
    then have "2 * (length data - (pos + 1)) + 1 \<le> n" "2 * (length data - (pos + 1)) + 3 \<le> n"
      using "2.prems" by arith+
    then show ?thesis using "2.IH" True by (simp add: parse_one.simps del: not_None_eq)
  qed (simp add: parse_one.simps)
next
  case (4 n data pos depth items)
  show ?case
  proof (cases "pos < length data \<and> data ! pos \<noteq> 101")
    case True
    have "scan_bind (scan_pos (parse_string data pos) items) (\<lambda>pos' _.
        if pos' = pos then Some (Inl (str ''invalid bencode dictionary key''))
        else scan_bind (parse_one n data pos' (depth + 1) items)
          (\<lambda>pos items. parse_dict_items n data pos depth items)) \<noteq> None"
    proof (rule scan_bind_not_None, simp)
      fix p it
      assume "scan_pos (parse_string data pos) items = Some (Inr (p, it))"
      then have p: "pos < p" "p \<le> length data" using parse_string_bounds [of data pos p] by simp_all
      have "2 * (length data - p) + 2 \<le> n" using p True "4.prems" by arith
      then have one: "parse_one n data p (depth + 1) items \<noteq> None"
        using "4.IH"(1) True p by simp
      have rest: "parse_dict_items n data p2 depth it2 \<noteq> None"
        if "parse_one n data p (depth + 1) items = Some (Inr (p2, it2))" for p2 it2
      proof -
        have "p < p2" "p2 \<le> length data" using scan_bounds(1) [OF that] by simp_all
        then have "2 * (length data - p2) + 1 \<le> n" using p True "4.prems" by arith
        then show ?thesis using "4.IH"(2) [of p p2 it2] True p by simp
      qed
      show "(if p = pos then Some (Inl (str ''invalid bencode dictionary key''))
        else scan_bind (parse_one n data p (depth + 1) items)
          (\<lambda>pos items. parse_dict_items n data pos depth items)) \<noteq> None"
        using p scan_bind_not_None [OF one rest] by simp
    qed
    then show ?thesis using True by (simp add: parse_dict_items.simps)
  qed (auto simp: parse_dict_items.simps)
next
  case (6 n data pos depth items)
  show ?case
  proof (cases "pos < length data \<and> data ! pos \<noteq> 101")
    case True
    have "parse_one n data pos (depth + 1) items \<noteq> None"
      using "6.IH"(1) True "6.prems" by simp
    then have "scan_bind (parse_one n data pos (depth + 1) items)
        (\<lambda>pos items. parse_list_items n data pos depth items) \<noteq> None"
    proof (rule scan_bind_not_None)
      fix p it
      assume p: "parse_one n data pos (depth + 1) items = Some (Inr (p, it))"
      have "pos < p" "p \<le> length data" using scan_bounds(1) [OF p] by simp_all
      then have "2 * (length data - p) + 3 \<le> n" using True "6.prems" by arith
      then show "parse_list_items n data p depth it \<noteq> None" using "6.IH"(2) True by simp
    qed
    then show ?thesis using True by (simp add: parse_list_items.simps)
  qed (auto simp: parse_list_items.simps)
qed simp_all

lemma find_bencode_end_total: "\<exists>r. find_bencode_end data = Some r"
  using scan_total(1) [of data 0 "scan_fuel data" 0 0] by (auto simp: find_bencode_end_def scan_fuel_def)

lemma find_bencode_end_bounds:
  "find_bencode_end data = Some (Inr n) \<Longrightarrow> 0 < n \<and> n \<le> length data"
proof -
  assume "find_bencode_end data = Some (Inr n)"
  then obtain r where r: "parse_one (scan_fuel data) data 0 0 0 = Some r"
    "map_sum (\<lambda>e. e) fst r = (Inr n :: rstring + nat)"
    by (auto simp: find_bencode_end_def)
  then obtain items where "r = Inr (n, items)" by (cases r) auto
  with r(1) show ?thesis using scan_bounds(1) [of "scan_fuel data" data 0 0 0 n items] by simp
qed

end
