(* ===== verification/Bep3.thy ===== *)
theory Bep3
  imports Wire
begin

text \<open>
  The bencoding of BEP 3 as a reference: the encoder a peer uses.  The scanner of
  \<^verbatim>\<open>src/src/wire.rs\<close> is proved to find the end of every encoding within its limits, whatever
  follows it, so that a metadata message is cut exactly where its dictionary ends.
\<close>

subsection \<open>The reference encoder\<close>

definition int_text :: "int \<Rightarrow> bytes" where
  "int_text i = (if i < 0 then 45 # nat_text (nat (- i)) else nat_text (nat i))"

definition string_text :: "bytes \<Rightarrow> bytes" where
  "string_text b = nat_text (length b) @ 58 # b"

primrec bencode :: "bvalue \<Rightarrow> bytes" where
  "bencode (BBytes b) = string_text b"
| "bencode (BInt i) = 105 # int_text (sint i) @ [101]"
| "bencode (BList l) = 108 # concat (map bencode l) @ [101]"
| "bencode (BDict d) =
     100 # concat (map (\<lambda>p. string_text (fst p) @ snd p) (sorted_list_of_fmap (fmmap bencode d))) @ [101]"

text \<open>The limits of the scanner: items, nesting, string lengths.\<close>

primrec item_count :: "bvalue \<Rightarrow> nat" where
  "item_count (BBytes b) = 1"
| "item_count (BInt i) = 1"
| "item_count (BList l) = Suc (sum_list (map item_count l))"
| "item_count (BDict d) = Suc (sum_list (map snd (sorted_list_of_fmap (fmmap item_count d))))"

primrec within_limits :: "bvalue \<Rightarrow> nat \<Rightarrow> bool" where
  "within_limits (BBytes b) = (\<lambda>depth. depth \<le> MAX_BENCODE_DEPTH \<and> length b \<le> MAX_BENCODE_STRING)"
| "within_limits (BInt i) = (\<lambda>depth. depth \<le> MAX_BENCODE_DEPTH)"
| "within_limits (BList l) = (\<lambda>depth. depth \<le> MAX_BENCODE_DEPTH \<and>
     list_all (\<lambda>f. f (Suc depth)) (map within_limits l))"
| "within_limits (BDict d) = (\<lambda>depth. depth \<le> MAX_BENCODE_DEPTH \<and>
     list_all (\<lambda>p. length (fst p) \<le> MAX_BENCODE_STRING \<and> snd p (Suc depth))
       (sorted_list_of_fmap (fmmap within_limits d)))"

lemma sorted_list_fmmap:
  "sorted_list_of_fmap (fmmap f d) = map (\<lambda>p. (fst p, f (snd p))) (sorted_list_of_fmap d)"
proof -
  have "the (map_option f (fmlookup d k)) = f (the (fmlookup d k))" if "k \<in> set (sorted_list_of_fset (fmdom d))" for k
  proof -
    have "k |\<in>| fmdom d" using that by simp
    then obtain v where "fmlookup d k = Some v" by (auto simp: fmlookup_dom_iff)
    then show ?thesis by simp
  qed
  then show ?thesis by (simp add: sorted_list_of_fmap_def)
qed

lemma sorted_list_ran: "p \<in> set (sorted_list_of_fmap d) \<Longrightarrow> snd p \<in> fmran' d"
proof -
  assume "p \<in> set (sorted_list_of_fmap d)"
  then obtain k where k: "k |\<in>| fmdom d" "p = (k, the (fmlookup d k))"
    by (auto simp: sorted_list_of_fmap_def)
  then obtain v where "fmlookup d k = Some v" by (auto simp: fmlookup_dom_iff)
  with k show ?thesis by (auto intro: fmran'I)
qed

subsection \<open>Numbers\<close>

lemma digit_unat: "n < 10 \<Longrightarrow> unat (of_nat (48 + n) :: u8) = 48 + n"
  by (simp add: unat_of_nat del: of_nat_add)

lemma digit_ascii: "n < 10 \<Longrightarrow> is_ascii_digit (of_nat (48 + n))"
  using digit_unat [of n] by (simp add: is_ascii_digit_def word_le_nat_alt del: of_nat_add)

lemma nat_text_digits: "\<forall>b\<in>set (nat_text n). is_ascii_digit b"
proof (induction n rule: nat_text.induct)
  case (1 n)
  then show ?case
    by (subst nat_text.simps) (auto simp: digit_ascii simp del: of_nat_add)
qed

lemma nat_text_not_Nil [simp]: "nat_text n \<noteq> []"
  by (subst nat_text.simps) simp

lemma digits_value_snoc: "digits_value (ds @ [d]) = 10 * digits_value ds + (unat d - 48)"
  by (simp add: digits_value_def)

lemma digits_value_nat_text: "digits_value (nat_text n) = n"
proof (induction n rule: nat_text.induct)
  case (1 n)
  show ?case
  proof (cases "n < 10")
    case True
    then show ?thesis using digit_unat [of n]
      by (subst nat_text.simps) (simp add: digits_value_def del: of_nat_add)
  next
    case False
    then show ?thesis using 1 digit_unat [of "n mod 10"]
      by (subst nat_text.simps) (simp add: digits_value_snoc del: of_nat_add)
  qed
qed

lemma nat_text_canonical: "1 < length (nat_text n) \<Longrightarrow> nat_text n ! 0 \<noteq> 48"
proof (induction n rule: nat_text.induct)
  case (1 n)
  have big: "\<not> n < 10"
  proof
    assume "n < 10"
    then have "nat_text n = [of_nat (48 + n)]" by (subst nat_text.simps) (simp del: of_nat_add)
    with "1.prems" show False by simp
  qed
  then have e: "nat_text n = nat_text (n div 10) @ [of_nat (48 + n mod 10)]"
    by (subst nat_text.simps) simp
  show ?case
  proof (cases "1 < length (nat_text (n div 10))")
    case True
    then show ?thesis using "1.IH" big e by (simp add: nth_append)
  next
    case False
    have small: "n div 10 < 10"
    proof (rule ccontr)
      assume "\<not> n div 10 < 10"
      then have "nat_text (n div 10) = nat_text (n div 10 div 10) @ [of_nat (48 + n div 10 mod 10)]"
        by (subst nat_text.simps) simp
      moreover have "nat_text (n div 10 div 10) \<noteq> []" by simp
      then have "0 < length (nat_text (n div 10 div 10))" by blast
      ultimately show False using False by simp
    qed
    have "nat_text (n div 10) = [of_nat (48 + n div 10)]"
      using small by (subst nat_text.simps) (simp del: of_nat_add)
    then have h: "nat_text n ! 0 = of_nat (48 + n div 10)" using e by simp
    have "0 < n div 10" using big by (simp add: div_greater_zero_iff)
    then have "unat (of_nat (48 + n div 10) :: u8) \<noteq> unat (48 :: u8)"
      using digit_unat [OF small] by simp
    with h show ?thesis by metis
  qed
qed

lemma utf8_ascii: "\<forall>b\<in>set bs. b < 0x80 \<Longrightarrow> utf8_valid bs"
  by (induction bs) (auto simp: utf8_chunk.simps)

lemma utf8_nat_text: "utf8_valid (nat_text n)"
proof (rule utf8_ascii, rule ballI)
  fix b assume "b \<in> set (nat_text n)"
  then have "b \<le> 57" using nat_text_digits by (auto simp: is_ascii_digit_def)
  then show "b < 0x80" by (simp add: word_le_nat_alt word_less_nat_alt)
qed

lemma takeWhile_digits:
  assumes "\<forall>b\<in>set ds. is_ascii_digit b" "\<not> is_ascii_digit x"
  shows "takeWhile is_ascii_digit (ds @ x # rest) = ds"
  using assms by (induction ds) auto

subsection \<open>The scanner on encodings\<close>

lemma not_digit [simp]: "\<not> is_ascii_digit 58" "\<not> is_ascii_digit 101" "\<not> is_ascii_digit 45"
  "\<not> is_ascii_digit 100" "\<not> is_ascii_digit 108" "\<not> is_ascii_digit 105"
  by code_simp+

lemma at_drop:
  assumes "drop pos data = x # rest"
  shows "pos < length data" "data ! pos = x" "drop (Suc pos) data = rest" "get_at data pos = Some x"
proof -
  show len: "pos < length data" using assms by (metis drop_all leI list.distinct(1))
  show x: "data ! pos = x" using assms len by (metis Cons_nth_drop_Suc list.inject)
  show "drop (Suc pos) data = rest" using assms by (metis drop_Suc list.sel(3) tl_drop)
  show "get_at data pos = Some x" using len x by (simp add: get_at_def)
qed

lemma drop_later: "drop pos data = xs @ ys \<Longrightarrow> drop (pos + length xs) data = ys"
  by (metis append_eq_conv_conj add.commute drop_drop)

lemma skip_nat_text:
  assumes "drop pos data = nat_text n @ x # rest" "\<not> is_ascii_digit x"
  shows "skip_digits data pos = pos + length (nat_text n)"
  by (simp only: skip_digits_def assms(1) takeWhile_digits [OF nat_text_digits assms(2)])

lemma parse_string_text:
  assumes "drop pos data = string_text b @ rest" "length b \<le> MAX_BENCODE_STRING"
    "length data \<le> USIZE_MAX"
  shows "parse_string data pos = Inr (pos + length (string_text b))"
proof -
  let ?t = "nat_text (length b)" and ?p = "pos + length (nat_text (length b))"
  have d: "drop pos data = ?t @ 58 # b @ rest" using assms(1) by (simp add: string_text_def)
  have p: "skip_digits data pos = ?p" by (rule skip_nat_text [OF d]) simp
  have c: "get_at data ?p = Some 58" by (rule at_drop(4) [OF drop_later [OF d]])
  have t: "subrange pos ?p data = ?t" by (simp add: subrange_def d)
  have u: "parse_usize ?t = Some (length b)"
    using assms(2) by (simp add: parse_usize_def digits_value_nat_text MAX_BENCODE_STRING_def USIZE_MAX_def)
  have fu: "from_utf8 ?t = Some ?t" by (simp add: utf8_nat_text)
  have "length (drop pos data) = length ?t + (1 + length b + length rest)" by (simp add: d)
  then have e: "?p + 1 + length b \<le> length data" by simp
  have canon: "\<not> (1 < length ?t \<and> ?t ! 0 = 48)" using nat_text_canonical by blast
  have pos: "?p \<noteq> pos" by simp
  show ?thesis
    unfolding parse_string_def p Let_def c t fu option.case u
    using e assms(2,3) canon pos by (simp add: string_text_def)
qed

lemma parse_integer_text:
  assumes "drop pos data = int_text i @ 101 # rest"
  shows "parse_integer data pos = Inr (pos + length (int_text i) + 1)"
proof (cases "i < 0")
  case True
  let ?t = "nat_text (nat (- i))"
  have d: "drop pos data = 45 # ?t @ 101 # rest" using assms True by (simp add: int_text_def)
  note a = at_drop [OF d]
  have p: "skip_digits data (pos + 1) = pos + 1 + length ?t"
    by (rule skip_nat_text [where x = 101 and rest = rest]) (use a(3) in simp_all)
  have "drop (pos + 1 + length ?t) data = 101 # rest" by (rule drop_later) (use a(3) in simp)
  then have "get_at data (pos + 1 + length ?t) = Some 101" by (rule at_drop(4))
  then show ?thesis using True a(2,4) p by (simp add: parse_integer_def int_text_def)
next
  case False
  let ?t = "nat_text (nat i)"
  have d: "drop pos data = ?t @ 101 # rest" using assms False by (simp add: int_text_def)
  obtain c cs where t: "?t = c # cs" by (cases ?t) auto
  have hd: "get_at data pos = Some c" "data ! pos = c"
    using at_drop [of pos data c "cs @ 101 # rest"] d t by simp_all
  have "is_ascii_digit c" using nat_text_digits [of "nat i"] t by simp
  then have c: "c \<noteq> 45" by auto
  have p: "skip_digits data pos = pos + length ?t"
    by (rule skip_nat_text [OF d]) simp
  have g: "get_at data (pos + length ?t) = Some 101" by (rule at_drop(4) [OF drop_later [OF d]])
  have "\<not> (1 < length ?t \<and> c = 48)" using nat_text_canonical [of "nat i"] t by auto
  then show ?thesis using False hd c p g t by (auto simp: parse_integer_def int_text_def Let_def)
qed

text \<open>Every encoding starts with a byte that is neither absent nor the terminator.\<close>

lemma nat_text_first: obtains c cs where "nat_text n = c # cs" "is_ascii_digit c"
  using nat_text_digits [of n] nat_text_not_Nil [of n] that by (cases "nat_text n") auto

lemma bencode_first: obtains c cs where "bencode v = c # cs" "c \<noteq> 101"
proof (cases v)
  case (BBytes b)
  obtain c cs where "nat_text (length b) = c # cs" "is_ascii_digit c" by (rule nat_text_first)
  moreover from this have "c \<noteq> 101" by auto
  ultimately show ?thesis using that BBytes by (simp add: string_text_def)
qed (use that in auto)

lemma string_text_first: obtains c cs where "string_text b = c # cs" "is_ascii_digit c" "c \<noteq> 101"
proof -
  obtain c cs where c: "nat_text (length b) = c # cs" "is_ascii_digit c" by (rule nat_text_first)
  then have "c \<noteq> 101" by auto
  with c that show ?thesis by (simp add: string_text_def)
qed

definition scans :: "bvalue \<Rightarrow> bytes \<Rightarrow> bool" where
  "scans v data \<longleftrightarrow> (\<forall>n pos depth items rest r.
     drop pos data = bencode v @ rest \<longrightarrow> within_limits v depth \<longrightarrow>
     items + item_count v \<le> MAX_BENCODE_ITEMS \<longrightarrow>
     parse_one n data pos depth items = Some r \<longrightarrow>
     r = Inr (pos + length (bencode v), items + item_count v))"

lemma scansD:
  assumes "scans v data" "drop pos data = bencode v @ rest" "within_limits v depth"
    "items + item_count v \<le> MAX_BENCODE_ITEMS" "parse_one n data pos depth items = Some r"
  shows "r = Inr (pos + length (bencode v), items + item_count v)"
  using assms unfolding scans_def by blast

lemma scan_bind_SomeD:
  assumes "scan_bind r f = Some x"
  obtains e where "r = Some (Inl e)" "x = Inl e"
  | pos items where "r = Some (Inr (pos, items))" "f pos items = Some x"
  using assms that by (auto simp: scan_bind_def split: option.splits sum.splits prod.splits)

lemma parse_list_text:
  assumes "\<forall>v\<in>set vs. scans v data" "list_all (\<lambda>v. within_limits v (Suc depth)) vs"
    "drop pos data = concat (map bencode vs) @ 101 # rest"
    "items + sum_list (map item_count vs) \<le> MAX_BENCODE_ITEMS"
    "parse_list_items n data pos depth items = Some r"
  shows "r = Inr (pos + length (concat (map bencode vs)) + 1, items + sum_list (map item_count vs))"
  using assms
proof (induction vs arbitrary: n pos items)
  case Nil
  then have d: "drop pos data = 101 # rest" by simp
  then show ?case using Nil.prems(5) at_drop [OF d] by (cases n) (auto simp: parse_list_items.simps)
next
  case (Cons v vs)
  obtain m where n: "n = Suc m" using Cons.prems(5) by (cases n) (auto simp: parse_list_items.simps)
  have d: "drop pos data = bencode v @ concat (map bencode vs) @ 101 # rest" using Cons.prems(3) by simp
  obtain c cs where c: "bencode v = c # cs" "c \<noteq> 101" by (rule bencode_first)
  have a: "pos < length data" "data ! pos \<noteq> 101" using at_drop(1,2) [of pos data c] d c by simp_all
  have "scan_bind (parse_one m data pos (depth + 1) items)
      (\<lambda>pos items. parse_list_items m data pos depth items) = Some r"
    using Cons.prems(5) a by (simp add: n parse_list_items.simps)
  then show ?case
  proof (cases rule: scan_bind_SomeD)
    case (1 e)
    have "Inl e = (Inr (pos + length (bencode v), items + item_count v) :: rstring + nat \<times> nat)"
      using scansD [OF _ d _ _ 1(1)] Cons.prems by simp
    then show ?thesis by simp
  next
    case (2 p it)
    have "Inr (p, it) = (Inr (pos + length (bencode v), items + item_count v) :: rstring + nat \<times> nat)"
      using scansD [OF _ d _ _ 2(1)] Cons.prems by simp
    then have pit: "p = pos + length (bencode v)" "it = items + item_count v" by simp_all
    have "drop p data = concat (map bencode vs) @ 101 # rest" unfolding pit by (rule drop_later [OF d])
    from Cons.IH [OF _ _ this _ 2(2)] Cons.prems pit show ?thesis by (simp add: add.assoc)
  qed
qed

lemma parse_dict_text:
  assumes "\<forall>p\<in>set ps. scans (snd p) data"
    "list_all (\<lambda>p. length (fst p) \<le> MAX_BENCODE_STRING \<and> within_limits (snd p) (Suc depth)) ps"
    "drop pos data = concat (map (\<lambda>p. string_text (fst p) @ bencode (snd p)) ps) @ 101 # rest"
    "items + sum_list (map (\<lambda>p. item_count (snd p)) ps) \<le> MAX_BENCODE_ITEMS"
    "parse_dict_items n data pos depth items = Some r" "length data \<le> USIZE_MAX"
  shows "r = Inr (pos + length (concat (map (\<lambda>p. string_text (fst p) @ bencode (snd p)) ps)) + 1,
    items + sum_list (map (\<lambda>p. item_count (snd p)) ps))"
  using assms
proof (induction ps arbitrary: n pos items)
  case Nil
  then have d: "drop pos data = 101 # rest" by simp
  then show ?case using Nil.prems(5) at_drop [OF d] by (cases n) (auto simp: parse_dict_items.simps)
next
  case (Cons q ps)
  let ?k = "string_text (fst q)" and ?v = "bencode (snd q)"
  let ?tl = "concat (map (\<lambda>p. string_text (fst p) @ bencode (snd p)) ps) @ 101 # rest"
  obtain m where n: "n = Suc m" using Cons.prems(5) by (cases n) (auto simp: parse_dict_items.simps)
  have d: "drop pos data = ?k @ ?v @ ?tl" using Cons.prems(3) by simp
  obtain c cs where c: "?k = c # cs" "is_ascii_digit c" "c \<noteq> 101" by (rule string_text_first)
  have a: "pos < length data" "data ! pos \<noteq> 101" using at_drop(1,2) [of pos data c] d c by simp_all
  have k: "parse_string data pos = Inr (pos + length ?k)"
    by (rule parse_string_text [OF d]) (use Cons.prems(2,6) in simp_all)
  have d2: "drop (pos + length ?k) data = ?v @ ?tl" by (rule drop_later [OF d])
  have "scan_bind (parse_one m data (pos + length ?k) (depth + 1) items)
      (\<lambda>pos items. parse_dict_items m data pos depth items) = Some r"
    using Cons.prems(5) a c(1) by (simp add: n parse_dict_items.simps k scan_pos_def scan_bind_def)
  then show ?case
  proof (cases rule: scan_bind_SomeD)
    case (1 e)
    have "Inl e = (Inr (pos + length ?k + length ?v, items + item_count (snd q)) :: rstring + nat \<times> nat)"
      using scansD [OF _ d2 _ _ 1(1)] Cons.prems by simp
    then show ?thesis by simp
  next
    case (2 p it)
    have "Inr (p, it) = (Inr (pos + length ?k + length ?v, items + item_count (snd q)) :: rstring + nat \<times> nat)"
      using scansD [OF _ d2 _ _ 2(1)] Cons.prems by simp
    then have pit: "p = pos + length ?k + length ?v" "it = items + item_count (snd q)" by simp_all
    have "drop p data = ?tl" unfolding pit by (rule drop_later [OF d2])
    from Cons.IH [OF _ _ this _ 2(2)] Cons.prems pit show ?thesis by (simp add: add.assoc)
  qed
qed

lemma scans_all:
  assumes len: "length data \<le> USIZE_MAX"
  shows "scans v data"
proof (induction v)
  case (BBytes b)
  show ?case
    unfolding scans_def
  proof (intro allI impI)
    fix n pos depth items rest r
    assume d: "drop pos data = bencode (BBytes b) @ rest" and w: "within_limits (BBytes b) depth"
      and it: "items + item_count (BBytes b) \<le> MAX_BENCODE_ITEMS"
      and r: "parse_one n data pos depth items = Some r"
    obtain c cs where c: "string_text b = c # cs" "is_ascii_digit c" "c \<noteq> 101" by (rule string_text_first)
    have a: "pos < length data" "data ! pos = c" using at_drop(1,2) [of pos data c] d c by simp_all
    have ne: "c \<noteq> 100" "c \<noteq> 108" "c \<noteq> 105" using c(2) by auto
    have s: "parse_string data pos = Inr (pos + length (string_text b))"
      by (rule parse_string_text) (use d w len in simp_all)
    show "r = Inr (pos + length (bencode (BBytes b)), items + item_count (BBytes b))"
      using r a c(2) ne w it s
      by (cases n) (auto simp: parse_one.simps scan_pos_def MAX_BENCODE_ITEMS_def USIZE_MAX_def)
  qed
next
  case (BInt i)
  show ?case
    unfolding scans_def
  proof (intro allI impI)
    fix n pos depth items rest r
    assume d: "drop pos data = bencode (BInt i) @ rest" and w: "within_limits (BInt i) depth"
      and it: "items + item_count (BInt i) \<le> MAX_BENCODE_ITEMS"
      and r: "parse_one n data pos depth items = Some r"
    have d': "drop pos data = 105 # int_text (sint i) @ 101 # rest" using d by simp
    note a = at_drop [OF d']
    have s: "parse_integer data (Suc pos) = Inr (Suc pos + length (int_text (sint i)) + 1)"
      by (rule parse_integer_text [OF a(3)])
    show "r = Inr (pos + length (bencode (BInt i)), items + item_count (BInt i))"
      using r a(1,2) w it s
      by (cases n) (auto simp: parse_one.simps scan_pos_def MAX_BENCODE_ITEMS_def USIZE_MAX_def)
  qed
next
  case (BList l)
  show ?case
    unfolding scans_def
  proof (intro allI impI)
    fix n pos depth items rest r
    assume d: "drop pos data = bencode (BList l) @ rest" and w: "within_limits (BList l) depth"
      and it: "items + item_count (BList l) \<le> MAX_BENCODE_ITEMS"
      and r: "parse_one n data pos depth items = Some r"
    have d': "drop pos data = 108 # concat (map bencode l) @ 101 # rest" using d by simp
    note a = at_drop [OF d']
    obtain m where m: "parse_list_items m data (Suc pos) depth (Suc items) = Some r"
      using r a(1,2) w it
      by (cases n) (auto simp: parse_one.simps MAX_BENCODE_ITEMS_def USIZE_MAX_def)
    have "list_all (\<lambda>v. within_limits v (Suc depth)) l" using w by (simp add: list.pred_map comp_def)
    from parse_list_text [OF _ this a(3) _ m] it BList.IH
    show "r = Inr (pos + length (bencode (BList l)), items + item_count (BList l))" by simp
  qed
next
  case (BDict d)
  let ?ps = "sorted_list_of_fmap d"
  let ?body = "concat (map (\<lambda>p. string_text (fst p) @ bencode (snd p)) ?ps)"
  have b: "bencode (BDict d) = 100 # ?body @ [101]"
    by (simp add: sorted_list_fmmap comp_def)
  have i: "item_count (BDict d) = Suc (sum_list (map (\<lambda>p. item_count (snd p)) ?ps))"
    by (simp add: sorted_list_fmmap comp_def)
  have ih: "\<forall>p\<in>set ?ps. scans (snd p) data" using BDict.IH sorted_list_ran by blast
  show ?case
    unfolding scans_def
  proof (intro allI impI)
    fix n pos depth items rest r
    assume d: "drop pos data = bencode (BDict d) @ rest" and w: "within_limits (BDict d) depth"
      and it: "items + item_count (BDict d) \<le> MAX_BENCODE_ITEMS"
      and r: "parse_one n data pos depth items = Some r"
    have d': "drop pos data = 100 # ?body @ 101 # rest" using d unfolding b by simp
    note a = at_drop [OF d']
    have it': "Suc items + sum_list (map (\<lambda>p. item_count (snd p)) ?ps) \<le> MAX_BENCODE_ITEMS"
      using it unfolding i by simp
    have dep: "depth \<le> MAX_BENCODE_DEPTH" using w by simp
    obtain m where m: "parse_dict_items m data (Suc pos) depth (Suc items) = Some r"
      using r a(1,2) dep it'
      by (cases n) (auto simp: parse_one.simps MAX_BENCODE_ITEMS_def USIZE_MAX_def)
    have lim: "list_all (\<lambda>p. length (fst p) \<le> MAX_BENCODE_STRING \<and> within_limits (snd p) (Suc depth)) ?ps"
      using w by (simp add: sorted_list_fmmap list.pred_map comp_def del: list_all_sorted_list)
    show "r = Inr (pos + length (bencode (BDict d)), items + item_count (BDict d))"
      unfolding b i using parse_dict_text [OF ih lim a(3) it' m len] by simp
  qed
qed

lemma find_end_bencode:
  assumes "length (bencode v @ rest) \<le> USIZE_MAX" "within_limits v 0" "item_count v \<le> MAX_BENCODE_ITEMS"
  shows "find_bencode_end (bencode v @ rest) = Some (Inr (length (bencode v)))"
proof -
  let ?data = "bencode v @ rest"
  obtain r where r: "parse_one (scan_fuel ?data) ?data 0 0 0 = Some r"
    using scan_total(1) [of ?data 0 "scan_fuel ?data" 0 0] by (auto simp: scan_fuel_def)
  have "r = Inr (0 + length (bencode v), 0 + item_count v)"
    by (rule scansD [OF scans_all [OF assms(1)] _ assms(2) _ r]) (use assms(3) in simp_all)
  with r show ?thesis by (simp add: find_bencode_end_def)
qed

subsection \<open>The extension handshake: what is accepted, and round trips\<close>

definition extended_valid :: "extended_handshake \<Rightarrow> bool" where
  "extended_valid h \<longleftrightarrow>
     fmpred (\<lambda>k v. utf8_valid k \<and> uint v \<le> 255) (eh_m h) \<and>
     (\<forall>n. eh_metadata_size h = Some n \<longrightarrow> 1 \<le> uint n \<and> uint n \<le> 64 * 1024 * 1024) \<and>
     (\<forall>s. eh_v h = Some s \<longrightarrow> utf8_valid s) \<and>
     (\<forall>s. eh_your_ip h = Some s \<longrightarrow> utf8_valid s) \<and>
     (\<forall>n. eh_reqq h = Some n \<longrightarrow> 1 \<le> uint n \<and> uint n \<le> 64)"

lemma sint_of_u32 [simp]: "sint (ucast (n :: u32) :: i64) = uint n"
proof -
  have u: "uint (ucast n :: i64) = uint n" by (rule uint_up_ucast) (simp add: is_up)
  have "uint n < 2 ^ 63" using unsigned_less [of n, where ?'a = int] by simp
  moreover have "- (2 ^ 63) \<le> uint n" 
    by (rule order_trans [OF _ unsigned_greater_eq]) simp
  ultimately have "signed_take_bit 63 (uint n) = uint n" by (rule signed_take_bit_int_eq_self [rotated])
  then show ?thesis by (simp add: sint_uint u)
qed

lemma ucast_of_u32 [simp]: "ucast (ucast (n :: u32) :: i64) = n"
  by (rule ucast_up_ucast_id) (simp add: is_up)

lemma uint_ucast_small: "0 \<le> sint (i :: i64) \<Longrightarrow> sint i < 2 ^ 32 \<Longrightarrow> uint (ucast i :: u32) = sint i"
proof -
  assume a: "0 \<le> sint i" "sint i < 2 ^ 32"
  have "uint i = sint i mod 2 ^ 64" by (simp add: uint_sint take_bit_eq_mod)
  then have u: "uint i = sint i" using a by simp
  then show ?thesis using a by (simp add: unsigned_ucast_eq take_bit_eq_mod)
qed

lemma ext_entry_Some:
  assumes "ext_entry k v = Some (Some x)"
  shows "utf8_valid k" "uint x \<le> 255"
proof -
  obtain i where "v = BInt i" using assms by (auto simp: ext_entry_def split: bvalue.splits if_splits)
  then have i: "utf8_valid k" "0 \<le> sint i" "sint i \<le> 255" "x = ucast i"
    using assms by (auto simp: ext_entry_def split: if_splits)
  then show "utf8_valid k" by simp
  show "uint x \<le> 255" using i uint_ucast_small [of i] by simp
qed

lemma ext_ids_lookup:
  assumes "ext_ids d = Some m"
  shows "fmlookup m k = (case fmlookup d k of None \<Rightarrow> None | Some v \<Rightarrow> the (ext_entry k v))"
    and "fmlookup d k = Some v \<Longrightarrow> ext_entry k v \<noteq> None"
proof -
  have ok: "fmpred (\<lambda>k v. ext_entry k v \<noteq> None) d" using assms by (simp add: ext_ids_def split: if_splits)
  then show ne: "fmlookup d k = Some v \<Longrightarrow> ext_entry k v \<noteq> None" for v by (auto simp: fmpred_iff)
  have m: "m = fmmap_keys (\<lambda>k v. case ext_entry k v of Some (Some x) \<Rightarrow> x | _ \<Rightarrow> 0)
        (fmfilter (\<lambda>k. case fmlookup d k of None \<Rightarrow> False
           | Some v \<Rightarrow> (case ext_entry k v of Some (Some x) \<Rightarrow> True | _ \<Rightarrow> False)) d)"
    using assms ok by (simp add: ext_ids_def cong del: fmfilter_cong)
  show "fmlookup m k = (case fmlookup d k of None \<Rightarrow> None | Some v \<Rightarrow> the (ext_entry k v))"
  proof (cases "fmlookup d k")
    case None
    then show ?thesis by (simp add: m)
  next
    case (Some v)
    then obtain r where "ext_entry k v = Some r" using ne by blast
    then show ?thesis using Some by (cases r) (simp_all add: m)
  qed
qed

lemma ext_ids_valid:
  assumes "ext_ids d = Some m"
  shows "fmpred (\<lambda>k v. utf8_valid k \<and> uint v \<le> 255) m"
proof (rule fmpredI)
  fix k x assume x: "fmlookup m k = Some x"
  then obtain v where v: "fmlookup d k = Some v" "the (ext_entry k v) = Some x"
    using ext_ids_lookup(1) [OF assms, of k] by (auto split: option.splits)
  then have "ext_entry k v = Some (Some x)" using ext_ids_lookup(2) [OF assms v(1)] by auto
  then show "utf8_valid k \<and> uint x \<le> 255" using ext_entry_Some by blast
qed

lemma ext_ids_ut_metadata:
  assumes "ext_ids d = Some m" "fmlookup d (str ''ut_metadata'') = Some v"
  shows "fmlookup m (str ''ut_metadata'') \<noteq> None"
proof -
  have u: "utf8_valid (str ''ut_metadata'')" by code_simp
  have "ext_entry (str ''ut_metadata'') v \<noteq> None" by (rule ext_ids_lookup(2) [OF assms])
  then obtain x where "ext_entry (str ''ut_metadata'') v = Some (Some x)"
    using u by (auto simp: ext_entry_def split: bvalue.splits if_splits)
  then show ?thesis using ext_ids_lookup(1) [OF assms(1)] assms(2) by simp
qed

lemma ext_ids_to_dict:
  assumes "fmpred (\<lambda>k v. utf8_valid k \<and> uint v \<le> 255) m"
  shows "ext_ids (fmmap (\<lambda>v. BInt (ucast v)) m) = Some m"
proof -
  let ?d = "fmmap (\<lambda>v. BInt (ucast v)) m"
  have e: "ext_entry k (BInt (ucast v)) = Some (Some v)" if "fmlookup m k = Some v" for k v
  proof -
    have "utf8_valid k" "uint v \<le> 255" using assms that by (auto simp: fmpred_iff)
    then show ?thesis by (simp add: ext_entry_def)
  qed
  have "fmpred (\<lambda>k v. ext_entry k v \<noteq> None) ?d" using e by (auto simp: fmpred_iff)
  moreover have "fmmap_keys (\<lambda>k v. case ext_entry k v of Some (Some x) \<Rightarrow> x | _ \<Rightarrow> 0)
        (fmfilter (\<lambda>k. case fmlookup ?d k of None \<Rightarrow> False
           | Some v \<Rightarrow> (case ext_entry k v of Some (Some x) \<Rightarrow> True | _ \<Rightarrow> False)) ?d) = m"
  proof (rule fmap_ext)
    fix k
    show "fmlookup (fmmap_keys (\<lambda>k v. case ext_entry k v of Some (Some x) \<Rightarrow> x | _ \<Rightarrow> 0)
        (fmfilter (\<lambda>k. case fmlookup ?d k of None \<Rightarrow> False
           | Some v \<Rightarrow> (case ext_entry k v of Some (Some x) \<Rightarrow> True | _ \<Rightarrow> False)) ?d)) k = fmlookup m k"
      by (cases "fmlookup m k") (simp_all add: e)
  qed
  ultimately show ?thesis by (simp add: ext_ids_def)
qed

lemma fmlookup_insert_some [simp]:
  "fmlookup (insert_some k v d) k' =
     (if k = k' then (case v of None \<Rightarrow> fmlookup d k' | Some x \<Rightarrow> Some x) else fmlookup d k')"
  by (cases v) (simp_all add: insert_some_def)

lemma extended_to_dict_lookup:
  "fmlookup (extended_to_dict h) (str ''m'') = Some (BDict (fmmap (\<lambda>v. BInt (ucast v)) (eh_m h)))"
  "fmlookup (extended_to_dict h) (str ''metadata_size'') =
     map_option (\<lambda>n. BInt (ucast n)) (eh_metadata_size h)"
  "fmlookup (extended_to_dict h) (str ''v'') = map_option BBytes (eh_v h)"
  "fmlookup (extended_to_dict h) (str ''yourip'') = map_option BBytes (eh_your_ip h)"
  "fmlookup (extended_to_dict h) (str ''reqq'') = map_option (\<lambda>n. BInt (ucast n)) (eh_reqq h)"
  by (simp_all add: extended_to_dict_def Let_def split: option.split)

lemma extended_round_trip:
  assumes v: "extended_valid h" and dec: "dec bs = Inr (BDict (extended_to_dict h))"
  shows "extended_from_bytes dec bs = Some h"
proof -
  note look = extended_to_dict_lookup [of h]
  have m: "extended_m (extended_to_dict h) = Some (eh_m h)"
    using v by (simp add: extended_m_def look ext_ids_to_dict extended_valid_def)
  have s: "extended_size (extended_to_dict h) = Some (eh_metadata_size h)"
    using v by (auto simp: extended_size_def look extended_valid_def split: option.split)
  have t: "lossy_field (extended_to_dict h) (str ''v'') = eh_v h"
    "lossy_field (extended_to_dict h) (str ''yourip'') = eh_your_ip h"
    using v by (auto simp: lossy_field_def look extended_valid_def split: option.split)
  have r: "extended_reqq (extended_to_dict h) = eh_reqq h"
    using v by (auto simp: extended_reqq_def look extended_valid_def split: option.split)
  show ?thesis by (simp add: extended_from_bytes_def dec m s t r)
qed

lemma extended_from_bytes_valid:
  assumes "extended_from_bytes dec data = Some h"
  shows "extended_valid h"
proof -
  obtain d m s where d: "dec data = Inr (BDict d)" "extended_m d = Some m" "extended_size d = Some s"
    and h: "h = \<lparr>eh_m = m, eh_metadata_size = s, eh_v = lossy_field d (str ''v''),
                eh_your_ip = lossy_field d (str ''yourip''), eh_reqq = extended_reqq d\<rparr>"
    using assms by (auto simp: extended_from_bytes_def split: sum.splits bvalue.splits bind_splits)
  have mv: "fmpred (\<lambda>k v. utf8_valid k \<and> uint v \<le> 255) m"
    using d(2) ext_ids_valid by (auto simp: extended_m_def split: option.splits bvalue.splits)
  have sv: "1 \<le> uint n \<and> uint n \<le> 64 * 1024 * 1024" if n: "s = Some n" for n
  proof -
    obtain i where "fmlookup d (str ''metadata_size'') = Some (BInt i)"
      using d(3) n by (auto simp: extended_size_def split: option.splits bvalue.splits if_splits)
    then have i: "\<not> sint i \<le> 0" "\<not> sint i > 64 * 1024 * 1024" "n = ucast i"
      using d(3) n by (auto simp: extended_size_def split: if_splits)
    then show ?thesis using uint_ucast_small [of i] by simp
  qed
  have tv: "utf8_valid x" if "lossy_field d k = Some x" for k x
    using that by (auto simp: lossy_field_def utf8_valid_lossy split: option.splits bvalue.splits)
  have rv: "1 \<le> uint n \<and> uint n \<le> 64" if n: "extended_reqq d = Some n" for n
  proof -
    obtain i where "fmlookup d (str ''reqq'') = Some (BInt i)"
      using n by (auto simp: extended_reqq_def split: option.splits bvalue.splits if_splits)
    then have i: "1 \<le> sint i" "sint i \<le> 64" "n = ucast i"
      using n by (auto simp: extended_reqq_def split: if_splits)
    then show ?thesis using uint_ucast_small [of i] by simp
  qed
  show ?thesis using mv sv tv rv by (simp add: extended_valid_def h)
qed

subsection \<open>Metadata messages\<close>

text \<open>The dictionary of a BEP 9 data message, as a peer writes it.\<close>

definition metadata_data_dict :: "u32 \<Rightarrow> u32 \<Rightarrow> bvalue" where
  "metadata_data_dict piece total_size =
     BDict (fmupd (str ''total_size'') (BInt (ucast total_size))
       (fmupd (str ''piece'') (BInt (ucast piece))
         (fmupd (str ''msg_type'') (BInt 1) fmempty)))"

lemma metadata_sorted:
  "sorted_list_of_fmap (fmupd (str ''total_size'') a (fmupd (str ''piece'') b (fmupd (str ''msg_type'') c fmempty))) =
     [(str ''msg_type'', c), (str ''piece'', b), (str ''total_size'', a)]"
proof -
  have k: "sorted_list_of_fset (fmdom (fmupd (str ''total_size'') a (fmupd (str ''piece'') b
      (fmupd (str ''msg_type'') c fmempty)))) = [str ''msg_type'', str ''piece'', str ''total_size'']"
    by (simp) code_simp
  show ?thesis by (simp only: sorted_list_of_fmap_def k) simp
qed

lemma metadata_data_limits: "within_limits (metadata_data_dict p t) 0" "item_count (metadata_data_dict p t) = 4"
proof -
  show "within_limits (metadata_data_dict p t) 0"
    by (simp add: metadata_data_dict_def sorted_list_fmmap metadata_sorted MAX_BENCODE_DEPTH_def MAX_BENCODE_STRING_def
        del: list_all_sorted_list)
  show "item_count (metadata_data_dict p t) = 4"
    by (simp add: metadata_data_dict_def sorted_list_fmmap metadata_sorted)
qed

lemma metadata_data_round_trip:
  assumes dec: "dec (bencode (metadata_data_dict p t)) = Inr (metadata_data_dict p t)"
    and len: "length (bencode (metadata_data_dict p t) @ block) \<le> USIZE_MAX"
  shows "parse_metadata_response dec (bencode (metadata_data_dict p t) @ block) = Some (Inr (p, t, block))"
proof -
  have "find_bencode_end (bencode (metadata_data_dict p t) @ block) =
      Some (Inr (length (bencode (metadata_data_dict p t))))"
    by (rule find_end_bencode [OF len]) (simp_all add: metadata_data_limits MAX_BENCODE_ITEMS_def)
  moreover have "sint (1 :: i64) = 1" by simp
  moreover have "uint x < 4294967296" for x :: u32
    using unsigned_less [of x, where ?'a = int] by simp
  ultimately show ?thesis using dec
    by (simp add: parse_metadata_response_def parse_response_dict_def u8_field_def u32_field_def
        metadata_data_dict_def UT_METADATA_REJECT_def UT_METADATA_DATA_def)
qed

subsection \<open>Encodings beyond the limits\<close>

text \<open>
  The depth of the deepest value inside a value (no string, integer or empty container holds
  one), and the strings and keys that respect the limit.
\<close>

primrec nesting :: "bvalue \<Rightarrow> nat" where
  "nesting (BBytes b) = 0"
| "nesting (BInt i) = 0"
| "nesting (BList l) = foldr (\<lambda>n m. max (Suc n) m) (map nesting l) 0"
| "nesting (BDict d) = foldr (\<lambda>p m. max (Suc (snd p)) m) (sorted_list_of_fmap (fmmap nesting d)) 0"

primrec strings_fit :: "bvalue \<Rightarrow> bool" where
  "strings_fit (BBytes b) \<longleftrightarrow> length b \<le> MAX_BENCODE_STRING"
| "strings_fit (BInt i) \<longleftrightarrow> True"
| "strings_fit (BList l) \<longleftrightarrow> list_all id (map strings_fit l)"
| "strings_fit (BDict d) \<longleftrightarrow>
     list_all (\<lambda>p. length (fst p) \<le> MAX_BENCODE_STRING \<and> snd p) (sorted_list_of_fmap (fmmap strings_fit d))"

lemma foldr_max_le: "foldr (\<lambda>x m. max (Suc (f x)) m) xs 0 \<le> k \<longleftrightarrow> (\<forall>x\<in>set xs. Suc (f x) \<le> k)"
  by (induction xs) auto

lemma within_limits_nesting:
  "within_limits v depth \<longleftrightarrow> strings_fit v \<and> depth + nesting v \<le> MAX_BENCODE_DEPTH"
proof (induction v arbitrary: depth)
  case (BList l)
  have "nesting (BList l) \<le> k \<longleftrightarrow> (\<forall>v\<in>set l. Suc (nesting v) \<le> k)" for k
    using foldr_max_le [of nesting l k] by (simp add: foldr_map comp_def)
  from this [of "MAX_BENCODE_DEPTH - depth"] BList.IH show ?case
    by (cases "depth \<le> MAX_BENCODE_DEPTH") (auto simp: list_all_iff le_diff_conv2 simp del: nesting.simps(3))
next
  case (BDict d)
  let ?ps = "sorted_list_of_fmap d"
  have "nesting (BDict d) \<le> k \<longleftrightarrow> (\<forall>p\<in>set ?ps. Suc (nesting (snd p)) \<le> k)" for k
    using foldr_max_le [of "\<lambda>p. nesting (snd p)" ?ps k] by (simp add: sorted_list_fmmap foldr_map comp_def)
  note nest = this [of "MAX_BENCODE_DEPTH - depth"]
  have fit: "strings_fit (BDict d) \<longleftrightarrow>
      (\<forall>p\<in>set ?ps. length (fst p) \<le> MAX_BENCODE_STRING \<and> strings_fit (snd p))"
    by (simp add: sorted_list_fmmap list_all_iff del: list_all_sorted_list)
  have lim: "within_limits (BDict d) depth \<longleftrightarrow> depth \<le> MAX_BENCODE_DEPTH \<and>
      (\<forall>p\<in>set ?ps. length (fst p) \<le> MAX_BENCODE_STRING \<and> within_limits (snd p) (Suc depth))"
    by (simp add: sorted_list_fmmap list_all_iff del: list_all_sorted_list)
  have ih: "within_limits (snd p) (Suc depth) \<longleftrightarrow>
      strings_fit (snd p) \<and> Suc depth + nesting (snd p) \<le> MAX_BENCODE_DEPTH" if "p \<in> set ?ps" for p
    using BDict.IH sorted_list_ran [OF that] by blast
  show ?case unfolding lim fit using ih nest
    by (cases "depth \<le> MAX_BENCODE_DEPTH") (auto simp: le_diff_conv2 simp del: nesting.simps(4))
qed auto

lemma parse_string_long:
  assumes "drop pos data = string_text b @ rest" "MAX_BENCODE_STRING < length b"
  shows "\<exists>e. parse_string data pos = Inl e"
proof -
  let ?t = "nat_text (length b)"
  have d: "drop pos data = ?t @ 58 # b @ rest" using assms(1) by (simp add: string_text_def)
  have p: "skip_digits data pos = pos + length ?t" by (rule skip_nat_text [OF d]) simp
  have t: "subrange pos (pos + length ?t) data = ?t" by (simp add: subrange_def d)
  have fu: "from_utf8 ?t = Some ?t" by (simp add: utf8_nat_text)
  have "parse_usize ?t = Some (length b) \<or> parse_usize ?t = None"
    by (simp add: parse_usize_def digits_value_nat_text)
  then show ?thesis
    unfolding parse_string_def p Let_def t fu option.case using assms(2) by (auto split: option.splits)
qed

definition nesting_error :: rstring where
  "nesting_error = str ''bencode nesting exceeds limit''"

text \<open>
  What a scan may answer on an encoding: the exact end, if the limits are kept; else an error,
  which is the nesting error if the strings and the number of items are within their limits.
\<close>

definition scan_answer :: "bool \<Rightarrow> bool \<Rightarrow> nat \<Rightarrow> nat \<Rightarrow> rstring + nat \<times> nat \<Rightarrow> bool" where
  "scan_answer fit lim cnt stop r \<longleftrightarrow>
     (case r of
        Inr x \<Rightarrow> lim \<and> cnt \<le> MAX_BENCODE_ITEMS \<and> x = (stop, cnt)
      | Inl e \<Rightarrow> fit \<and> cnt \<le> MAX_BENCODE_ITEMS \<longrightarrow> e = nesting_error)"

lemma scan_answer_simps [simp]:
  "scan_answer fit lim cnt stop (Inr x) \<longleftrightarrow> lim \<and> cnt \<le> MAX_BENCODE_ITEMS \<and> x = (stop, cnt)"
  "scan_answer fit lim cnt stop (Inl e) \<longleftrightarrow> (fit \<and> cnt \<le> MAX_BENCODE_ITEMS \<longrightarrow> e = nesting_error)"
  by (simp_all add: scan_answer_def)

definition answers :: "bvalue \<Rightarrow> bytes \<Rightarrow> bool" where
  "answers v data \<longleftrightarrow> (\<forall>n pos depth items rest r.
     drop pos data = bencode v @ rest \<longrightarrow> parse_one n data pos depth items = Some r \<longrightarrow>
     scan_answer (strings_fit v) (within_limits v depth) (items + item_count v) (pos + length (bencode v)) r)"

lemma answersD:
  assumes "answers v data" "drop pos data = bencode v @ rest" "parse_one n data pos depth items = Some r"
  shows "scan_answer (strings_fit v) (within_limits v depth) (items + item_count v) (pos + length (bencode v)) r"
  using assms unfolding answers_def by blast

lemma list_answer:
  assumes "\<forall>v\<in>set vs. answers v data" "drop pos data = concat (map bencode vs) @ 101 # rest"
    "items \<le> MAX_BENCODE_ITEMS" "parse_list_items n data pos depth items = Some r"
  shows "scan_answer (list_all strings_fit vs) (list_all (\<lambda>v. within_limits v (Suc depth)) vs)
    (items + sum_list (map item_count vs)) (pos + length (concat (map bencode vs)) + 1) r"
  using assms
proof (induction vs arbitrary: n pos items)
  case Nil
  then have d: "drop pos data = 101 # rest" by simp
  then show ?case using Nil.prems(3,4) at_drop [OF d] by (cases n) (auto simp: parse_list_items.simps)
next
  case (Cons v vs)
  obtain m where n: "n = Suc m" using Cons.prems(4) by (cases n) (auto simp: parse_list_items.simps)
  have d: "drop pos data = bencode v @ concat (map bencode vs) @ 101 # rest" using Cons.prems(2) by simp
  obtain c cs where c: "bencode v = c # cs" "c \<noteq> 101" by (rule bencode_first)
  have a: "pos < length data" "data ! pos \<noteq> 101" using at_drop(1,2) [of pos data c] d c by simp_all
  have v: "answers v data" using Cons.prems(1) by simp
  have "scan_bind (parse_one m data pos (depth + 1) items)
      (\<lambda>pos items. parse_list_items m data pos depth items) = Some r"
    using Cons.prems(4) a by (simp add: n parse_list_items.simps)
  then show ?case
  proof (cases rule: scan_bind_SomeD)
    case (1 e)
    show ?thesis using answersD [OF v d 1(1)] 1(2) by auto
  next
    case (2 p it)
    have pit: "within_limits v (Suc depth)" "p = pos + length (bencode v)" "it = items + item_count v"
      "it \<le> MAX_BENCODE_ITEMS" using answersD [OF v d 2(1)] by simp_all
    have "drop p data = concat (map bencode vs) @ 101 # rest" unfolding pit by (rule drop_later [OF d])
    from Cons.IH [OF _ this pit(4) 2(2)] Cons.prems(1) pit show ?thesis
      by (cases r) (auto simp: add.assoc)
  qed
qed

lemma dict_answer:
  assumes "\<forall>p\<in>set ps. answers (snd p) data"
    "drop pos data = concat (map (\<lambda>p. string_text (fst p) @ bencode (snd p)) ps) @ 101 # rest"
    "items \<le> MAX_BENCODE_ITEMS" "parse_dict_items n data pos depth items = Some r" "length data \<le> USIZE_MAX"
  shows "scan_answer (list_all (\<lambda>p. length (fst p) \<le> MAX_BENCODE_STRING \<and> strings_fit (snd p)) ps)
    (list_all (\<lambda>p. length (fst p) \<le> MAX_BENCODE_STRING \<and> within_limits (snd p) (Suc depth)) ps)
    (items + sum_list (map (\<lambda>p. item_count (snd p)) ps))
    (pos + length (concat (map (\<lambda>p. string_text (fst p) @ bencode (snd p)) ps)) + 1) r"
  using assms
proof (induction ps arbitrary: n pos items)
  case Nil
  then have d: "drop pos data = 101 # rest" by simp
  then show ?case using Nil.prems(3,4) at_drop [OF d] by (cases n) (auto simp: parse_dict_items.simps)
next
  case (Cons q ps)
  let ?k = "string_text (fst q)" and ?v = "bencode (snd q)"
  let ?tl = "concat (map (\<lambda>p. string_text (fst p) @ bencode (snd p)) ps) @ 101 # rest"
  obtain m where n: "n = Suc m" using Cons.prems(4) by (cases n) (auto simp: parse_dict_items.simps)
  have d: "drop pos data = ?k @ ?v @ ?tl" using Cons.prems(2) by simp
  obtain c cs where c: "?k = c # cs" "is_ascii_digit c" "c \<noteq> 101" by (rule string_text_first)
  have a: "pos < length data" "data ! pos \<noteq> 101" using at_drop(1,2) [of pos data c] d c by simp_all
  show ?case
  proof (cases "length (fst q) \<le> MAX_BENCODE_STRING")
    case False
    then obtain e where "parse_string data pos = Inl e" using parse_string_long [OF d] by auto
    then have "r = Inl e" using Cons.prems(4) a by (simp add: n parse_dict_items.simps scan_pos_def scan_bind_def)
    then show ?thesis using False by simp
  next
    case True
    have k: "parse_string data pos = Inr (pos + length ?k)"
      by (rule parse_string_text [OF d True Cons.prems(5)])
    have d2: "drop (pos + length ?k) data = ?v @ ?tl" by (rule drop_later [OF d])
    have v: "answers (snd q) data" using Cons.prems(1) by simp
    have "scan_bind (parse_one m data (pos + length ?k) (depth + 1) items)
        (\<lambda>pos items. parse_dict_items m data pos depth items) = Some r"
      using Cons.prems(4) a c(1) by (simp add: n parse_dict_items.simps k scan_pos_def scan_bind_def)
    then show ?thesis
    proof (cases rule: scan_bind_SomeD)
      case (1 e)
      show ?thesis using answersD [OF v d2 1(1)] 1(2) by auto
    next
      case (2 p it)
      have pit: "within_limits (snd q) (Suc depth)" "p = pos + length ?k + length ?v"
        "it = items + item_count (snd q)" "it \<le> MAX_BENCODE_ITEMS"
        using answersD [OF v d2 2(1)] by simp_all
      have "drop p data = ?tl" unfolding pit by (rule drop_later [OF d2])
      from Cons.IH [OF _ this pit(4) 2(2) Cons.prems(5)] Cons.prems(1) pit True show ?thesis
        by (cases r) (auto simp: add.assoc)
    qed
  qed
qed

text \<open>The entry of the scanner: its three checks, then the value by its first byte.\<close>

lemma parse_one_entry:
  assumes "parse_one n data pos depth items = Some r" "pos < length data"
  obtains "MAX_BENCODE_DEPTH < depth" "r = Inl nesting_error"
  | e where "MAX_BENCODE_ITEMS \<le> items" "r = Inl e"
  | m where "n = Suc m" "depth \<le> MAX_BENCODE_DEPTH" "Suc items \<le> MAX_BENCODE_ITEMS" "Suc items \<le> USIZE_MAX"
proof (cases n)
  case (Suc m)
  consider "MAX_BENCODE_DEPTH < depth" | "depth \<le> MAX_BENCODE_DEPTH" "MAX_BENCODE_ITEMS \<le> items"
    | "depth \<le> MAX_BENCODE_DEPTH" "Suc items \<le> MAX_BENCODE_ITEMS" by linarith
  then show thesis
  proof cases
    case 1
    then show ?thesis using assms Suc that(1) by (simp add: parse_one.simps nesting_error_def)
  next
    case 2
    then show ?thesis using assms Suc that(2) by (auto simp: parse_one.simps split: if_splits)
  next
    case 3
    moreover have "MAX_BENCODE_ITEMS \<le> USIZE_MAX" by (simp add: MAX_BENCODE_ITEMS_def USIZE_MAX_def)
    ultimately show ?thesis using Suc that(3) by simp
  qed
qed (use assms in \<open>simp add: parse_one.simps\<close>)

lemma answers_bytes: "length data \<le> USIZE_MAX \<Longrightarrow> answers (BBytes b) data"
  unfolding answers_def
proof (intro allI impI)
  fix n pos depth items rest r
  assume len: "length data \<le> USIZE_MAX" and d: "drop pos data = bencode (BBytes b) @ rest"
    and r: "parse_one n data pos depth items = Some r"
  have d': "drop pos data = string_text b @ rest" using d by simp
  obtain c cs where c: "string_text b = c # cs" "is_ascii_digit c" "c \<noteq> 101" by (rule string_text_first)
  have a: "pos < length data" "data ! pos = c" using at_drop(1,2) [of pos data c] d c by simp_all
  have ne: "c \<noteq> 100" "c \<noteq> 108" "c \<noteq> 105" using c(2) by auto
  from r a(1) show "scan_answer (strings_fit (BBytes b)) (within_limits (BBytes b) depth)
      (items + item_count (BBytes b)) (pos + length (bencode (BBytes b))) r"
  proof (cases rule: parse_one_entry)
    case (3 m)
    have "scan_pos (parse_string data pos) (Suc items) = Some r"
      using r 3 a ne c(2) by (simp add: parse_one.simps)
    then show ?thesis
      using parse_string_text [OF d' _ len] parse_string_long [OF d'] 3
      by (cases "length b \<le> MAX_BENCODE_STRING") (auto simp: scan_pos_def)
  qed auto
qed

lemma answers_int: "answers (BInt i) data"
  unfolding answers_def
proof (intro allI impI)
  fix n pos depth items rest r
  assume d: "drop pos data = bencode (BInt i) @ rest" and r: "parse_one n data pos depth items = Some r"
  have d': "drop pos data = 105 # int_text (sint i) @ 101 # rest" using d by simp
  note a = at_drop [OF d']
  have s: "parse_integer data (Suc pos) = Inr (Suc pos + length (int_text (sint i)) + 1)"
    by (rule parse_integer_text [OF a(3)])
  from r a(1) show "scan_answer (strings_fit (BInt i)) (within_limits (BInt i) depth)
      (items + item_count (BInt i)) (pos + length (bencode (BInt i))) r"
  proof (cases rule: parse_one_entry)
    case (3 m)
    then show ?thesis using r a(1,2) s by (auto simp: parse_one.simps scan_pos_def)
  qed auto
qed

lemma answers_list: "(\<And>v. v \<in> set l \<Longrightarrow> answers v data) \<Longrightarrow> answers (BList l) data"
  unfolding answers_def [of "BList l"]
proof (intro allI impI)
  fix n pos depth items rest r
  assume ih: "\<And>v. v \<in> set l \<Longrightarrow> answers v data" and d: "drop pos data = bencode (BList l) @ rest"
    and r: "parse_one n data pos depth items = Some r"
  have d': "drop pos data = 108 # concat (map bencode l) @ 101 # rest" using d by simp
  note a = at_drop [OF d']
  from r a(1) show "scan_answer (strings_fit (BList l)) (within_limits (BList l) depth)
      (items + item_count (BList l)) (pos + length (bencode (BList l))) r"
  proof (cases rule: parse_one_entry)
    case (3 m)
    have "parse_list_items m data (Suc pos) depth (Suc items) = Some r"
      using r a(1,2) 3 by (simp add: parse_one.simps)
    from list_answer [OF _ a(3) 3(3) this] ih show ?thesis
      using 3(2) by (cases r) (auto simp: list.pred_map comp_def)
  qed auto
qed

lemma answers_dict:
  assumes ih: "\<And>v. v \<in> fmran' d \<Longrightarrow> answers v data" and len: "length data \<le> USIZE_MAX"
  shows "answers (BDict d) data"
  unfolding answers_def [of "BDict d"]
proof (intro allI impI)
  let ?ps = "sorted_list_of_fmap d"
  let ?body = "concat (map (\<lambda>p. string_text (fst p) @ bencode (snd p)) ?ps)"
  fix n pos depth items rest r
  assume d: "drop pos data = bencode (BDict d) @ rest" and r: "parse_one n data pos depth items = Some r"
  have b: "bencode (BDict d) = 100 # ?body @ [101]" by (simp add: sorted_list_fmmap comp_def)
  have i: "item_count (BDict d) = Suc (sum_list (map (\<lambda>p. item_count (snd p)) ?ps))"
    by (simp add: sorted_list_fmmap comp_def)
  have f: "strings_fit (BDict d) \<longleftrightarrow>
      list_all (\<lambda>p. length (fst p) \<le> MAX_BENCODE_STRING \<and> strings_fit (snd p)) ?ps"
    by (simp add: sorted_list_fmmap list.pred_map comp_def del: list_all_sorted_list)
  have w: "within_limits (BDict d) depth \<longleftrightarrow> depth \<le> MAX_BENCODE_DEPTH \<and>
      list_all (\<lambda>p. length (fst p) \<le> MAX_BENCODE_STRING \<and> within_limits (snd p) (Suc depth)) ?ps"
    by (simp add: sorted_list_fmmap list.pred_map comp_def del: list_all_sorted_list)
  have ran: "\<forall>p\<in>set ?ps. answers (snd p) data" using ih sorted_list_ran by blast
  have d': "drop pos data = 100 # ?body @ 101 # rest" using d unfolding b by simp
  note a = at_drop [OF d']
  from r a(1) show "scan_answer (strings_fit (BDict d)) (within_limits (BDict d) depth)
      (items + item_count (BDict d)) (pos + length (bencode (BDict d))) r"
  proof (cases rule: parse_one_entry)
    case (3 m)
    have "parse_dict_items m data (Suc pos) depth (Suc items) = Some r"
      using r a(1,2) 3 by (simp add: parse_one.simps)
    note dict_answer [OF ran a(3) 3(3) this len]
    then show ?thesis unfolding b i f w using 3(2) by (cases r) auto
  next
    case (2 e)
    then show ?thesis unfolding i by simp
  qed simp
qed

lemma answers_all: "length data \<le> USIZE_MAX \<Longrightarrow> answers v data"
  by (induction v) (simp_all add: answers_bytes answers_int answers_list answers_dict)

lemma find_end_answer:
  assumes "length (bencode v @ rest) \<le> USIZE_MAX"
  obtains r where "find_bencode_end (bencode v @ rest) = Some (map_sum (\<lambda>e. e) fst r)"
    "scan_answer (strings_fit v) (within_limits v 0) (item_count v) (length (bencode v)) r"
proof -
  let ?data = "bencode v @ rest"
  obtain r where r: "parse_one (scan_fuel ?data) ?data 0 0 0 = Some r"
    using scan_total(1) [of ?data 0 "scan_fuel ?data" 0 0] by (auto simp: scan_fuel_def)
  show thesis
    by (rule that [of r]) (use answersD [OF answers_all [OF assms] _ r] r in \<open>simp_all add: find_bencode_end_def\<close>)
qed

text \<open>Lists and dictionaries in turn, each in the one around it: two levels a step.\<close>

primrec nested :: "nat \<Rightarrow> bvalue" where
  "nested 0 = BList []"
| "nested (Suc n) = BList [BInt 7, BDict (fmupd [97] (nested n) fmempty)]"

lemma sorted_list_single: "sorted_list_of_fmap (fmupd k v fmempty) = [(k, v)]"
  by (simp add: sorted_list_of_fmap_def sorted_list_of_fset.rep_eq)

lemma nested_measures:
  "nesting (nested n) = 2 * n" "strings_fit (nested n)" "item_count (nested n) = 3 * n + 1"
  "length (bencode (nested n)) = 10 * n + 2"
  by (induction n)
    (simp_all add: sorted_list_fmmap sorted_list_single del: list_all_sorted_list, simp_all add: MAX_BENCODE_STRING_def string_text_def int_text_def nat_text.simps)

subsection \<open>Properties of the wire protocol\<close>

text \<open>
  C22: every peer message whose payload fits the 32-bit length prefix is read back from its
  bytes, both from a stream (whatever follows it) and as a frame cut by its length prefix.
\<close>

theorem wire_message_round_trip:
  assumes "message_fits m"
  shows "message_from_bytes (message_to_bytes m @ rest) = Some m \<and>
    (m \<noteq> KeepAlive \<longrightarrow>
     from_bytes_frame (u32_of_be (take 4 (message_to_bytes m))) (drop 4 (message_to_bytes m)) = Some m)"
  using message_from_to_bytes [OF assms] frame_from_to_bytes [OF assms] by simp

lemma wire_message_round_trip_witness:
  "message_from_bytes (message_to_bytes (Wire.Request 1 2 3) @ [9]) = Some (Wire.Request 1 2 3)"
  using wire_message_round_trip [of "Wire.Request 1 2 3" "[9]"] by (simp add: message_fits_def)

text \<open>
  C23: the handshake parser accepts exactly the encodings of well-formed handshakes: it
  answers \<open>h\<close> on the encoding of \<open>h\<close> followed by anything, and whatever it accepts starts
  with the 68 bytes that encode its answer.
\<close>

theorem handshake_exact:
  assumes "handshake_valid h"
  shows "handshake_from_bytes (handshake_to_bytes h @ rest) = Some h \<and>
    (\<forall>data h'. handshake_from_bytes data = Some h' \<longrightarrow>
       handshake_valid h' \<and> take 68 data = handshake_to_bytes h')"
proof -
  have "handshake_from_bytes (handshake_to_bytes h @ rest) = Some h"
    using assms by (auto simp: handshake_to_bytes_def handshake_from_bytes_def handshake_valid_def
        HANDSHAKE_LEN_def)
  then show ?thesis using handshake_valid_slices handshake_bytes by metis
qed

lemma handshake_exact_witness:
  "handshake_from_bytes (handshake_to_bytes (new_handshake (replicate 20 1) (replicate 20 2)) @ [5]) =
     Some (new_handshake (replicate 20 1) (replicate 20 2))"
  using handshake_exact [of "new_handshake (replicate 20 1) (replicate 20 2)" "[5]"]
  by (simp add: new_handshake_def handshake_valid_def valid_id_def NODE_ID_LEN_def)

text \<open>
  C24: on any buffer the scanner answers (its fuel is enough, so the recursion of the code
  ends), and an end position it answers lies behind at least one byte and inside the buffer:
  the slices taken at it never go out of range.
\<close>

theorem scanner_total_and_bounded:
  "\<exists>r. find_bencode_end data = Some r \<and> (case r of Inl e \<Rightarrow> True | Inr n \<Rightarrow> 0 < n \<and> n \<le> length data)"
proof -
  obtain r where r: "find_bencode_end data = Some r" using find_bencode_end_total by blast
  then show ?thesis using find_bencode_end_bounds [of data] by (cases r) auto
qed



text \<open>
  C26: beyond the limits the scanner refuses.  On the encoding of any value, whatever bytes
  follow it, it answers an end only if no value lies deeper than 32 containers, no string or
  key is longer than a mebibyte and there are at most 1024 items; then the end is the exact
  one. A value nested deeper than that in lists and dictionaries, wherever in the value, is
  refused with the nesting error when the other limits are kept.
\<close>

theorem scanner_refuses_beyond_limits:
  assumes "length (bencode v @ rest) \<le> USIZE_MAX"
  shows "(find_bencode_end (bencode v @ rest) = Some (Inr stop) \<longleftrightarrow>
      nesting v \<le> 32 \<and> strings_fit v \<and> item_count v \<le> 1024 \<and> stop = length (bencode v)) \<and>
    (32 < nesting v \<longrightarrow> strings_fit v \<longrightarrow> item_count v \<le> 1024 \<longrightarrow>
      find_bencode_end (bencode v @ rest) = Some (Inl (str ''bencode nesting exceeds limit'')))"
proof -
  obtain r where r: "find_bencode_end (bencode v @ rest) = Some (map_sum (\<lambda>e. e) fst r)"
    "scan_answer (strings_fit v) (within_limits v 0) (item_count v) (length (bencode v)) r"
    by (rule find_end_answer [OF assms])
  have lim: "within_limits v 0 \<longleftrightarrow> strings_fit v \<and> nesting v \<le> 32" "MAX_BENCODE_ITEMS = 1024"
    by (simp_all add: within_limits_nesting MAX_BENCODE_DEPTH_def MAX_BENCODE_ITEMS_def)
  show ?thesis
  proof (cases r)
    case (Inl e)
    then show ?thesis using r find_end_bencode [OF assms] lim by (auto simp: nesting_error_def)
  next
    case (Inr x)
    then show ?thesis using r lim by auto
  qed
qed

lemma scanner_refuses_beyond_limits_witness:
  "find_bencode_end (bencode (nested 17) @ [1, 2]) = Some (Inl (str ''bencode nesting exceeds limit'')) \<and>
   find_bencode_end (bencode (nested 16) @ [1, 2]) = Some (Inr 162)"
  using scanner_refuses_beyond_limits [of "nested 17" "[1, 2]" 172]
    scanner_refuses_beyond_limits [of "nested 16" "[1, 2]" 162]
  by (simp add: nested_measures USIZE_MAX_def)

text \<open>
  C27: a BEP 9 data message, its bencoded dictionary followed by a block of any bytes, is
  answered as its piece number, its total size and exactly that block, given that the
  bencode library decodes the dictionary.
\<close>

theorem metadata_block_is_cut_exactly:
  assumes "dec (bencode (metadata_data_dict piece total_size)) = Inr (metadata_data_dict piece total_size)"
    "length (bencode (metadata_data_dict piece total_size) @ block) \<le> USIZE_MAX"
  shows "parse_metadata_response dec (bencode (metadata_data_dict piece total_size) @ block) =
    Some (Inr (piece, total_size, block))"
  by (rule metadata_data_round_trip) (use assms in simp_all)

lemma metadata_block_is_cut_exactly_witness:
  "parse_metadata_response (\<lambda>bs. Inr (metadata_data_dict 1 20000))
     (bencode (metadata_data_dict 1 20000) @ [100, 101]) = Some (Inr (1, 20000, [100, 101]))"
proof (rule metadata_block_is_cut_exactly)
  have "length (bencode (metadata_data_dict 1 20000)) = 45"
    by (simp add: metadata_data_dict_def sorted_list_fmmap metadata_sorted string_text_def int_text_def
        nat_text.simps)
  then show "length (bencode (metadata_data_dict 1 20000) @ [100, 101]) \<le> USIZE_MAX"
    by (simp add: USIZE_MAX_def)
qed simp

text \<open>
  C28: an extension handshake comes back from its dictionary, and whatever the parser
  accepts respects the bounds the fetcher relies on: extension ids at most 255, a metadata
  size of at most 64 mebibytes that is not zero, a request queue between 1 and 64.
\<close>

theorem extended_handshake_round_trip:
  assumes "dec bs = Inr (BDict (extended_to_dict h))" "extended_valid h"
  shows "extended_from_bytes dec bs = Some h \<and>
    (\<forall>data h'. extended_from_bytes dec data = Some h' \<longrightarrow> extended_valid h')"
  using extended_round_trip [of h dec bs] extended_from_bytes_valid assms by blast

definition ex_extended :: extended_handshake where
  "ex_extended = \<lparr>eh_m = fmupd (str ''ut_metadata'') 3 fmempty, eh_metadata_size = Some 31235,
     eh_v = None, eh_your_ip = None, eh_reqq = Some 16\<rparr>"

lemma extended_handshake_round_trip_witness:
  "extended_from_bytes (\<lambda>bs. Inr (BDict (extended_to_dict ex_extended))) [] = Some ex_extended"
proof -
  have "utf8_valid (str ''ut_metadata'')" by code_simp
  then have "extended_valid ex_extended"
    by (simp add: extended_valid_def ex_extended_def fmpred_upd)
  then show ?thesis
    using extended_handshake_round_trip
        [of "\<lambda>bs. Inr (BDict (extended_to_dict ex_extended))" "[]" ex_extended] by simp
qed

text \<open>
  The canonical form of integers is enforced for non-negative numbers only: a leading zero
  behind a minus sign, and minus zero, pass the scan.
\<close>

lemma scanner_integer_quirk:
  shows "find_bencode_end (str ''i03e'') = Some (Inl (str ''non-canonical bencode integer''))"
    and "find_bencode_end (str ''i-03e'') = Some (Inr 5)"
    and "find_bencode_end (str ''i-0e'') = Some (Inr 4)"
proof -
  have one: "find_bencode_end data = map_option (map_sum (\<lambda>e. e) fst) (scan_pos (parse_integer data 1) 1)"
    if "data ! 0 = 105" "data \<noteq> []" for data
    using that by (simp add: find_bencode_end_def scan_fuel_def parse_one.simps MAX_BENCODE_DEPTH_def
        MAX_BENCODE_ITEMS_def USIZE_MAX_def)
  have "parse_integer (str ''i03e'') 1 = Inl (str ''non-canonical bencode integer'')"
    "parse_integer (str ''i-03e'') 1 = Inr 5" "parse_integer (str ''i-0e'') 1 = Inr 4"
    by code_simp+
  moreover have "str ''i03e'' ! 0 = 105" "str ''i-03e'' ! 0 = 105" "str ''i-0e'' ! 0 = 105"
    by code_simp+
  moreover have "str ''i03e'' \<noteq> []" "str ''i-03e'' \<noteq> []" "str ''i-0e'' \<noteq> []"
    by code_simp+
  ultimately show "find_bencode_end (str ''i03e'') = Some (Inl (str ''non-canonical bencode integer''))"
    "find_bencode_end (str ''i-03e'') = Some (Inr 5)" "find_bencode_end (str ''i-0e'') = Some (Inr 4)"
    by (simp_all add: one scan_pos_def)
qed

end
