(* ===== verification/Routing.thy ===== *)
theory Routing
  imports Node_Types
begin

text \<open>
  The Kademlia routing table of \<^verbatim>\<open>src/src/routing.rs\<close>: buckets of at most \<open>K\<close> live
  contacts and \<open>K\<close> replacement candidates, each responsible for the identifiers with its
  prefix.  A bucket that is full and covers the local identifier is split; otherwise a
  newcomer becomes a candidate.  Every call that reads the clock takes a \<open>clock\<close> argument;
  \<open>bucket_index\<close> is \<open>None\<close> where the Rust code panics.
\<close>

subsection \<open>State\<close>

definition K :: nat where "K = 8"
definition BAD_AFTER_FAILURES :: u8 where "BAD_AFTER_FAILURES = 2"

datatype contact_state = Candidate | KnownGood | Questionable | Bad

record contact_record =
  cr_contact :: node_contact
  cr_unanswered :: u8

record bucket =
  b_prefix :: node_id
  b_prefix_len :: nat
  b_nodes :: "(node_id \<times> contact_record) list"
  b_replacements :: "node_contact list"
  b_last_changed :: instant

record routing_table =
  rt_our_id :: node_id
  rt_buckets :: "bucket list"
  rt_max_candidates :: nat

subsection \<open>Bits of an identifier\<close>

definition bit_value :: "node_id \<Rightarrow> nat \<Rightarrow> bool" where
  "bit_value i n \<longleftrightarrow> i ! (n div 8) AND drop_bit (n mod 8) 0x80 \<noteq> 0"

definition set_id_bit :: "node_id \<Rightarrow> nat \<Rightarrow> bool \<Rightarrow> node_id" where
  "set_id_bit i n value =
     (let mask = drop_bit (n mod 8) (0x80 :: u8) in
      if value then i[n div 8 := i ! (n div 8) OR mask]
      else i[n div 8 := i ! (n div 8) AND NOT mask])"

lemma mask_bit: "k < 8 \<Longrightarrow> drop_bit k (0x80 :: u8) = push_bit (7 - k) 1"
proof -
  assume "k < 8"
  then have "k \<in> {0, 1, 2, 3, 4, 5, 6, 7}" by auto
  then show ?thesis by auto
qed

lemma bit_value_bit: "bit_value i n \<longleftrightarrow> bit (i ! (n div 8)) (7 - n mod 8)"
proof -
  have m: "drop_bit (n mod 8) (0x80 :: u8) = push_bit (7 - n mod 8) 1"
    by (rule mask_bit) simp
  show ?thesis
    unfolding bit_value_def m by (simp add: and_nat_def bit_iff_and_push_bit_not_eq_0)
qed

lemma bit_value_set_same: "valid_id i \<Longrightarrow> n < 160 \<Longrightarrow> bit_value (set_id_bit i n True) n"
proof -
  assume a: "valid_id i" "n < 160"
  have "7 - n mod 8 < (8::nat)" by arith
  then show ?thesis using a by (simp add: bit_value_bit set_id_bit_def mask_bit bit_simps)
qed

lemma bit_value_set_other:
  "valid_id i \<Longrightarrow> n < 160 \<Longrightarrow> m < 160 \<Longrightarrow> m \<noteq> n \<Longrightarrow>
   bit_value (set_id_bit i n True) m = bit_value i m"
proof -
  assume a: "valid_id i" "n < 160" "m < 160" "m \<noteq> n"
  show ?thesis
  proof (cases "m div 8 = n div 8")
    case True
    then have "m mod 8 \<noteq> n mod 8" using a(4) by (metis div_mult_mod_eq)
    moreover have "m mod 8 < 8" "n mod 8 < 8" by simp_all
    ultimately have "7 - m mod 8 \<noteq> 7 - n mod 8" by arith
    then show ?thesis using a True
      by (simp add: bit_value_bit set_id_bit_def mask_bit bit_simps)
  next
    case False
    then show ?thesis using a by (simp add: bit_value_bit set_id_bit_def mask_bit)
  qed
qed

lemma length_set_id_bit [simp]: "length (set_id_bit i n v) = length i"
  by (simp add: set_id_bit_def Let_def)

lemma valid_set_id_bit [simp]: "valid_id (set_id_bit i n v) = valid_id i"
  by (simp add: valid_id_def)

subsection \<open>Buckets\<close>

definition new_bucket :: "clock \<Rightarrow> node_id \<Rightarrow> nat \<Rightarrow> bucket" where
  "new_bucket c prefix prefix_len =
     \<lparr>b_prefix = prefix, b_prefix_len = prefix_len, b_nodes = [], b_replacements = [],
      b_last_changed = ck_now c\<rparr>"

definition bucket_contains :: "bucket \<Rightarrow> node_id \<Rightarrow> bool" where
  "bucket_contains b i \<longleftrightarrow>
     list_all (\<lambda>n. bit_value (b_prefix b) n = bit_value i n) [0..<b_prefix_len b]"

definition bucket_state :: "clock \<Rightarrow> contact_record \<Rightarrow> duration \<Rightarrow> contact_state" where
  "bucket_state c record questionable_after =
     (if BAD_AFTER_FAILURES \<le> cr_unanswered record then Bad
      else if 0 < cr_unanswered record
              \<or> questionable_after < ck_now c - nc_last_seen (cr_contact record)
      then Questionable
      else KnownGood)"

subsection \<open>The table\<close>

definition with_candidate_capacity :: "clock \<Rightarrow> node_id \<Rightarrow> nat \<Rightarrow> routing_table" where
  "with_candidate_capacity c our_id max_candidates =
     \<lparr>rt_our_id = our_id, rt_buckets = [new_bucket c (replicate NODE_ID_LEN 0) 0],
      rt_max_candidates = max_candidates\<rparr>"

definition new_table :: "clock \<Rightarrow> node_id \<Rightarrow> routing_table" where
  "new_table c our_id = with_candidate_capacity c our_id 8192"

definition bucket_index :: "routing_table \<Rightarrow> node_id \<Rightarrow> nat option" where
  "bucket_index t i = position (\<lambda>b. bucket_contains b i) (rt_buckets t)"

definition set_bucket :: "nat \<Rightarrow> bucket \<Rightarrow> routing_table \<Rightarrow> routing_table" where
  "set_bucket j b t = t\<lparr>rt_buckets := (rt_buckets t)[j := b]\<rparr>"

definition place_node :: "node_id \<times> contact_record \<Rightarrow> bucket \<times> bucket \<Rightarrow> bucket \<times> bucket" where
  "place_node p lr =
     (case lr of (left, right) \<Rightarrow>
        if bucket_contains right (fst p)
        then (left, right\<lparr>b_nodes := bt_insert (fst p) (snd p) (b_nodes right)\<rparr>)
        else (left\<lparr>b_nodes := bt_insert (fst p) (snd p) (b_nodes left)\<rparr>, right))"

definition push_replacement :: "node_contact \<Rightarrow> bucket \<Rightarrow> bucket" where
  "push_replacement contact b =
     (if length (b_replacements b) < K
      then b\<lparr>b_replacements := b_replacements b @ [contact]\<rparr> else b)"

definition place_replacement :: "node_contact \<Rightarrow> bucket \<times> bucket \<Rightarrow> bucket \<times> bucket" where
  "place_replacement contact lr =
     (case lr of (left, right) \<Rightarrow>
        if bucket_contains right (nc_id contact) then (left, push_replacement contact right)
        else (push_replacement contact left, right))"

definition split_halves :: "clock \<Rightarrow> bucket \<Rightarrow> bucket \<times> bucket" where
  "split_halves c b =
     (let next_len = b_prefix_len b + 1;
          left = new_bucket c (b_prefix b) next_len;
          right = new_bucket c (set_id_bit (b_prefix b) (b_prefix_len b) True) next_len
      in fold place_replacement (b_replacements b) (fold place_node (b_nodes b) (left, right)))"

definition split_bucket :: "clock \<Rightarrow> nat \<Rightarrow> routing_table \<Rightarrow> routing_table" where
  "split_bucket c j t =
     (case split_halves c (rt_buckets t ! j) of (left, right) \<Rightarrow>
        t\<lparr>rt_buckets := take j (rt_buckets t) @ [left, right] @ drop (Suc j) (rt_buckets t)\<rparr>)"

definition node_count :: "routing_table \<Rightarrow> nat" where
  "node_count t = sum_list (map (\<lambda>b. length (b_nodes b)) (rt_buckets t))"

definition candidate_count :: "routing_table \<Rightarrow> nat" where
  "candidate_count t = sum_list (map (\<lambda>b. length (b_replacements b)) (rt_buckets t))"

definition bucket_count :: "routing_table \<Rightarrow> nat" where
  "bucket_count t = length (rt_buckets t)"

definition table_contains :: "routing_table \<Rightarrow> node_id \<Rightarrow> bool option" where
  "table_contains t i =
     do { j \<leftarrow> bucket_index t i; Some (map_of (b_nodes (rt_buckets t ! j)) i \<noteq> None) }"

text \<open>The \<open>while\<close> loop of \<open>add_candidate\<close> drops the oldest candidate of the first bucket
  that has one until the table is below its capacity.\<close>

definition drop_first_candidate :: "routing_table \<Rightarrow> routing_table option" where
  "drop_first_candidate t =
     (case position (\<lambda>b. b_replacements b \<noteq> []) (rt_buckets t) of
        None \<Rightarrow> None
      | Some j \<Rightarrow>
          (let b = rt_buckets t ! j in
           Some (set_bucket j (b\<lparr>b_replacements := tl (b_replacements b)\<rparr>) t)))"

lemma sum_list_update_less:
  "j < length xs \<Longrightarrow> f y < f (xs ! j) \<Longrightarrow>
   sum_list (map f (xs[j := y])) < (sum_list (map f xs) :: nat)"
proof (induction xs arbitrary: j)
  case (Cons x xs)
  then show ?case by (cases j) auto
qed simp

lemma drop_first_candidate_less:
  "drop_first_candidate t = Some t' \<Longrightarrow> candidate_count t' < candidate_count t"
  by (auto simp: drop_first_candidate_def candidate_count_def set_bucket_def Let_def
      dest!: position_SomeD intro!: sum_list_update_less split: option.splits)

function evict_candidates :: "routing_table \<Rightarrow> routing_table" where
  "evict_candidates t =
     (if rt_max_candidates t \<le> candidate_count t
      then (case drop_first_candidate t of Some t' \<Rightarrow> evict_candidates t' | None \<Rightarrow> t)
      else t)"
  by pat_completeness auto
termination
  by (relation "measure candidate_count") (auto simp: drop_first_candidate_less)

declare evict_candidates.simps [simp del]

definition add_candidate :: "node_contact \<Rightarrow> routing_table \<Rightarrow> (bool \<times> routing_table) option" where
  "add_candidate contact t =
     (if nc_id contact = rt_our_id t then Some (False, t)
      else do {
        live \<leftarrow> table_contains t (nc_id contact);
        if live then Some (False, t)
        else do {
          j \<leftarrow> bucket_index t (nc_id contact);
          if list_ex (\<lambda>e. nc_id e = nc_id contact \<or> nc_addr e = nc_addr contact)
               (b_replacements (rt_buckets t ! j))
          then Some (False, t)
          else
            (let t' = evict_candidates t;
                 b = rt_buckets t' ! j;
                 rs = (if K \<le> length (b_replacements b) then tl (b_replacements b)
                       else b_replacements b)
             in Some (True, set_bucket j (b\<lparr>b_replacements := rs @ [contact]\<rparr>) t'))
        }
      })"

definition fresh_contact :: "clock \<Rightarrow> node_id \<Rightarrow> socket_addr_v4 \<Rightarrow> node_contact" where
  "fresh_contact c i addr =
     \<lparr>nc_id = i, nc_addr = addr, nc_last_seen = ck_now c, nc_last_seen_unix = ck_unix c\<rparr>"

definition refresh_record ::
  "clock \<Rightarrow> socket_addr_v4 \<Rightarrow> contact_record \<Rightarrow> contact_record" where
  "refresh_record c addr r =
     \<lparr>cr_contact = (cr_contact r)\<lparr>nc_addr := addr, nc_last_seen := ck_now c,
        nc_last_seen_unix := ck_unix c\<rparr>, cr_unanswered = 0\<rparr>"

text \<open>
  \<open>mark_validated\<close> loops: it refreshes a contact it knows, inserts one a bucket has room
  for, splits the bucket around the local identifier, drops a bad contact, or keeps the
  newcomer as a candidate.  Splitting lengthens a prefix (at most 160 bits) and dropping
  removes a contact, so the loop ends from any table: \<open>split_weight\<close> and the number of live
  contacts decrease lexicographically.
\<close>

definition span :: "bucket \<Rightarrow> node_id \<times> nat" where
  "span b = (b_prefix b, b_prefix_len b)"

definition spans :: "bucket \<times> bucket \<Rightarrow> (node_id \<times> nat) \<times> (node_id \<times> nat)" where
  "spans lr = (span (fst lr), span (snd lr))"

lemma contains_span: "span b = span b' \<Longrightarrow> bucket_contains b i = bucket_contains b' i"
  by (simp add: span_def bucket_contains_def)

lemma spans_place_node: "spans (place_node p lr) = spans lr"
  by (cases lr) (simp add: place_node_def spans_def span_def)

lemma spans_place_replacement: "spans (place_replacement x lr) = spans lr"
  by (cases lr) (simp add: place_replacement_def push_replacement_def spans_def span_def)

lemma spans_fold_node: "spans (fold place_node ps lr) = spans lr"
  by (induction ps arbitrary: lr) (simp_all add: spans_place_node)

lemma spans_fold_replacement: "spans (fold place_replacement rs lr) = spans lr"
  by (induction rs arbitrary: lr) (simp_all add: spans_place_replacement)

lemma spans_split_halves:
  "spans (split_halves c b) =
     ((b_prefix b, Suc (b_prefix_len b)),
      (set_id_bit (b_prefix b) (b_prefix_len b) True, Suc (b_prefix_len b)))"
  by (simp add: split_halves_def Let_def spans_fold_node spans_fold_replacement)
    (simp add: spans_def span_def new_bucket_def)

lemma split_halves_span:
  assumes "split_halves c b = (l, r)"
  shows "span l = (b_prefix b, Suc (b_prefix_len b))"
    and "span r = (set_id_bit (b_prefix b) (b_prefix_len b) True, Suc (b_prefix_len b))"
  using spans_split_halves [of c b] by (simp_all add: assms spans_def)

definition bucket_weight :: "node_id \<Rightarrow> bucket \<Rightarrow> nat" where
  "bucket_weight our b =
     (if bucket_contains b our \<and> b_prefix_len b \<le> 160 then 3 ^ (160 - b_prefix_len b) else 0)"

definition split_weight :: "routing_table \<Rightarrow> nat" where
  "split_weight t = sum_list (map (bucket_weight (rt_our_id t)) (rt_buckets t))"

lemma bucket_weight_span: "span b = span b' \<Longrightarrow> bucket_weight our b = bucket_weight our b'"
  using contains_span [of b b' our] by (simp add: bucket_weight_def span_def)

lemma bucket_weight_le:
  assumes "b_prefix_len b = Suc n" "n < 160"
  shows "bucket_weight our b \<le> 3 ^ (159 - n)"
  using assms by (simp add: bucket_weight_def)

lemma sum_list_split_at:
  assumes "j < length xs"
  shows "sum_list (map f xs) = sum_list (map f (take j xs)) + f (xs ! j) +
           (sum_list (map f (drop (Suc j) xs)) :: nat)"
  using assms by (subst id_take_nth_drop [of j xs]) simp_all

lemma split_bucket_weight:
  assumes "j < length (rt_buckets t)"
    and "bucket_contains (rt_buckets t ! j) (rt_our_id t)"
    and "b_prefix_len (rt_buckets t ! j) < 160"
  shows "split_weight (split_bucket c j t) < split_weight t"
proof -
  let ?b = "rt_buckets t ! j" and ?w = "bucket_weight (rt_our_id t)"
  obtain l r where lr: "split_halves c ?b = (l, r)" by fastforce
  have "?w l \<le> 3 ^ (159 - b_prefix_len ?b)" "?w r \<le> 3 ^ (159 - b_prefix_len ?b)"
    using split_halves_span [OF lr] assms(3) by (auto intro!: bucket_weight_le simp: span_def)
  moreover have "160 - b_prefix_len ?b = Suc (159 - b_prefix_len ?b)" using assms(3) by simp
  then have "?w ?b = 3 * 3 ^ (159 - b_prefix_len ?b)" using assms by (simp add: bucket_weight_def)
  ultimately have "?w l + ?w r < ?w ?b" using zero_less_power [of "3::nat" "159 - b_prefix_len ?b"]
    by linarith
  then show ?thesis
    using sum_list_split_at [OF assms(1), of ?w] by (simp add: split_weight_def split_bucket_def lr)
qed

lemma split_weight_set_bucket:
  assumes "j < length (rt_buckets t)" "span b = span (rt_buckets t ! j)"
  shows "split_weight (set_bucket j b t) = split_weight t"
proof -
  have "map (bucket_weight (rt_our_id t)) ((rt_buckets t)[j := b]) =
        map (bucket_weight (rt_our_id t)) (rt_buckets t)"
    using bucket_weight_span [OF assms(2)] assms(1) by (simp add: map_update list_update_same_conv)
  then show ?thesis by (simp add: split_weight_def set_bucket_def)
qed

definition remove_node :: "node_id \<Rightarrow> bucket \<Rightarrow> bucket" where
  "remove_node i b = b\<lparr>b_nodes := AList.delete i (b_nodes b)\<rparr>"

lemma remove_node_count:
  assumes "j < length (rt_buckets t)" "i \<in> set (keys (b_nodes (rt_buckets t ! j)))"
  shows "node_count (set_bucket j (remove_node i (rt_buckets t ! j)) t) < node_count t"
proof -
  have "length (AList.delete i (b_nodes (rt_buckets t ! j))) < length (b_nodes (rt_buckets t ! j))"
    by (rule length_delete_less [OF assms(2)])
  then show ?thesis
    unfolding node_count_def set_bucket_def using assms(1)
    by (simp add: sum_list_update_less remove_node_def)
qed

definition find_bad :: "bucket \<Rightarrow> node_id option" where
  "find_bad b =
     map_option fst (find (\<lambda>p. BAD_AFTER_FAILURES \<le> cr_unanswered (snd p)) (b_nodes b))"

lemma find_bad_key: "find_bad b = Some i \<Longrightarrow> i \<in> set (keys (b_nodes b))"
  by (auto simp: find_bad_def find_Some_iff) (metis fst_conv image_eqI nth_mem)

function mark_loop ::
  "clock \<Rightarrow> node_id \<Rightarrow> socket_addr_v4 \<Rightarrow> routing_table \<Rightarrow> (bool \<times> routing_table) option" where
  "mark_loop c i addr t =
     (case bucket_index t i of
        None \<Rightarrow> None
      | Some j \<Rightarrow>
         (let b = rt_buckets t ! j in
          case map_of (b_nodes b) i of
            Some r \<Rightarrow>
              Some (False, set_bucket j (b\<lparr>b_nodes := bt_insert i (refresh_record c addr r) (b_nodes b)\<rparr>) t)
          | None \<Rightarrow>
              if length (b_nodes b) < K then
                Some (True, set_bucket j
                  (b\<lparr>b_replacements := filter (\<lambda>x. nc_id x \<noteq> i) (b_replacements b),
                     b_nodes := bt_insert i \<lparr>cr_contact = fresh_contact c i addr, cr_unanswered = 0\<rparr>
                                  (b_nodes b),
                     b_last_changed := ck_now c\<rparr>) t)
              else if bucket_contains b (rt_our_id t) \<and> b_prefix_len b < NODE_ID_LEN * 8 then
                mark_loop c i addr (split_bucket c j t)
              else
                (case find_bad b of
                   Some bad \<Rightarrow> mark_loop c i addr (set_bucket j (remove_node bad b) t)
                 | None \<Rightarrow>
                     (case add_candidate (fresh_contact c i addr) t of
                        None \<Rightarrow> None
                      | Some (_, t') \<Rightarrow> Some (False, t')))))"
  by pat_completeness auto
termination
proof (relation "measures [\<lambda>(c, i, addr, t). split_weight t, \<lambda>(c, i, addr, t). node_count t]",
    goal_cases)
  case 1
  then show ?case by simp
next
  case (2 c i addr t j b)
  then show ?case
    by (auto simp: bucket_index_def NODE_ID_LEN_def intro!: split_bucket_weight dest!: position_SomeD)
next
  case (3 c i addr t j b bad)
  then have "j < length (rt_buckets t)" by (auto simp: bucket_index_def dest!: position_SomeD)
  moreover have "span (remove_node bad b) = span b" by (simp add: span_def remove_node_def)
  ultimately show ?case
    using 3 remove_node_count [of j t bad] find_bad_key [of b bad]
    by (simp add: split_weight_set_bucket)
qed

declare mark_loop.simps [simp del]

definition mark_validated ::
  "clock \<Rightarrow> node_id \<Rightarrow> socket_addr_v4 \<Rightarrow> routing_table \<Rightarrow> (bool \<times> routing_table) option" where
  "mark_validated c i addr t =
     (if i = rt_our_id t then Some (False, t) else mark_loop c i addr t)"

definition add_node ::
  "clock \<Rightarrow> node_id \<Rightarrow> socket_addr_v4 \<Rightarrow> routing_table \<Rightarrow> (bool \<times> routing_table) option" where
  "add_node c i addr t = mark_validated c i addr t"

definition saturating_inc_u8 :: "u8 \<Rightarrow> u8" where
  "saturating_inc_u8 u = (if u = 255 then 255 else u + 1)"

definition record_failure :: "clock \<Rightarrow> node_id \<Rightarrow> routing_table \<Rightarrow> routing_table option" where
  "record_failure c i t = do {
     j \<leftarrow> bucket_index t i;
     (let b = rt_buckets t ! j in
      case map_of (b_nodes b) i of
        None \<Rightarrow> Some t
      | Some r \<Rightarrow>
          (let u = saturating_inc_u8 (cr_unanswered r);
               b' = b\<lparr>b_nodes := bt_insert i (r\<lparr>cr_unanswered := u\<rparr>) (b_nodes b)\<rparr>
           in Some (set_bucket j
                (if BAD_AFTER_FAILURES \<le> u then (remove_node i b')\<lparr>b_last_changed := ck_now c\<rparr>
                 else b') t)))
   }"

definition contact_state_of ::
  "clock \<Rightarrow> routing_table \<Rightarrow> node_id \<Rightarrow> duration \<Rightarrow> contact_state option option" where
  "contact_state_of c t i questionable_after = do {
     j \<leftarrow> bucket_index t i;
     (let b = rt_buckets t ! j in
      Some (case map_of (b_nodes b) i of
              Some r \<Rightarrow> Some (bucket_state c r questionable_after)
            | None \<Rightarrow> if list_ex (\<lambda>x. nc_id x = i) (b_replacements b) then Some Candidate else None))
   }"

definition live_contacts :: "routing_table \<Rightarrow> node_contact list" where
  "live_contacts t = concat (map (\<lambda>b. map (\<lambda>p. cr_contact (snd p)) (b_nodes b)) (rt_buckets t))"

definition candidates :: "routing_table \<Rightarrow> node_contact list" where
  "candidates t = concat (map b_replacements (rt_buckets t))"

definition closest :: "node_id \<Rightarrow> nat \<Rightarrow> node_contact list \<Rightarrow> node_contact list" where
  "closest target count all = take count (sort_key (\<lambda>n. node_id_distance (nc_id n) target) all)"

definition closest_nodes :: "routing_table \<Rightarrow> node_id \<Rightarrow> nat \<Rightarrow> node_contact list" where
  "closest_nodes t target count = closest target count (live_contacts t)"

definition closest_candidates :: "routing_table \<Rightarrow> node_id \<Rightarrow> nat \<Rightarrow> node_contact list" where
  "closest_candidates t target count = closest target count (candidates t)"

text \<open>\<open>choose_multiple\<close> of the crate \<open>rand\<close> is the parameter \<open>pick\<close>.\<close>

definition random_nodes ::
  "(nat \<Rightarrow> node_contact list \<Rightarrow> node_contact list) \<Rightarrow> routing_table \<Rightarrow> nat \<Rightarrow> node_contact list" where
  "random_nodes pick t count =
     (let all = live_contacts t in pick (min count (length all)) all)"

subsection \<open>Prefixes partition the identifiers\<close>

definition span_ok :: "bucket \<Rightarrow> bool" where
  "span_ok b \<longleftrightarrow> valid_id (b_prefix b) \<and> b_prefix_len b \<le> 160 \<and>
     (\<forall>n. b_prefix_len b \<le> n \<and> n < 160 \<longrightarrow> \<not> bit_value (b_prefix b) n)"

lemma bucket_contains_iff:
  "bucket_contains b i \<longleftrightarrow> (\<forall>n<b_prefix_len b. bit_value (b_prefix b) n = bit_value i n)"
  by (auto simp: bucket_contains_def list_all_iff)

lemma span_ok_cong: "span b = span b' \<Longrightarrow> span_ok b = span_ok b'"
  by (simp add: span_def span_ok_def)

lemma split_halves_left:
  assumes "split_halves c b = (l, r)" "span_ok b" "b_prefix_len b < 160"
  shows "span_ok l" and "bucket_contains l i \<longleftrightarrow> bucket_contains b i \<and> \<not> bit_value i (b_prefix_len b)"
  using split_halves_span(1) [OF assms(1)] assms(2,3)
  by (auto simp: span_def span_ok_def bucket_contains_iff less_Suc_eq)

lemma split_halves_right:
  assumes "split_halves c b = (l, r)" "span_ok b" "b_prefix_len b < 160"
  shows "span_ok r" and "bucket_contains r i \<longleftrightarrow> bucket_contains b i \<and> bit_value i (b_prefix_len b)"
proof -
  have p: "b_prefix r = set_id_bit (b_prefix b) (b_prefix_len b) True"
    and n: "b_prefix_len r = Suc (b_prefix_len b)"
    using split_halves_span(2) [OF assms(1)] by (auto simp: span_def)
  have v: "valid_id (b_prefix b)" using assms(2) by (simp add: span_ok_def)
  have other: "m < 160 \<Longrightarrow> m \<noteq> b_prefix_len b \<Longrightarrow> bit_value (b_prefix r) m = bit_value (b_prefix b) m" for m
    using bit_value_set_other [OF v assms(3)] by (simp add: p)
  have same: "bit_value (b_prefix r) (b_prefix_len b)"
    using bit_value_set_same [OF v assms(3)] by (simp add: p)
  show "span_ok r"
    using assms(2,3) other v by (auto simp: span_ok_def n p)
  show "bucket_contains r i \<longleftrightarrow> bucket_contains b i \<and> bit_value i (b_prefix_len b)"
    using assms(3) other same by (auto simp: bucket_contains_iff n less_Suc_eq)
qed

definition covers :: "bucket list \<Rightarrow> bool" where
  "covers bs \<longleftrightarrow> (\<forall>i. valid_id i \<longrightarrow> length (filter (\<lambda>b. bucket_contains b i) bs) = 1)"

lemma covers_cong:
  assumes "\<And>i. map (\<lambda>b. bucket_contains b i) bs = map (\<lambda>b. bucket_contains b i) bs'"
  shows "covers bs = covers bs'"
proof -
  have e: "length (filter (\<lambda>b. bucket_contains b i) xs) =
      length (filter id (map (\<lambda>b. bucket_contains b i) xs))" for xs i
    by (simp add: filter_map comp_def)
  show ?thesis unfolding covers_def e assms ..
qed

lemma covers_unique:
  assumes "covers bs" "valid_id i" "j < length bs" "k < length bs"
    and "bucket_contains (bs ! j) i" "bucket_contains (bs ! k) i"
  shows "j = k"
proof -
  have "card {j. j < length bs \<and> bucket_contains (bs ! j) i} = 1"
    using assms(1,2) by (simp add: covers_def length_filter_conv_card)
  then obtain x where x: "{j. j < length bs \<and> bucket_contains (bs ! j) i} = {x}"
    by (rule card_1_singletonE)
  have "j \<in> {x}" "k \<in> {x}" unfolding x [symmetric] using assms by simp_all
  then show ?thesis by simp
qed

lemma bucket_index_Some:
  assumes "covers (rt_buckets t)" "valid_id i"
  obtains j where "bucket_index t i = Some j" "j < length (rt_buckets t)"
    "bucket_contains (rt_buckets t ! j) i"
proof (cases "bucket_index t i")
  case None
  then have "filter (\<lambda>b. bucket_contains b i) (rt_buckets t) = []"
    by (simp add: bucket_index_def position_None filter_empty_conv)
  with assms show ?thesis by (auto simp: covers_def dest!: spec [of _ i])
next
  case (Some j)
  with that show ?thesis by (auto simp: bucket_index_def dest: position_SomeD)
qed

lemma bucket_index_eqI:
  assumes "covers (rt_buckets t)" "valid_id i" "j < length (rt_buckets t)"
    "bucket_contains (rt_buckets t ! j) i"
  shows "bucket_index t i = Some j"
  by (rule bucket_index_Some [OF assms(1,2)]) (use covers_unique [OF assms(1,2)] assms(3,4) in auto)

lemma covers_update:
  assumes "covers bs" "j < length bs" "span b = span (bs ! j)"
  shows "covers (bs[j := b])"
proof -
  have "length (filter (\<lambda>b. bucket_contains b i) (bs[j := b])) =
        length (filter (\<lambda>b. bucket_contains b i) bs)" for i
  proof -
    have "map (\<lambda>b. bucket_contains b i) (bs[j := b]) = map (\<lambda>b. bucket_contains b i) bs"
      using contains_span [OF assms(3), of i] assms(2) by (simp add: map_update list_update_same_conv)
    then have "filter (\<lambda>x. x) (map (\<lambda>b. bucket_contains b i) (bs[j := b])) =
        filter (\<lambda>x. x) (map (\<lambda>b. bucket_contains b i) bs)" by simp
    then show ?thesis by (simp add: filter_map comp_def) (metis length_map)
  qed
  with assms(1) show ?thesis by (simp add: covers_def)
qed

lemma covers_split:
  assumes "covers bs" "j < length bs" "split_halves c (bs ! j) = (l, r)"
    "span_ok (bs ! j)" "b_prefix_len (bs ! j) < 160"
  shows "covers (take j bs @ [l, r] @ drop (Suc j) bs)"
proof -
  have "length (filter (\<lambda>b. bucket_contains b i) (take j bs @ [l, r] @ drop (Suc j) bs)) =
        length (filter (\<lambda>b. bucket_contains b i) bs)" for i
    using split_halves_left(2) [OF assms(3-5), of i] split_halves_right(2) [OF assms(3-5), of i]
      arg_cong [where f = "\<lambda>bs. length (filter (\<lambda>b. bucket_contains b i) bs)",
        OF id_take_nth_drop [OF assms(2)]]
    by auto
  with assms(1) show ?thesis by (simp add: covers_def)
qed

subsection \<open>What a split keeps\<close>

lemma bt_insert_append:
  "\<forall>k'\<in>set (keys m). k' < k \<Longrightarrow> bt_insert k v m = m @ [(k, v)]"
  by (induction m) auto

lemma fold_place_node_eq:
  assumes "bt_sorted (b_nodes l @ ps)" "bt_sorted (b_nodes r @ ps)"
  shows "fold place_node ps (l, r) =
    (l\<lparr>b_nodes := b_nodes l @ filter (\<lambda>p. \<not> bucket_contains r (fst p)) ps\<rparr>,
     r\<lparr>b_nodes := b_nodes r @ filter (\<lambda>p. bucket_contains r (fst p)) ps\<rparr>)"
  using assms
proof (induction ps arbitrary: l r)
  case Nil
  then show ?case by simp
next
  case (Cons p ps)
  have lt: "\<forall>k\<in>set (keys (b_nodes l)). k < fst p" "\<forall>k\<in>set (keys (b_nodes r)). k < fst p"
    using Cons.prems by (auto simp: bt_sorted_def sorted_wrt_append)
  have srt: "bt_sorted (b_nodes l @ ps)" "bt_sorted (b_nodes r @ ps)"
    "bt_sorted (b_nodes l @ [(fst p, snd p)] @ ps)" "bt_sorted (b_nodes r @ [(fst p, snd p)] @ ps)"
    using Cons.prems by (auto simp: bt_sorted_def sorted_wrt_append)
  show ?case
  proof (cases "bucket_contains r (fst p)")
    case True
    let ?r = "r\<lparr>b_nodes := b_nodes r @ [(fst p, snd p)]\<rparr>"
    have "place_node p (l, r) = (l, ?r)"
      using True lt(2) by (simp add: place_node_def bt_insert_append)
    moreover have "bucket_contains ?r = bucket_contains r"
      by (rule ext, rule contains_span) (simp add: span_def)
    ultimately show ?thesis using Cons.IH [of l ?r] srt True by simp
  next
    case False
    let ?l = "l\<lparr>b_nodes := b_nodes l @ [(fst p, snd p)]\<rparr>"
    have "place_node p (l, r) = (?l, r)"
      using False lt(1) by (simp add: place_node_def bt_insert_append)
    then show ?thesis using Cons.IH [of ?l r] srt False by simp
  qed
qed

lemma fold_place_replacement_eq:
  assumes "length (b_replacements l) + length rs \<le> K" "length (b_replacements r) + length rs \<le> K"
  shows "fold place_replacement rs (l, r) =
    (l\<lparr>b_replacements := b_replacements l @ filter (\<lambda>x. \<not> bucket_contains r (nc_id x)) rs\<rparr>,
     r\<lparr>b_replacements := b_replacements r @ filter (\<lambda>x. bucket_contains r (nc_id x)) rs\<rparr>)"
  using assms
proof (induction rs arbitrary: l r)
  case Nil
  then show ?case by simp
next
  case (Cons x rs)
  show ?case
  proof (cases "bucket_contains r (nc_id x)")
    case True
    let ?r = "r\<lparr>b_replacements := b_replacements r @ [x]\<rparr>"
    have "place_replacement x (l, r) = (l, ?r)"
      using True Cons.prems by (simp add: place_replacement_def push_replacement_def)
    moreover have "bucket_contains ?r = bucket_contains r"
      by (rule ext, rule contains_span) (simp add: span_def)
    ultimately show ?thesis using Cons.IH [of l ?r] Cons.prems True by simp
  next
    case False
    let ?l = "l\<lparr>b_replacements := b_replacements l @ [x]\<rparr>"
    have "place_replacement x (l, r) = (?l, r)"
      using False Cons.prems by (simp add: place_replacement_def push_replacement_def)
    then show ?thesis using Cons.IH [of ?l r] Cons.prems False by simp
  qed
qed

definition nodes_ok :: "node_id \<Rightarrow> bucket \<Rightarrow> bool" where
  "nodes_ok our b \<longleftrightarrow> bt_sorted (b_nodes b) \<and> length (b_nodes b) \<le> K \<and>
     (\<forall>(k, r)\<in>set (b_nodes b). nc_id (cr_contact r) = k \<and> valid_id k \<and> bucket_contains b k
        \<and> k \<noteq> our \<and> cr_unanswered r < BAD_AFTER_FAILURES)"

definition replacements_ok :: "node_id \<Rightarrow> bucket \<Rightarrow> bool" where
  "replacements_ok our b \<longleftrightarrow> length (b_replacements b) \<le> K \<and>
     distinct (map nc_id (b_replacements b)) \<and>
     (\<forall>x\<in>set (b_replacements b). valid_id (nc_id x) \<and> bucket_contains b (nc_id x)
        \<and> nc_id x \<noteq> our \<and> nc_id x \<notin> fst ` set (b_nodes b))"

definition bucket_ok :: "node_id \<Rightarrow> bucket \<Rightarrow> bool" where
  "bucket_ok our b \<longleftrightarrow> span_ok b \<and> nodes_ok our b \<and> replacements_ok our b"

lemma split_halves_content:
  assumes "split_halves c b = (l, r)" "bt_sorted (b_nodes b)" "length (b_replacements b) \<le> K"
  shows "b_nodes l = filter (\<lambda>p. \<not> bucket_contains r (fst p)) (b_nodes b)"
    and "b_nodes r = filter (\<lambda>p. bucket_contains r (fst p)) (b_nodes b)"
    and "b_replacements l = filter (\<lambda>x. \<not> bucket_contains r (nc_id x)) (b_replacements b)"
    and "b_replacements r = filter (\<lambda>x. bucket_contains r (nc_id x)) (b_replacements b)"
proof -
  let ?l = "new_bucket c (b_prefix b) (b_prefix_len b + 1)"
  let ?r = "new_bucket c (set_id_bit (b_prefix b) (b_prefix_len b) True) (b_prefix_len b + 1)"
  have sp: "span r = span ?r"
    using split_halves_span(2) [OF assms(1)] by (simp add: span_def new_bucket_def)
  have cont: "bucket_contains x = bucket_contains r" if "span x = span ?r" for x
    by (rule ext, rule contains_span) (simp add: that sp)
  have n: "fold place_node (b_nodes b) (?l, ?r) =
      (?l\<lparr>b_nodes := filter (\<lambda>p. \<not> bucket_contains r (fst p)) (b_nodes b)\<rparr>,
       ?r\<lparr>b_nodes := filter (\<lambda>p. bucket_contains r (fst p)) (b_nodes b)\<rparr>)" (is "_ = (?l1, ?r1)")
    using fold_place_node_eq [of ?l "b_nodes b" ?r] assms(2) cont [of ?r]
    by (simp add: new_bucket_def)
  have "fold place_replacement (b_replacements b) (?l1, ?r1) =
      (?l1\<lparr>b_replacements := filter (\<lambda>x. \<not> bucket_contains r (nc_id x)) (b_replacements b)\<rparr>,
       ?r1\<lparr>b_replacements := filter (\<lambda>x. bucket_contains r (nc_id x)) (b_replacements b)\<rparr>)"
    using fold_place_replacement_eq [of ?l1 "b_replacements b" ?r1] assms(3) cont [of ?r1]
    by (simp add: new_bucket_def span_def)
  then have "split_halves c b =
      (?l1\<lparr>b_replacements := filter (\<lambda>x. \<not> bucket_contains r (nc_id x)) (b_replacements b)\<rparr>,
       ?r1\<lparr>b_replacements := filter (\<lambda>x. bucket_contains r (nc_id x)) (b_replacements b)\<rparr>)"
    by (simp only: split_halves_def Let_def n)
  then have l: "l = ?l1\<lparr>b_replacements := filter (\<lambda>x. \<not> bucket_contains r (nc_id x)) (b_replacements b)\<rparr>"
    and r: "r = ?r1\<lparr>b_replacements := filter (\<lambda>x. bucket_contains r (nc_id x)) (b_replacements b)\<rparr>"
    using assms(1) by simp_all
  show "b_nodes l = filter (\<lambda>p. \<not> bucket_contains r (fst p)) (b_nodes b)"
    and "b_replacements l = filter (\<lambda>x. \<not> bucket_contains r (nc_id x)) (b_replacements b)"
    by (subst l, simp)+
  show "b_nodes r = filter (\<lambda>p. bucket_contains r (fst p)) (b_nodes b)"
    and "b_replacements r = filter (\<lambda>x. bucket_contains r (nc_id x)) (b_replacements b)"
    by (subst r, simp)+
qed

lemma bucket_ok_split:
  assumes "bucket_ok our b" "b_prefix_len b < 160" "split_halves c b = (l, r)"
  shows "bucket_ok our l" "bucket_ok our r"
proof -
  have sp: "span_ok b" and n: "nodes_ok our b" and rp: "replacements_ok our b"
    using assms(1) by (auto simp: bucket_ok_def)
  have srt: "bt_sorted (b_nodes b)" using n by (simp add: nodes_ok_def)
  have len: "length (b_replacements b) \<le> K" using rp by (simp add: replacements_ok_def)
  note content = split_halves_content [OF assms(3) srt len]
  note left = split_halves_left [OF assms(3) sp assms(2)]
  note right = split_halves_right [OF assms(3) sp assms(2)]
  have le: "length (filter P xs) \<le> K" if "length xs \<le> K" for P and xs :: "'x list"
    using that length_filter_le [of P xs] by linarith
  have lc: "bucket_contains l i \<longleftrightarrow> bucket_contains b i \<and> \<not> bucket_contains r i" for i
    using left(2) right(2) by auto
  show "bucket_ok our l"
    using n rp left(1) lc unfolding bucket_ok_def nodes_ok_def replacements_ok_def content
    by (auto simp: bt_sorted_filter le distinct_map_filter)
  show "bucket_ok our r"
    using n rp right unfolding bucket_ok_def nodes_ok_def replacements_ok_def content
    by (auto simp: bt_sorted_filter le distinct_map_filter)
qed

subsection \<open>The invariant of the table\<close>

definition rt_core :: "routing_table \<Rightarrow> bool" where
  "rt_core t \<longleftrightarrow> valid_id (rt_our_id t) \<and> covers (rt_buckets t) \<and>
     (\<forall>b\<in>set (rt_buckets t). bucket_ok (rt_our_id t) b) \<and>
     (\<forall>b\<in>set (rt_buckets t). bucket_contains b (rt_our_id t) \<longrightarrow>
        length (rt_buckets t) = Suc (b_prefix_len b))"

definition rt_inv :: "routing_table \<Rightarrow> bool" where
  "rt_inv t \<longleftrightarrow> rt_core t \<and> candidate_count t \<le> max 1 (rt_max_candidates t)"

lemma rt_inv_core: "rt_inv t \<Longrightarrow> rt_core t"
  by (simp add: rt_inv_def)

lemma rt_inv_init: "valid_id our \<Longrightarrow> rt_inv (with_candidate_capacity c our m)"
proof -
  assume v: "valid_id our"
  have z: "\<not> bit_value (replicate NODE_ID_LEN 0) n" if "n < 160" for n
  proof -
    have "n div 8 < 20" using that by simp
    then show ?thesis by (simp add: bit_value_def NODE_ID_LEN_def)
  qed
  then show ?thesis using v
    by (simp add: rt_inv_def rt_core_def with_candidate_capacity_def candidate_count_def covers_def
        bucket_contains_iff new_bucket_def bucket_ok_def span_ok_def nodes_ok_def replacements_ok_def
        valid_id_def)
qed

lemma rt_coreD:
  assumes "rt_core t" "j < length (rt_buckets t)"
  shows "bucket_ok (rt_our_id t) (rt_buckets t ! j)"
  using assms by (simp add: rt_core_def)

lemma rt_core_node:
  assumes "rt_core t" "b \<in> set (rt_buckets t)" "p \<in> set (b_nodes b)"
  shows "bucket_contains b (fst p)" "valid_id (fst p)" "fst p \<noteq> rt_our_id t"
    "nc_id (cr_contact (snd p)) = fst p" "cr_unanswered (snd p) < BAD_AFTER_FAILURES"
proof -
  have "nodes_ok (rt_our_id t) b" using assms(1,2) by (simp add: rt_core_def bucket_ok_def)
  with assms(3) show "bucket_contains b (fst p)" "valid_id (fst p)" "fst p \<noteq> rt_our_id t"
    "nc_id (cr_contact (snd p)) = fst p" "cr_unanswered (snd p) < BAD_AFTER_FAILURES"
    by (auto simp: nodes_ok_def)
qed

lemma rt_index:
  assumes "rt_core t" "valid_id i"
  obtains j where "bucket_index t i = Some j" "j < length (rt_buckets t)"
    "bucket_contains (rt_buckets t ! j) i" "bucket_ok (rt_our_id t) (rt_buckets t ! j)"
  by (rule bucket_index_Some [of t i]) (use assms rt_coreD in \<open>auto simp: rt_core_def\<close>)

lemma set_bucket_simps [simp]:
  "rt_our_id (set_bucket j b t) = rt_our_id t"
  "rt_max_candidates (set_bucket j b t) = rt_max_candidates t"
  "rt_buckets (set_bucket j b t) = (rt_buckets t)[j := b]"
  by (simp_all add: set_bucket_def)

lemma candidate_count_set_bucket:
  assumes "j < length (rt_buckets t)"
  shows "candidate_count (set_bucket j b t) + length (b_replacements (rt_buckets t ! j)) =
         candidate_count t + length (b_replacements b)"
proof -
  let ?f = "\<lambda>b. length (b_replacements b)"
  have "sum_list (map ?f ((rt_buckets t)[j := b])) + ?f (rt_buckets t ! j) =
        sum_list (map ?f (rt_buckets t)) + ?f b"
    using sum_list_split_at [of j "rt_buckets t" ?f] sum_list_split_at [of j "(rt_buckets t)[j := b]" ?f]
      assms by simp
  then show ?thesis by (simp add: candidate_count_def)
qed

lemma rt_core_set_bucket:
  assumes "rt_core t" "j < length (rt_buckets t)" "span b = span (rt_buckets t ! j)"
    "bucket_ok (rt_our_id t) b"
  shows "rt_core (set_bucket j b t)"
proof -
  let ?bs = "(rt_buckets t)[j := b]"
  have "covers ?bs" using assms covers_update by (simp add: rt_core_def)
  moreover have "\<forall>x\<in>set ?bs. bucket_ok (rt_our_id t) x"
    using assms by (auto simp: rt_core_def dest!: set_update_subset_insert [THEN subsetD])
  moreover have "length ?bs = Suc (b_prefix_len x)"
    if "x \<in> set ?bs" "bucket_contains x (rt_our_id t)" for x
  proof (cases "x = b")
    case True
    with that have "bucket_contains (rt_buckets t ! j) (rt_our_id t)"
      using contains_span [OF assms(3)] by simp
    then have "length (rt_buckets t) = Suc (b_prefix_len (rt_buckets t ! j))"
      using assms(1,2) by (simp add: rt_core_def)
    with True assms(3) show ?thesis by (simp add: span_def)
  next
    case False
    with that have "x \<in> set (rt_buckets t)"
      by (auto dest!: set_update_subset_insert [THEN subsetD])
    with that assms(1) show ?thesis by (simp add: rt_core_def)
  qed
  ultimately show ?thesis using assms(1) by (simp add: rt_core_def)
qed

text \<open>Evicting candidates: \<open>shrunk t t'\<close> says that \<open>t'\<close> is \<open>t\<close> with some of the oldest
  candidates of its buckets gone.\<close>

definition shrunk :: "routing_table \<Rightarrow> routing_table \<Rightarrow> bool" where
  "shrunk t t' \<longleftrightarrow> rt_our_id t' = rt_our_id t \<and> rt_max_candidates t' = rt_max_candidates t \<and>
     length (rt_buckets t') = length (rt_buckets t) \<and>
     (\<forall>j<length (rt_buckets t). \<exists>n.
        rt_buckets t' ! j = (rt_buckets t ! j)\<lparr>b_replacements := drop n (b_replacements (rt_buckets t ! j))\<rparr>)"

lemma shrunk_refl: "shrunk t t"
  by (auto simp: shrunk_def intro: exI [of _ 0])

lemma shrunk_drop:
  assumes "shrunk t t1" "drop_first_candidate t1 = Some t'"
  shows "shrunk t t'"
proof -
  obtain j where j: "j < length (rt_buckets t1)"
    and t': "t' = set_bucket j ((rt_buckets t1 ! j)\<lparr>b_replacements := tl (b_replacements (rt_buckets t1 ! j))\<rparr>) t1"
    using assms(2) by (auto simp: drop_first_candidate_def Let_def dest!: position_SomeD
        split: option.splits)
  have "\<exists>n. rt_buckets t' ! k =
      (rt_buckets t ! k)\<lparr>b_replacements := drop n (b_replacements (rt_buckets t ! k))\<rparr>"
    if k: "k < length (rt_buckets t)" for k
  proof -
    obtain n where n: "rt_buckets t1 ! k =
        (rt_buckets t ! k)\<lparr>b_replacements := drop n (b_replacements (rt_buckets t ! k))\<rparr>"
      using assms(1) k by (auto simp: shrunk_def)
    show ?thesis
    proof (cases "k = j")
      case True
      then show ?thesis using n t' j by (intro exI [of _ "Suc n"]) (simp add: drop_Suc tl_drop)
    next
      case False
      then show ?thesis using n t' by (intro exI [of _ n]) simp
    qed
  qed
  then show ?thesis using assms(1) t' by (simp add: shrunk_def)
qed

lemma shrunk_evict: "shrunk t t1 \<Longrightarrow> shrunk t (evict_candidates t1)"
proof (induction t1 rule: evict_candidates.induct)
  case (1 t1)
  then show ?case
    by (subst evict_candidates.simps) (auto split: option.splits intro: shrunk_drop)
qed

lemma evict_candidates_count:
  "candidate_count (evict_candidates t) < rt_max_candidates t \<or> candidate_count (evict_candidates t) = 0"
proof (induction t rule: evict_candidates.induct)
  case (1 t)
  show ?case
  proof (cases "rt_max_candidates t \<le> candidate_count t")
    case True
    show ?thesis
    proof (cases "drop_first_candidate t")
      case None
      then have "\<forall>b\<in>set (rt_buckets t). b_replacements b = []"
        by (auto simp: drop_first_candidate_def Let_def position_None split: option.splits)
      then have "candidate_count t = 0" by (simp add: candidate_count_def)
      with None True show ?thesis by (subst (1 2) evict_candidates.simps) simp
    next
      case (Some t')
      have "rt_max_candidates t' = rt_max_candidates t"
        using shrunk_drop [OF shrunk_refl Some] by (simp add: shrunk_def)
      with Some True 1 show ?thesis by (subst (1 2) evict_candidates.simps) simp
    qed
  next
    case False
    then show ?thesis by (subst (1 2) evict_candidates.simps) simp
  qed
qed

lemma bucket_ok_drop:
  "bucket_ok our b \<Longrightarrow> bucket_ok our (b\<lparr>b_replacements := drop n (b_replacements b)\<rparr>)"
proof -
  let ?b = "b\<lparr>b_replacements := drop n (b_replacements b)\<rparr>"
  assume ok: "bucket_ok our b"
  have c: "bucket_contains ?b = bucket_contains b"
    by (rule ext, rule contains_span) (simp add: span_def)
  show ?thesis
    using ok set_drop_subset [of n "b_replacements b"]
    unfolding bucket_ok_def nodes_ok_def replacements_ok_def c
    by (auto simp: span_ok_def drop_map [symmetric] distinct_drop)
qed

lemma rt_core_shrunk:
  assumes "rt_core t" "shrunk t t'"
  shows "rt_core t'"
proof -
  have len: "length (rt_buckets t') = length (rt_buckets t)"
    and our: "rt_our_id t' = rt_our_id t" using assms(2) by (auto simp: shrunk_def)
  have at: "span (rt_buckets t' ! j) = span (rt_buckets t ! j) \<and>
      bucket_ok (rt_our_id t) (rt_buckets t' ! j)" if "j < length (rt_buckets t)" for j
  proof -
    obtain n where "rt_buckets t' ! j =
        (rt_buckets t ! j)\<lparr>b_replacements := drop n (b_replacements (rt_buckets t ! j))\<rparr>"
      using assms(2) \<open>j < _\<close> by (auto simp: shrunk_def)
    with bucket_ok_drop rt_coreD [OF assms(1) \<open>j < _\<close>] show ?thesis by (simp add: span_def)
  qed
  have m: "map (\<lambda>b. bucket_contains b i) (rt_buckets t') =
      map (\<lambda>b. bucket_contains b i) (rt_buckets t)" for i
  proof (rule nth_equalityI)
    fix k assume "k < length (map (\<lambda>b. bucket_contains b i) (rt_buckets t'))"
    then have k: "k < length (rt_buckets t)" using len by simp
    then have "bucket_contains (rt_buckets t' ! k) i = bucket_contains (rt_buckets t ! k) i"
      by (intro contains_span) (simp add: at)
    with k len show "map (\<lambda>b. bucket_contains b i) (rt_buckets t') ! k =
        map (\<lambda>b. bucket_contains b i) (rt_buckets t) ! k" by simp
  qed (simp add: len)
  have "covers (rt_buckets t')"
    using assms(1) covers_cong [OF m] by (simp add: rt_core_def)
  moreover have "\<forall>b\<in>set (rt_buckets t'). bucket_ok (rt_our_id t) b"
    using at len by (auto simp: in_set_conv_nth)
  moreover have "\<forall>b\<in>set (rt_buckets t'). bucket_contains b (rt_our_id t) \<longrightarrow>
      length (rt_buckets t) = Suc (b_prefix_len b)"
  proof (intro ballI impI)
    fix b assume b: "b \<in> set (rt_buckets t')" "bucket_contains b (rt_our_id t)"
    then obtain j where j: "j < length (rt_buckets t)" "b = rt_buckets t' ! j"
      using len by (auto simp: in_set_conv_nth)
    with b at have "bucket_contains (rt_buckets t ! j) (rt_our_id t)"
      using contains_span by blast
    then have "length (rt_buckets t) = Suc (b_prefix_len (rt_buckets t ! j))"
      using assms(1) j by (simp add: rt_core_def)
    with at [OF j(1)] j(2) show "length (rt_buckets t) = Suc (b_prefix_len b)" by (simp add: span_def)
  qed
  ultimately show ?thesis using assms(1) our len by (simp add: rt_core_def)
qed

lemma bucket_elsewhere:
  assumes "covers bs" "valid_id i" "j < length bs" "bucket_contains b i"
    and "b \<in> set (take j bs) \<union> set (drop (Suc j) bs)"
  shows "\<not> bucket_contains (bs ! j) i"
proof
  assume c: "bucket_contains (bs ! j) i"
  have "\<exists>k<length bs. k \<noteq> j \<and> b = bs ! k"
  proof (cases "b \<in> set (take j bs)")
    case True
    then obtain k where "k < length (take j bs)" "b = take j bs ! k" by (metis in_set_conv_nth)
    then show ?thesis using assms(3) by (intro exI [of _ k]) simp
  next
    case False
    then obtain k where "k < length (drop (Suc j) bs)" "b = drop (Suc j) bs ! k"
      using assms(5) by (metis in_set_conv_nth Un_iff)
    then show ?thesis by (intro exI [of _ "Suc j + k"]) simp
  qed
  then obtain k where "k < length bs" "k \<noteq> j" "b = bs ! k" by blast
  with covers_unique [OF assms(1,2) _ assms(3), of k] c assms(4) show False by simp
qed

lemma rt_core_split:
  assumes core: "rt_core t" and j: "j < length (rt_buckets t)"
    and our: "bucket_contains (rt_buckets t ! j) (rt_our_id t)"
    and len: "b_prefix_len (rt_buckets t ! j) < 160"
  shows "rt_core (split_bucket c j t)"
proof -
  let ?bs = "rt_buckets t" and ?our = "rt_our_id t"
  obtain l r where lr: "split_halves c (?bs ! j) = (l, r)" by fastforce
  have ok: "bucket_ok ?our (?bs ! j)" using rt_coreD [OF core j] .
  then have sp: "span_ok (?bs ! j)" by (simp add: bucket_ok_def)
  let ?bs' = "take j ?bs @ [l, r] @ drop (Suc j) ?bs"
  have cov: "covers ?bs'"
    using core covers_split [OF _ j lr sp len] by (simp add: rt_core_def)
  have "\<forall>b\<in>set ?bs'. bucket_ok ?our b"
    using core bucket_ok_split [OF ok len lr]
    by (auto simp: rt_core_def dest: in_set_takeD in_set_dropD)
  moreover have "length ?bs' = Suc (b_prefix_len b)"
    if b: "b \<in> set ?bs'" "bucket_contains b ?our" for b
  proof -
    have v: "valid_id ?our" and c: "covers ?bs" using core by (simp_all add: rt_core_def)
    have "b \<notin> set (take j ?bs) \<union> set (drop (Suc j) ?bs)"
      using bucket_elsewhere [OF c v j b(2)] our by blast
    then have "b = l \<or> b = r" using b(1) by auto
    then have "b_prefix_len b = Suc (b_prefix_len (?bs ! j))"
      using split_halves_span [OF lr] by (auto simp: span_def)
    moreover have "length ?bs = Suc (b_prefix_len (?bs ! j))"
      using core j our by (simp add: rt_core_def)
    ultimately show ?thesis using j by simp
  qed
  ultimately show ?thesis
    using core cov by (simp add: rt_core_def split_bucket_def lr)
qed

lemma length_filter_compl:
  "length (filter (\<lambda>x. \<not> P x) xs) + length (filter P xs) = length xs"
  by (induction xs) auto

lemma candidate_count_split:
  assumes core: "rt_core t" and j: "j < length (rt_buckets t)"
  shows "candidate_count (split_bucket c j t) = candidate_count t"
proof -
  let ?b = "rt_buckets t ! j"
  obtain l r where lr: "split_halves c ?b = (l, r)" by fastforce
  have ok: "bucket_ok (rt_our_id t) ?b" using rt_coreD [OF core j] .
  then have "bt_sorted (b_nodes ?b)" "length (b_replacements ?b) \<le> K"
    by (simp_all add: bucket_ok_def nodes_ok_def replacements_ok_def)
  note content = split_halves_content [OF lr this]
  have "length (b_replacements l) + length (b_replacements r) = length (b_replacements ?b)"
    unfolding content by (rule length_filter_compl)
  then show ?thesis
    using sum_list_split_at [OF j, of "\<lambda>b. length (b_replacements b)"]
    by (simp add: candidate_count_def split_bucket_def lr)
qed

lemma split_bucket_simps [simp]:
  "rt_our_id (split_bucket c j t) = rt_our_id t"
  "rt_max_candidates (split_bucket c j t) = rt_max_candidates t"
  by (auto simp: split_bucket_def split: prod.splits)

subsection \<open>The live contacts as a finite relation\<close>

text \<open>\<open>entries\<close> is the abstraction of a table: the set of pairs of an identifier and its record.\<close>

definition entries :: "routing_table \<Rightarrow> (node_id \<times> contact_record) set" where
  "entries t = (\<Union>b\<in>set (rt_buckets t). set (b_nodes b))"

lemma entries_set_bucket:
  assumes "rt_core t" "j < length (rt_buckets t)"
    and "\<And>p. p \<in> set (b_nodes b) \<Longrightarrow> bucket_contains (rt_buckets t ! j) (fst p) \<and> valid_id (fst p)"
  shows "entries (set_bucket j b t) =
    {p \<in> entries t. \<not> bucket_contains (rt_buckets t ! j) (fst p)} \<union> set (b_nodes b)"
proof -
  let ?bs = "rt_buckets t"
  let ?rest = "set (take j ?bs) \<union> set (drop (Suc j) ?bs)"
  have "entries (set_bucket j b t) = (\<Union>x\<in>?rest. set (b_nodes x)) \<union> set (b_nodes b)"
    using assms(2) by (auto simp: entries_def upd_conv_take_nth_drop)
  moreover have "(\<Union>x\<in>?rest. set (b_nodes x)) =
      {p \<in> entries t. \<not> bucket_contains (?bs ! j) (fst p)}" (is "?L = ?R")
  proof (intro set_eqI iffI)
    fix p assume "p \<in> ?L"
    then obtain x where x: "x \<in> ?rest" "p \<in> set (b_nodes x)" by blast
    then have mem: "x \<in> set ?bs" by (auto dest: in_set_takeD in_set_dropD)
    then have "bucket_contains x (fst p)" "valid_id (fst p)"
      using rt_core_node [OF assms(1) _ x(2)] by simp_all
    then have "\<not> bucket_contains (?bs ! j) (fst p)"
      using bucket_elsewhere [OF _ _ assms(2) _ x(1)] assms(1) by (simp add: rt_core_def)
    with x mem show "p \<in> ?R" by (auto simp: entries_def)
  next
    fix p assume "p \<in> ?R"
    then obtain x where x: "x \<in> set ?bs" "p \<in> set (b_nodes x)"
      and n: "\<not> bucket_contains (?bs ! j) (fst p)" by (auto simp: entries_def)
    then have "bucket_contains x (fst p)"
      using rt_core_node [OF assms(1) x] by simp
    with n have "x \<noteq> ?bs ! j" by auto
    moreover have "set ?bs = set (take j ?bs @ ?bs ! j # drop (Suc j) ?bs)"
      using id_take_nth_drop [OF assms(2)] by simp
    ultimately have "x \<in> ?rest" using x(1) by auto
    with x show "p \<in> ?L" by blast
  qed
  ultimately show ?thesis by simp
qed

lemma entries_bucket:
  assumes "rt_core t" "j < length (rt_buckets t)"
  shows "{p \<in> entries t. bucket_contains (rt_buckets t ! j) (fst p)} = set (b_nodes (rt_buckets t ! j))"
proof -
  have e: "set_bucket j (rt_buckets t ! j) t = t" by (simp add: set_bucket_def)
  have in_bucket: "bucket_contains (rt_buckets t ! j) (fst p) \<and> valid_id (fst p)"
    if "p \<in> set (b_nodes (rt_buckets t ! j))" for p
    using rt_coreD [OF assms] that by (auto simp: bucket_ok_def nodes_ok_def)
  have "entries t = {p \<in> entries t. \<not> bucket_contains (rt_buckets t ! j) (fst p)} \<union>
      set (b_nodes (rt_buckets t ! j))"
    using entries_set_bucket [OF assms, of "rt_buckets t ! j", OF in_bucket] by (simp only: e)
  with in_bucket show ?thesis by blast
qed

lemma entries_lookup:
  assumes "rt_core t" "j < length (rt_buckets t)" "bucket_contains (rt_buckets t ! j) i"
  shows "map_of (b_nodes (rt_buckets t ! j)) i = Some r \<longleftrightarrow> (i, r) \<in> entries t"
proof -
  have "distinct (keys (b_nodes (rt_buckets t ! j)))"
    using rt_coreD [OF assms(1,2)] by (auto simp: bucket_ok_def nodes_ok_def intro: bt_sorted_distinct)
  then have "map_of (b_nodes (rt_buckets t ! j)) i = Some r \<longleftrightarrow> (i, r) \<in> set (b_nodes (rt_buckets t ! j))"
    by (rule map_of_eq_Some_iff)
  also have "\<dots> \<longleftrightarrow> (i, r) \<in> entries t"
    by (simp only: entries_bucket [OF assms(1,2), symmetric] mem_Collect_eq fst_conv assms(3) simp_thms)
  finally show ?thesis .
qed

lemma entries_functional:
  assumes "rt_core t" "(i, r) \<in> entries t" "(i, r') \<in> entries t"
  shows "r = r'"
proof -
  obtain b where b: "b \<in> set (rt_buckets t)" "(i, r) \<in> set (b_nodes b)"
    using assms(2) by (auto simp: entries_def)
  then have "valid_id i" using rt_core_node(2) [OF assms(1) b] by simp
  then obtain j where j: "j < length (rt_buckets t)" "bucket_contains (rt_buckets t ! j) i"
    by (rule rt_index [OF assms(1)])
  have "map_of (b_nodes (rt_buckets t ! j)) i = Some r"
    "map_of (b_nodes (rt_buckets t ! j)) i = Some r'"
    using entries_lookup [OF assms(1) j] assms(2,3) by simp_all
  then show ?thesis by simp
qed

lemma entries_at:
  assumes "rt_core t" "(i, r) \<in> entries t"
  shows "(i, q) \<in> entries t \<longleftrightarrow> q = r" and "{p \<in> entries t. fst p = i} = {(i, r)}"
proof -
  show iff: "(i, q) \<in> entries t \<longleftrightarrow> q = r" for q
    using entries_functional [OF assms(1) _ assms(2), of q] assms(2) by metis
  show "{p \<in> entries t. fst p = i} = {(i, r)}"
  proof (intro set_eqI iffI)
    fix p assume "p \<in> {p \<in> entries t. fst p = i}"
    then have "(i, snd p) \<in> entries t" "fst p = i" by auto
    then show "p \<in> {(i, r)}" using iff by (metis prod.collapse singleton_iff)
  qed (use assms(2) in simp)
qed

lemma entries_split:
  assumes core: "rt_core t" and j: "j < length (rt_buckets t)"
  shows "entries (split_bucket c j t) = entries t"
proof -
  let ?b = "rt_buckets t ! j"
  obtain l r where lr: "split_halves c ?b = (l, r)" by fastforce
  have ok: "bucket_ok (rt_our_id t) ?b" using rt_coreD [OF core j] .
  then have "bt_sorted (b_nodes ?b)" "length (b_replacements ?b) \<le> K"
    by (simp_all add: bucket_ok_def nodes_ok_def replacements_ok_def)
  note content = split_halves_content [OF lr this]
  have "set (b_nodes l) \<union> set (b_nodes r) = set (b_nodes ?b)" unfolding content by auto
  moreover have "set (rt_buckets t) = set (take j (rt_buckets t)) \<union> {?b} \<union> set (drop (Suc j) (rt_buckets t))"
    by (subst id_take_nth_drop [OF j]) auto
  ultimately show ?thesis by (auto simp: entries_def split_bucket_def lr)
qed

lemma entries_shrunk: "shrunk t t' \<Longrightarrow> entries t' = entries t"
proof -
  assume s: "shrunk t t'"
  then have "b_nodes (rt_buckets t' ! j) = b_nodes (rt_buckets t ! j)" if "j < length (rt_buckets t)" for j
    using that unfolding shrunk_def by fastforce
  moreover have "length (rt_buckets t') = length (rt_buckets t)" using s by (simp add: shrunk_def)
  ultimately have "map b_nodes (rt_buckets t') = map b_nodes (rt_buckets t)"
    by (intro nth_equalityI) auto
  then have "set (map b_nodes (rt_buckets t')) = set (map b_nodes (rt_buckets t))" by simp
  moreover have "entries x = (\<Union>ns\<in>set (map b_nodes (rt_buckets x)). set ns)" for x
    by (simp add: entries_def)
  ultimately show ?thesis by metis
qed

subsection \<open>The operations keep the invariant and refine the relation\<close>

lemma table_contains_iff:
  assumes "rt_core t" "valid_id i"
  shows "table_contains t i = Some (i \<in> fst ` entries t)"
proof -
  obtain j where j: "bucket_index t i = Some j" "j < length (rt_buckets t)"
    "bucket_contains (rt_buckets t ! j) i"
    by (rule rt_index [OF assms])
  have "map_of (b_nodes (rt_buckets t ! j)) i \<noteq> None \<longleftrightarrow> i \<in> fst ` entries t"
    using entries_lookup [OF assms(1) j(2,3)] by force
  with j(1) show ?thesis by (simp add: table_contains_def)
qed

definition candidate_ids :: "routing_table \<Rightarrow> node_id set" where
  "candidate_ids t = (\<Union>b\<in>set (rt_buckets t). nc_id ` set (b_replacements b))"

lemma add_candidate_ok:
  assumes inv: "rt_inv t" and v: "valid_id (nc_id x)"
  shows "ensures (add_candidate x t) (\<lambda>(added, t'). rt_inv t' \<and> rt_our_id t' = rt_our_id t \<and>
    rt_max_candidates t' = rt_max_candidates t \<and> entries t' = entries t \<and>
    bucket_count t' = bucket_count t \<and> (added \<longrightarrow> nc_id x \<in> candidate_ids t'))"
proof -
  have core: "rt_core t" using inv by (rule rt_inv_core)
  obtain j where j: "bucket_index t (nc_id x) = Some j" "j < length (rt_buckets t)"
    "bucket_contains (rt_buckets t ! j) (nc_id x)"
    by (rule rt_index [OF core v])
  let ?t' = "evict_candidates t"
  let ?b = "rt_buckets ?t' ! j"
  define rs where "rs = (if K \<le> length (b_replacements ?b) then tl (b_replacements ?b)
    else b_replacements ?b)"
  let ?b' = "?b\<lparr>b_replacements := rs @ [x]\<rparr>"
  show ?thesis
  proof (cases "nc_id x = rt_our_id t \<or> nc_id x \<in> fst ` entries t \<or>
      list_ex (\<lambda>e. nc_id e = nc_id x \<or> nc_addr e = nc_addr x) (b_replacements (rt_buckets t ! j))")
    case True
    then show ?thesis
      using inv j by (auto simp: add_candidate_def table_contains_iff [OF core v])
  next
    case False
    have sh: "shrunk t ?t'" by (rule shrunk_evict [OF shrunk_refl])
    have core': "rt_core ?t'" by (rule rt_core_shrunk [OF core sh])
    have j': "j < length (rt_buckets ?t')" and our: "rt_our_id ?t' = rt_our_id t"
      and mx: "rt_max_candidates ?t' = rt_max_candidates t"
      using sh j(2) by (simp_all add: shrunk_def)
    obtain n where b: "?b = (rt_buckets t ! j)\<lparr>b_replacements := drop n (b_replacements (rt_buckets t ! j))\<rparr>"
      using sh j(2) by (auto simp: shrunk_def)
    have sp: "span ?b' = span ?b" "span ?b = span (rt_buckets t ! j)"
      by (simp add: span_def, simp add: b span_def)
    have ok: "bucket_ok (rt_our_id t) ?b" using rt_coreD [OF core' j'] our by simp
    have new: "nc_id x \<notin> nc_id ` set (b_replacements ?b)"
      using False set_drop_subset [of n "b_replacements (rt_buckets t ! j)"]
      by (auto simp: b list_ex_iff)
    have notlive: "nc_id x \<notin> fst ` set (b_nodes ?b)"
      using False j(2) by (force simp: b entries_def)
    have rs: "set rs \<subseteq> set (b_replacements ?b)" "length rs < K" "distinct (map nc_id rs)"
      "length rs \<le> length (b_replacements ?b)"
      using ok by (auto simp: rs_def bucket_ok_def replacements_ok_def map_tl distinct_tl K_def
          dest: set_tl_subset [THEN subsetD] split: if_splits)
    have ok': "bucket_ok (rt_our_id t) ?b'"
    proof -
      have c: "bucket_contains ?b' = bucket_contains ?b" "bucket_contains ?b = bucket_contains (rt_buckets t ! j)"
        by (rule ext, rule contains_span, rule sp)+
      have "nodes_ok (rt_our_id t) ?b'" using ok unfolding bucket_ok_def nodes_ok_def c by simp
      moreover have "replacements_ok (rt_our_id t) ?b'"
        using ok rs new notlive False v j(3) unfolding bucket_ok_def replacements_ok_def c
        by auto
      ultimately show ?thesis using ok span_ok_cong [OF sp(1)] by (simp add: bucket_ok_def)
    qed
    let ?t2 = "set_bucket j ?b' ?t'"
    have core2: "rt_core ?t2" by (rule rt_core_set_bucket [OF core' j' sp(1)]) (simp add: ok' our)
    have "length (b_replacements ?b') \<le> Suc (length (b_replacements ?b))" using rs(4) by simp
    then have "candidate_count ?t2 \<le> Suc (candidate_count ?t')"
      using candidate_count_set_bucket [OF j', of ?b'] by linarith
    then have "candidate_count ?t2 \<le> max 1 (rt_max_candidates t)"
      using evict_candidates_count [of t] by linarith
    then have inv2: "rt_inv ?t2" using core2 mx by (simp add: rt_inv_def)
    have p: "bucket_contains (rt_buckets ?t' ! j) (fst p) \<and> valid_id (fst p)" if "p \<in> set (b_nodes ?b')" for p
      using rt_core_node [OF core' nth_mem [OF j']] that by simp
    have "entries ?t2 = entries ?t'"
      using entries_set_bucket [OF core' j', of ?b', OF p] entries_bucket [OF core' j']
      by auto
    then have e: "entries ?t2 = entries t" using entries_shrunk [OF sh] by simp
    have "nc_id x \<in> candidate_ids ?t2"
      using j' by (auto simp: candidate_ids_def intro!: bexI [of _ ?b'] set_update_memI)
    moreover have "bucket_count ?t2 = bucket_count t"
      using sh by (simp add: bucket_count_def shrunk_def)
    moreover have "add_candidate x t = Some (True, ?t2)"
      using False j(1) by (simp add: add_candidate_def table_contains_iff [OF core v] Let_def rs_def)
    ultimately show ?thesis using inv2 e our mx by simp
  qed
qed

text \<open>The abstract effect of a validated contact on the relation.\<close>

definition spec_mark ::
  "clock \<Rightarrow> node_id \<Rightarrow> socket_addr_v4 \<Rightarrow> bool \<Rightarrow> (node_id \<times> contact_record) set
   \<Rightarrow> (node_id \<times> contact_record) set" where
  "spec_mark c i addr inserted E =
     (let seen = \<lambda>n. n\<lparr>nc_addr := addr, nc_last_seen := ck_now c, nc_last_seen_unix := ck_unix c\<rparr>;
          fresh = \<lparr>nc_id = i, nc_addr = addr, nc_last_seen = ck_now c, nc_last_seen_unix = ck_unix c\<rparr>
      in if i \<in> fst ` E
         then {p \<in> E. fst p \<noteq> i} \<union>
           (\<lambda>p. (i, \<lparr>cr_contact = seen (cr_contact (snd p)), cr_unanswered = 0\<rparr>)) ` {p \<in> E. fst p = i}
         else if inserted
         then insert (i, \<lparr>cr_contact = fresh, cr_unanswered = 0\<rparr>) E
         else E)"

lemma spec_mark_eq:
  "spec_mark c i addr inserted E =
     (if i \<in> fst ` E
      then {p \<in> E. fst p \<noteq> i} \<union> (\<lambda>p. (i, refresh_record c addr (snd p))) ` {p \<in> E. fst p = i}
      else if inserted
      then insert (i, \<lparr>cr_contact = fresh_contact c i addr, cr_unanswered = 0\<rparr>) E
      else E)"
  by (simp add: spec_mark_def refresh_record_def fresh_contact_def)

lemma bucket_ok_change:
  assumes "bucket_ok our b" "span b' = span b" "bt_sorted (b_nodes b')" "length (b_nodes b') \<le> K"
    and "\<And>k r. (k, r) \<in> set (b_nodes b') \<Longrightarrow> (k, r) \<in> set (b_nodes b) \<or>
      (nc_id (cr_contact r) = k \<and> valid_id k \<and> bucket_contains b k \<and> k \<noteq> our
        \<and> cr_unanswered r < BAD_AFTER_FAILURES)"
    and "b_replacements b' = filter P (b_replacements b)"
    and "\<And>x. x \<in> set (b_replacements b') \<Longrightarrow> nc_id x \<notin> fst ` set (b_nodes b')"
  shows "bucket_ok our b'"
proof -
  have c: "bucket_contains b' = bucket_contains b" by (rule ext, rule contains_span, rule assms(2))
  have "span_ok b'" using assms(1) span_ok_cong [OF assms(2)] by (simp add: bucket_ok_def)
  moreover have "nodes_ok our b'"
    using assms(1,3,4,5) unfolding bucket_ok_def nodes_ok_def c by fastforce
  moreover have "length (b_replacements b) \<le> K"
    using assms(1) by (simp add: bucket_ok_def replacements_ok_def)
  then have "length (filter P (b_replacements b)) \<le> K"
    by (rule order.trans [OF length_filter_le])
  then have "replacements_ok our b'"
    using assms(1,7) unfolding bucket_ok_def replacements_ok_def c
    by (auto simp: assms(6) distinct_map_filter)
  ultimately show ?thesis by (simp add: bucket_ok_def)
qed

lemma rt_inv_set_bucket:
  assumes "rt_inv t" "j < length (rt_buckets t)" "span b = span (rt_buckets t ! j)"
    "bucket_ok (rt_our_id t) b"
    "length (b_replacements b) \<le> length (b_replacements (rt_buckets t ! j))"
  shows "rt_inv (set_bucket j b t)"
  using rt_core_set_bucket [OF rt_inv_core [OF assms(1)] assms(2-4)]
    candidate_count_set_bucket [OF assms(2), of b] assms(1,5)
  by (simp add: rt_inv_def)

lemma entries_set_nodes:
  assumes "rt_core t" "j < length (rt_buckets t)" "bucket_contains (rt_buckets t ! j) i"
    and "valid_id i" "set (b_nodes b) = N \<union> {p \<in> set (b_nodes (rt_buckets t ! j)). fst p \<noteq> i}"
    and "\<And>p. p \<in> N \<Longrightarrow> fst p = i"
  shows "entries (set_bucket j b t) = N \<union> {p \<in> entries t. fst p \<noteq> i}"
proof -
  let ?b = "rt_buckets t ! j"
  have p: "bucket_contains ?b (fst p) \<and> valid_id (fst p)" if "p \<in> set (b_nodes b)" for p
  proof (cases "p \<in> N")
    case True
    then have "fst p = i" by (rule assms(6))
    then show ?thesis using assms(3,4) by simp
  next
    case False
    then have "p \<in> set (b_nodes ?b)" using that assms(5) by blast
    then show ?thesis using rt_core_node(1,2) [OF assms(1) nth_mem [OF assms(2)]] by simp
  qed
  have "entries (set_bucket j b t) =
      {p \<in> entries t. \<not> bucket_contains ?b (fst p)} \<union> set (b_nodes b)"
    by (rule entries_set_bucket [OF assms(1,2) p])
  also have "\<dots> = {p \<in> entries t. \<not> bucket_contains ?b (fst p)} \<union>
      (N \<union> {p \<in> {p \<in> entries t. bucket_contains ?b (fst p)}. fst p \<noteq> i})"
    by (simp only: assms(5) entries_bucket [OF assms(1,2)])
  also have "\<dots> = N \<union> {p \<in> entries t. fst p \<noteq> i}" using assms(3) by auto
  finally show ?thesis .
qed

lemma find_bad_None:
  assumes "rt_core t" "j < length (rt_buckets t)"
  shows "find_bad (rt_buckets t ! j) = None"
proof -
  have "\<not> BAD_AFTER_FAILURES \<le> cr_unanswered (snd p)" if "p \<in> set (b_nodes (rt_buckets t ! j))" for p
    using rt_core_node(5) [OF assms(1) nth_mem [OF assms(2)] that] by simp
  then show ?thesis by (auto simp: find_bad_def find_None_iff)
qed

definition mark_post ::
  "clock \<Rightarrow> node_id \<Rightarrow> socket_addr_v4 \<Rightarrow> routing_table \<Rightarrow> bool \<times> routing_table \<Rightarrow> bool" where
  "mark_post c i addr t res \<longleftrightarrow>
     (case res of (inserted, t') \<Rightarrow> rt_inv t' \<and> rt_our_id t' = rt_our_id t \<and>
        rt_max_candidates t' = rt_max_candidates t \<and>
        entries t' = spec_mark c i addr inserted (entries t) \<and>
        (inserted \<longrightarrow> i \<notin> fst ` entries t))"

lemma mark_refresh:
  assumes inv: "rt_inv t" and v: "valid_id i" and own: "i \<noteq> rt_our_id t"
    and j: "j < length (rt_buckets t)" "bucket_contains (rt_buckets t ! j) i"
    and r: "map_of (b_nodes (rt_buckets t ! j)) i = Some r"
  shows "mark_post c i addr t (False, set_bucket j
    ((rt_buckets t ! j)\<lparr>b_nodes := bt_insert i (refresh_record c addr r) (b_nodes (rt_buckets t ! j))\<rparr>) t)"
proof -
  let ?b = "rt_buckets t ! j"
  let ?ns = "bt_insert i (refresh_record c addr r) (b_nodes ?b)"
  let ?b' = "?b\<lparr>b_nodes := ?ns\<rparr>"
  have core: "rt_core t" using inv by (rule rt_inv_core)
  have ok: "bucket_ok (rt_our_id t) ?b" using rt_coreD [OF core j(1)] .
  then have srt: "bt_sorted (b_nodes ?b)" by (simp add: bucket_ok_def nodes_ok_def)
  have ir: "(i, r) \<in> set (b_nodes ?b)" using r by (rule map_of_SomeD)
  then have ir': "i \<in> fst ` set (b_nodes ?b)" by force
  have id: "nc_id (cr_contact r) = i" using rt_core_node(4) [OF core nth_mem [OF j(1)] ir] by simp
  have set_ns: "set ?ns = insert (i, refresh_record c addr r) {p \<in> set (b_nodes ?b). fst p \<noteq> i}"
    by (rule set_bt_insert [OF srt])
  have len: "length ?ns = length (b_nodes ?b)" by (rule bt_insert_old [OF srt]) (use ir' in simp)
  have ok': "bucket_ok (rt_our_id t) ?b'"
  proof (rule bucket_ok_change [OF ok])
    show "b_replacements ?b' = filter (\<lambda>_. True) (b_replacements ?b)" by simp
    show "nc_id x \<notin> fst ` set (b_nodes ?b')" if "x \<in> set (b_replacements ?b')" for x
      using ok that ir' by (auto simp: bucket_ok_def replacements_ok_def)
  next
    fix k q assume "(k, q) \<in> set (b_nodes ?b')"
    then have "(k, q) = (i, refresh_record c addr r) \<or> (k, q) \<in> set (b_nodes ?b)"
      by (auto simp: set_ns)
    then show "(k, q) \<in> set (b_nodes ?b) \<or> nc_id (cr_contact q) = k \<and> valid_id k \<and>
        bucket_contains ?b k \<and> k \<noteq> rt_our_id t \<and> cr_unanswered q < BAD_AFTER_FAILURES"
      using v own j(2) id by (auto simp: refresh_record_def BAD_AFTER_FAILURES_def)
  qed (use srt len ok in \<open>auto simp: span_def bucket_ok_def nodes_ok_def\<close>)
  have inv': "rt_inv (set_bucket j ?b' t)"
    by (rule rt_inv_set_bucket [OF inv j(1) _ ok']) (simp_all add: span_def)
  have "entries (set_bucket j ?b' t) =
      {(i, refresh_record c addr r)} \<union> {p \<in> entries t. fst p \<noteq> i}"
    by (rule entries_set_nodes [OF core j v]) (simp_all add: set_ns)
  moreover have "(i, r) \<in> entries t" using ir j(1) by (auto simp: entries_def)
  moreover from this have "{p \<in> entries t. fst p = i} = {(i, r)}" by (rule entries_at(2) [OF core])
  moreover from calculation have "i \<in> fst ` entries t" by force
  ultimately have "entries (set_bucket j ?b' t) = spec_mark c i addr False (entries t)"
    by (auto simp: spec_mark_eq)
  with inv' show ?thesis by (simp add: mark_post_def)
qed

lemma mark_insert:
  assumes inv: "rt_inv t" and v: "valid_id i" and own: "i \<noteq> rt_our_id t"
    and j: "j < length (rt_buckets t)" "bucket_contains (rt_buckets t ! j) i"
    and new: "map_of (b_nodes (rt_buckets t ! j)) i = None"
    and room: "length (b_nodes (rt_buckets t ! j)) < K"
  shows "mark_post c i addr t (True, set_bucket j
    ((rt_buckets t ! j)\<lparr>b_replacements := filter (\<lambda>x. nc_id x \<noteq> i) (b_replacements (rt_buckets t ! j)),
       b_nodes := bt_insert i \<lparr>cr_contact = fresh_contact c i addr, cr_unanswered = 0\<rparr>
                    (b_nodes (rt_buckets t ! j)),
       b_last_changed := ck_now c\<rparr>) t)"
proof -
  let ?b = "rt_buckets t ! j" and ?r = "\<lparr>cr_contact = fresh_contact c i addr, cr_unanswered = 0\<rparr>"
  let ?ns = "bt_insert i ?r (b_nodes ?b)"
  let ?b' = "?b\<lparr>b_replacements := filter (\<lambda>x. nc_id x \<noteq> i) (b_replacements ?b), b_nodes := ?ns,
    b_last_changed := ck_now c\<rparr>"
  have core: "rt_core t" using inv by (rule rt_inv_core)
  have ok: "bucket_ok (rt_our_id t) ?b" using rt_coreD [OF core j(1)] .
  then have srt: "bt_sorted (b_nodes ?b)" by (simp add: bucket_ok_def nodes_ok_def)
  have notin: "i \<notin> fst ` set (b_nodes ?b)" using new by (simp add: map_of_eq_None_iff)
  have set_ns: "set ?ns = insert (i, ?r) {p \<in> set (b_nodes ?b). fst p \<noteq> i}"
    by (rule set_bt_insert [OF srt])
  have len: "length ?ns = Suc (length (b_nodes ?b))" by (rule bt_insert_new) (use notin in simp)
  have ok': "bucket_ok (rt_our_id t) ?b'"
  proof (rule bucket_ok_change [OF ok])
    show "b_replacements ?b' = filter (\<lambda>x. nc_id x \<noteq> i) (b_replacements ?b)" by simp
    show "nc_id x \<notin> fst ` set (b_nodes ?b')" if "x \<in> set (b_replacements ?b')" for x
      using ok that by (auto simp: bucket_ok_def replacements_ok_def)
  next
    fix k q assume "(k, q) \<in> set (b_nodes ?b')"
    then have "(k, q) = (i, ?r) \<or> (k, q) \<in> set (b_nodes ?b)" by (auto simp: set_ns)
    then show "(k, q) \<in> set (b_nodes ?b) \<or> nc_id (cr_contact q) = k \<and> valid_id k \<and>
        bucket_contains ?b k \<and> k \<noteq> rt_our_id t \<and> cr_unanswered q < BAD_AFTER_FAILURES"
      using v own j(2) by (auto simp: fresh_contact_def BAD_AFTER_FAILURES_def)
  qed (use srt len room in \<open>auto simp: span_def\<close>)
  have inv': "rt_inv (set_bucket j ?b' t)"
    by (rule rt_inv_set_bucket [OF inv j(1) _ ok']) (simp_all add: span_def)
  have e: "entries (set_bucket j ?b' t) = {(i, ?r)} \<union> {p \<in> entries t. fst p \<noteq> i}"
    by (rule entries_set_nodes [OF core j v]) (simp_all add: set_ns)
  have "i \<notin> fst ` entries t"
    using entries_lookup [OF core j] new by force
  moreover from this have "{p \<in> entries t. fst p \<noteq> i} = entries t" by force
  ultimately show ?thesis using inv' e by (simp add: mark_post_def spec_mark_eq)
qed

lemma mark_loop_ok:
  "rt_inv t \<Longrightarrow> valid_id i \<Longrightarrow> i \<noteq> rt_our_id t \<Longrightarrow>
   ensures (mark_loop c i addr t) (mark_post c i addr t)"
proof (induction c i addr t rule: mark_loop.induct)
  case (1 c i addr t)
  have core: "rt_core t" using "1.prems"(1) by (rule rt_inv_core)
  obtain j where j: "bucket_index t i = Some j" "j < length (rt_buckets t)"
    "bucket_contains (rt_buckets t ! j) i"
    by (rule rt_index [OF core "1.prems"(2)])
  let ?b = "rt_buckets t ! j"
  show ?case
  proof (cases "map_of (b_nodes ?b) i")
    case (Some r)
    then show ?thesis
      using mark_refresh [OF "1.prems" j(2,3) Some, of c addr] j(1)
      by (subst mark_loop.simps) (simp add: Let_def)
  next
    case new: None
    show ?thesis
    proof (cases "length (b_nodes ?b) < K")
      case True
      then show ?thesis
        using mark_insert [OF "1.prems" j(2,3) new True, of c addr] j(1) new
        by (subst mark_loop.simps) (simp add: Let_def)
    next
      case full: False
      show ?thesis
      proof (cases "bucket_contains ?b (rt_our_id t) \<and> b_prefix_len ?b < NODE_ID_LEN * 8")
        case True
        let ?t = "split_bucket c j t"
        have len: "b_prefix_len ?b < 160" using True by (simp add: NODE_ID_LEN_def)
        have "rt_inv ?t"
          using rt_core_split [OF core j(2) _ len] candidate_count_split [OF core j(2)] True "1.prems"(1)
          by (simp add: rt_inv_def)
        then have "ensures (mark_loop c i addr ?t) (mark_post c i addr ?t)"
          using "1.IH"(1) [OF j(1) refl new full True] "1.prems" by simp
        moreover have "mark_post c i addr ?t = mark_post c i addr t"
          using entries_split [OF core j(2)] by (intro ext) (simp add: mark_post_def)
        ultimately show ?thesis
          using full True j(1) new by (subst mark_loop.simps) (simp add: Let_def)
      next
        case False
        have x: "nc_id (fresh_contact c i addr) = i" by (simp add: fresh_contact_def)
        have "i \<notin> fst ` entries t" using entries_lookup [OF core j(2,3)] new by force
        then show ?thesis
          using add_candidate_ok [OF "1.prems"(1), of "fresh_contact c i addr"] "1.prems"(2) x
            full False j(1) new find_bad_None [OF core j(2)]
          by (subst mark_loop.simps)
            (auto simp: Let_def mark_post_def spec_mark_eq ensures_def split: option.splits prod.splits)
      qed
    qed
  qed
qed

lemma mark_validated_ok:
  assumes "rt_inv t" "valid_id i"
  shows "ensures (mark_validated c i addr t) (\<lambda>res.
    if i = rt_our_id t then res = (False, t) else mark_post c i addr t res)"
  using assms mark_loop_ok [of t i c addr] by (simp add: mark_validated_def)

definition spec_failure ::
  "node_id \<Rightarrow> (node_id \<times> contact_record) set \<Rightarrow> (node_id \<times> contact_record) set" where
  "spec_failure i E =
     {p \<in> E. fst p \<noteq> i} \<union>
     {(i, r\<lparr>cr_unanswered := saturating_inc_u8 (cr_unanswered r)\<rparr>) | r.
        (i, r) \<in> E \<and> saturating_inc_u8 (cr_unanswered r) < BAD_AFTER_FAILURES}"

lemma set_delete: "set (AList.delete k m) = {p \<in> set m. fst p \<noteq> k}"
  by (auto simp: AList.delete_eq)

lemma record_failure_ok:
  assumes inv: "rt_inv t" and v: "valid_id i"
  shows "ensures (record_failure c i t) (\<lambda>t'. rt_inv t' \<and> rt_our_id t' = rt_our_id t \<and>
    rt_max_candidates t' = rt_max_candidates t \<and> entries t' = spec_failure i (entries t))"
proof -
  have core: "rt_core t" using inv by (rule rt_inv_core)
  obtain j where j: "bucket_index t i = Some j" "j < length (rt_buckets t)"
    "bucket_contains (rt_buckets t ! j) i"
    by (rule rt_index [OF core v])
  let ?b = "rt_buckets t ! j"
  show ?thesis
  proof (cases "map_of (b_nodes ?b) i")
    case None
    then have no: "(i, r) \<notin> entries t" for r
      using entries_lookup [OF core j(2,3), of r] by simp
    then have "spec_failure i (entries t) = entries t" by (auto simp: spec_failure_def)
    then show ?thesis using j(1) None inv by (simp add: record_failure_def Let_def)
  next
    case (Some r)
    let ?u = "saturating_inc_u8 (cr_unanswered r)"
    let ?ns = "bt_insert i (r\<lparr>cr_unanswered := ?u\<rparr>) (b_nodes ?b)"
    let ?b1 = "?b\<lparr>b_nodes := ?ns\<rparr>"
    define b2 where "b2 = (if BAD_AFTER_FAILURES \<le> ?u
      then (remove_node i ?b1)\<lparr>b_last_changed := ck_now c\<rparr> else ?b1)"
    define N where "N = (if BAD_AFTER_FAILURES \<le> ?u then {} else {(i, r\<lparr>cr_unanswered := ?u\<rparr>)})"
    have ok: "bucket_ok (rt_our_id t) ?b" using rt_coreD [OF core j(2)] .
    then have srt: "bt_sorted (b_nodes ?b)" and small: "length (b_nodes ?b) \<le> K"
      by (simp_all add: bucket_ok_def nodes_ok_def)
    have ir: "(i, r) \<in> set (b_nodes ?b)" using Some by (rule map_of_SomeD)
    then have ir': "i \<in> fst ` set (b_nodes ?b)" by force
    have id: "nc_id (cr_contact r) = i" and own: "i \<noteq> rt_our_id t"
      using rt_core_node(3,4) [OF core nth_mem [OF j(2)] ir] by simp_all
    have len: "length ?ns = length (b_nodes ?b)" by (rule bt_insert_old [OF srt]) (use ir' in simp)
    have set_b2: "set (b_nodes b2) = N \<union> {p \<in> set (b_nodes ?b). fst p \<noteq> i}"
      by (auto simp: b2_def N_def remove_node_def set_delete set_bt_insert [OF srt])
    have keys_b2: "fst ` set (b_nodes b2) \<subseteq> fst ` set (b_nodes ?b)"
      using ir' by (auto simp: set_b2 N_def)
    have ok': "bucket_ok (rt_our_id t) b2"
    proof (rule bucket_ok_change [OF ok])
      show "b_replacements b2 = filter (\<lambda>_. True) (b_replacements ?b)"
        by (simp add: b2_def remove_node_def)
      show "nc_id x \<notin> fst ` set (b_nodes b2)" if "x \<in> set (b_replacements b2)" for x
        using ok that keys_b2
        by (auto simp: bucket_ok_def replacements_ok_def b2_def remove_node_def split: if_splits)
      show "bt_sorted (b_nodes b2)"
        using srt by (auto simp: b2_def remove_node_def intro: bt_sorted_delete)
      show "length (b_nodes b2) \<le> K"
        using small len length_delete_le [of i ?ns] by (simp add: b2_def remove_node_def)
      show "span b2 = span ?b" by (simp add: b2_def remove_node_def span_def)
    next
      fix k q assume "(k, q) \<in> set (b_nodes b2)"
      then show "(k, q) \<in> set (b_nodes ?b) \<or> nc_id (cr_contact q) = k \<and> valid_id k \<and>
          bucket_contains ?b k \<and> k \<noteq> rt_our_id t \<and> cr_unanswered q < BAD_AFTER_FAILURES"
        using v own j(3) id by (auto simp: set_b2 N_def split: if_splits)
    qed
    have inv': "rt_inv (set_bucket j b2 t)"
      by (rule rt_inv_set_bucket [OF inv j(2) _ ok']) (simp_all add: b2_def remove_node_def span_def)
    have "entries (set_bucket j b2 t) = N \<union> {p \<in> entries t. fst p \<noteq> i}"
      by (rule entries_set_nodes [OF core j(2,3) v set_b2]) (auto simp: N_def split: if_splits)
    moreover have "spec_failure i (entries t) = N \<union> {p \<in> entries t. fst p \<noteq> i}"
    proof -
      have e: "(i, r) \<in> entries t" using ir j(2) by (auto simp: entries_def)
      have "{(i, q\<lparr>cr_unanswered := saturating_inc_u8 (cr_unanswered q)\<rparr>) | q.
          (i, q) \<in> entries t \<and> saturating_inc_u8 (cr_unanswered q) < BAD_AFTER_FAILURES} = N"
        by (simp only: entries_at(1) [OF core e]) (auto simp: N_def)
      then show ?thesis by (simp only: spec_failure_def Un_commute)
    qed
    ultimately show ?thesis
      using inv' j(1) Some by (simp add: record_failure_def Let_def b2_def)
  qed
qed

subsection \<open>The interface the crawler relies on\<close>

locale contact_table =
  fixes tinv :: "'t \<Rightarrow> bool"
    and admit :: "node_contact \<Rightarrow> 't \<Rightarrow> (bool \<times> 't) option"
    and validate :: "clock \<Rightarrow> node_id \<Rightarrow> socket_addr_v4 \<Rightarrow> 't \<Rightarrow> (bool \<times> 't) option"
    and fail :: "clock \<Rightarrow> node_id \<Rightarrow> 't \<Rightarrow> 't option"
    and live :: "'t \<Rightarrow> (node_id \<times> contact_record) set"
  assumes admit_ok: "tinv t \<Longrightarrow> valid_id (nc_id x) \<Longrightarrow>
      ensures (admit x t) (\<lambda>(added, t'). tinv t' \<and> live t' = live t)"
    and validate_ok: "tinv t \<Longrightarrow> valid_id i \<Longrightarrow>
      ensures (validate c i a t) (\<lambda>(inserted, t'). tinv t' \<and> fst ` live t \<subseteq> fst ` live t')"
    and fail_ok: "tinv t \<Longrightarrow> valid_id i \<Longrightarrow>
      ensures (fail c i t) (\<lambda>t'. tinv t' \<and> fst ` live t' \<subseteq> fst ` live t)"
begin

definition admit_all :: "node_contact list \<Rightarrow> 't \<Rightarrow> 't option" where
  "admit_all xs t = fold_opt (\<lambda>x t. map_option snd (admit x t)) xs t"

lemma admit_all_ok:
  assumes "tinv t" "\<forall>x\<in>set xs. valid_id (nc_id x)"
  shows "ensures (admit_all xs t) (\<lambda>t'. tinv t' \<and> live t' = live t)"
  unfolding admit_all_def
proof (rule fold_opt_inv)
  fix x t1 assume x: "x \<in> set xs" and t1: "tinv t1 \<and> live t1 = live t"
  then have "ensures (admit x t1) (\<lambda>(added, t'). tinv t' \<and> live t' = live t1)"
    using assms(2) by (intro admit_ok) auto
  with t1 show "ensures (map_option snd (admit x t1)) (\<lambda>t'. tinv t' \<and> live t' = live t)"
    by (cases "admit x t1") auto
qed (use assms in simp)

lemma validate_all_ok:
  assumes "tinv t" "\<forall>x\<in>set xs. valid_id (nc_id x)"
  shows "ensures (fold_opt (\<lambda>x (n, t). map_option (\<lambda>(b, t'). (if b then Suc n else n, t'))
    (validate c (nc_id x) (nc_addr x) t)) xs (0, t)) (\<lambda>(n, t'). tinv t' \<and> fst ` live t \<subseteq> fst ` live t')"
proof (rule fold_opt_inv)
  fix x and s :: "nat \<times> 't"
  assume x: "x \<in> set xs" and s: "case s of (n, t') \<Rightarrow> tinv t' \<and> fst ` live t \<subseteq> fst ` live t'"
  obtain n t1 where nt: "s = (n, t1)" by (cases s)
  have "ensures (validate c (nc_id x) (nc_addr x) t1)
      (\<lambda>(inserted, t'). tinv t' \<and> fst ` live t1 \<subseteq> fst ` live t')"
    using x s assms(2) nt by (intro validate_ok) auto
  then show "ensures (case s of (n, t) \<Rightarrow> map_option (\<lambda>(b, t'). (if b then Suc n else n, t'))
      (validate c (nc_id x) (nc_addr x) t)) (\<lambda>(n, t'). tinv t' \<and> fst ` live t \<subseteq> fst ` live t')"
    using s nt by (cases "validate c (nc_id x) (nc_addr x) t1") (simp_all add: case_prod_beta, blast)
qed (use assms in simp)

end

lemma keys_spec_mark: "fst ` E \<subseteq> fst ` spec_mark c i addr b E"
proof
  fix k assume "k \<in> fst ` E"
  then obtain r where r: "(k, r) \<in> E" by auto
  show "k \<in> fst ` spec_mark c i addr b E"
  proof (cases "k = i")
    case True
    then have "(i, refresh_record c addr r) \<in> spec_mark c i addr b E"
      using r by (force simp: spec_mark_eq)
    then show ?thesis using True by force
  next
    case False
    then have "(k, r) \<in> spec_mark c i addr b E" using r by (auto simp: spec_mark_eq)
    then show ?thesis by force
  qed
qed

lemma keys_spec_failure: "fst ` spec_failure i E \<subseteq> fst ` E"
  by (force simp: spec_failure_def)

interpretation ct: contact_table rt_inv add_candidate mark_validated record_failure entries
proof
  fix t :: routing_table and x :: node_contact
  assume a: "rt_inv t" "valid_id (nc_id x)"
  show "ensures (add_candidate x t) (\<lambda>(added, t'). rt_inv t' \<and> entries t' = entries t)"
    by (rule ensures_mono [OF add_candidate_ok [OF a]]) auto
next
  fix t i c addr assume a: "rt_inv t" "valid_id i"
  show "ensures (mark_validated c i addr t)
      (\<lambda>(inserted, t'). rt_inv t' \<and> fst ` entries t \<subseteq> fst ` entries t')"
  proof (rule ensures_mono [OF mark_validated_ok [OF a, of c addr]])
    fix res assume r: "if i = rt_our_id t then res = (False, t) else mark_post c i addr t res"
    show "case res of (inserted, t') \<Rightarrow> rt_inv t' \<and> fst ` entries t \<subseteq> fst ` entries t'"
      using r a(1) keys_spec_mark by (cases res) (simp add: mark_post_def split: if_splits)
  qed
next
  fix t i c assume a: "rt_inv t" "valid_id i"
  show "ensures (record_failure c i t) (\<lambda>t'. rt_inv t' \<and> fst ` entries t' \<subseteq> fst ` entries t)"
    by (rule ensures_mono [OF record_failure_ok [OF a]]) (simp add: keys_spec_failure)
qed

subsection \<open>Nearest contacts\<close>

lemma closest_set: "set (closest target n all) \<subseteq> set all"
  using set_take_subset [of n "sort_key (\<lambda>n. node_id_distance (nc_id n) target) all"]
  by (simp add: closest_def)

lemma closest_length: "length (closest target n all) = min n (length all)"
  by (simp add: closest_def min.commute)

lemma closest_nearest:
  assumes "x \<in> set (closest target n all)" "y \<in> set all" "y \<notin> set (closest target n all)"
  shows "node_id_distance (nc_id x) target \<le> node_id_distance (nc_id y) target"
proof -
  let ?d = "\<lambda>x. node_id_distance (nc_id x) target"
  let ?s = "sort_key ?d all"
  have "sorted (map ?d (take n ?s @ drop n ?s))" by simp
  then have "\<forall>a\<in>set (take n ?s). \<forall>b\<in>set (drop n ?s). ?d a \<le> ?d b"
    by (simp only: map_append sorted_append) auto
  moreover have "y \<in> set (take n ?s) \<union> set (drop n ?s)"
    using assms(2) by (metis append_take_drop_id set_append set_sort)
  ultimately show ?thesis using assms by (auto simp: closest_def)
qed

lemma distinct_live_aux:
  "\<forall>i. valid_id i \<longrightarrow> length (filter (\<lambda>b. bucket_contains b i) bs) \<le> 1 \<Longrightarrow>
   \<forall>b\<in>set bs. nodes_ok our b \<Longrightarrow>
   distinct (concat (map (\<lambda>b. keys (b_nodes b)) bs))"
proof (induction bs)
  case (Cons b bs)
  have ok: "nodes_ok our b" using Cons.prems(2) by simp
  have head: "distinct (keys (b_nodes b))"
    using ok by (auto simp: nodes_ok_def intro: bt_sorted_distinct)
  have sub: "\<forall>i. valid_id i \<longrightarrow> length (filter (\<lambda>b. bucket_contains b i) bs) \<le> 1"
  proof (intro allI impI)
    fix i :: node_id assume "valid_id i"
    then have "length (filter (\<lambda>b. bucket_contains b i) (b # bs)) \<le> 1" using Cons.prems(1) by blast
    then show "length (filter (\<lambda>b. bucket_contains b i) bs) \<le> 1" by (simp split: if_splits)
  qed
  then have tail: "distinct (concat (map (\<lambda>b. keys (b_nodes b)) bs))"
    using Cons.IH Cons.prems(2) by simp
  have "k \<notin> set (keys (b_nodes x))" if "k \<in> set (keys (b_nodes b))" "x \<in> set bs" for k x
  proof
    assume kx: "k \<in> set (keys (b_nodes x))"
    have xok: "nodes_ok our x" using Cons.prems(2) that(2) by simp
    have "valid_id k" "bucket_contains b k" "bucket_contains x k"
      using ok xok that(1) kx by (auto simp: nodes_ok_def)
    then have "filter (\<lambda>b. bucket_contains b k) bs = []" using Cons.prems(1) by fastforce
    with that(2) \<open>bucket_contains x k\<close> show False by (auto simp: filter_empty_conv)
  qed
  then show ?case using head tail by auto
qed simp

lemma live_ids:
  assumes "rt_core t"
  shows "map nc_id (live_contacts t) = concat (map (\<lambda>b. keys (b_nodes b)) (rt_buckets t))"
proof -
  have "map (\<lambda>p. nc_id (cr_contact (snd p))) (b_nodes b) = keys (b_nodes b)"
    if "b \<in> set (rt_buckets t)" for b
    using rt_core_node(4) [OF assms that] by simp
  then have "map (\<lambda>b. map (\<lambda>p. nc_id (cr_contact (snd p))) (b_nodes b)) (rt_buckets t) =
      map (\<lambda>b. keys (b_nodes b)) (rt_buckets t)" by simp
  then show ?thesis by (simp only: live_contacts_def map_concat map_map comp_def)
qed

lemma distinct_live: "rt_core t \<Longrightarrow> distinct (map nc_id (live_contacts t))"
  using distinct_live_aux [of "rt_buckets t" "rt_our_id t"]
  by (simp add: live_ids) (simp add: rt_core_def covers_def bucket_ok_def)

lemma set_live: "set (live_contacts t) = (\<lambda>p. cr_contact (snd p)) ` entries t"
  by (auto simp: live_contacts_def entries_def)

subsection \<open>Runs of the table\<close>

text \<open>The calls the crawler makes on its table, as the events of a machine.\<close>

datatype routing_op =
  OpCandidate node_contact
| OpValidated clock node_id socket_addr_v4
| OpFailure clock node_id

fun routing_step :: "routing_op \<Rightarrow> routing_table \<Rightarrow> routing_table option" where
  "routing_step (OpCandidate x) t = map_option snd (add_candidate x t)"
| "routing_step (OpValidated c i addr) t = map_option snd (mark_validated c i addr t)"
| "routing_step (OpFailure c i) t = record_failure c i t"

fun op_ok :: "routing_op \<Rightarrow> bool" where
  "op_ok (OpCandidate x) = valid_id (nc_id x)"
| "op_ok (OpValidated c i addr) = valid_id i"
| "op_ok (OpFailure c i) = valid_id i"

definition run_inv_of :: "node_id \<Rightarrow> nat \<Rightarrow> routing_table \<Rightarrow> bool" where
  "run_inv_of our m t \<longleftrightarrow> rt_inv t \<and> rt_our_id t = our \<and> rt_max_candidates t = m"

lemma routing_step_ok:
  assumes "run_inv_of our m t" "op_ok e"
  shows "ensures (routing_step e t) (run_inv_of our m)"
proof (cases e)
  case (OpCandidate x)
  then show ?thesis using add_candidate_ok [of t x] assms
    by (cases "add_candidate x t") (auto simp: run_inv_of_def)
next
  case (OpValidated c i addr)
  then show ?thesis using mark_validated_ok [of t i c addr] assms
    by (cases "mark_validated c i addr t") (auto simp: run_inv_of_def mark_post_def split: if_splits)
next
  case (OpFailure c i)
  then show ?thesis using record_failure_ok [of t i c] assms
    by (cases "record_failure c i t") (auto simp: run_inv_of_def)
qed

interpretation rtm: machine routing_step "run_inv_of our m" op_ok for our m
  by unfold_locales (rule routing_step_ok)

lemma bucket_count_bound: "rt_core t \<Longrightarrow> bucket_count t \<le> 161"
proof -
  assume core: "rt_core t"
  then have "valid_id (rt_our_id t)" by (simp add: rt_core_def)
  then obtain j where j: "j < length (rt_buckets t)" "bucket_contains (rt_buckets t ! j) (rt_our_id t)"
    "bucket_ok (rt_our_id t) (rt_buckets t ! j)" by (rule rt_index [OF core])
  then have "length (rt_buckets t) = Suc (b_prefix_len (rt_buckets t ! j))"
    using core by (auto simp: rt_core_def)
  with j(3) show ?thesis by (simp add: bucket_count_def bucket_ok_def span_ok_def)
qed

lemma node_count_bound: "rt_core t \<Longrightarrow> node_count t \<le> K * bucket_count t"
proof -
  assume core: "rt_core t"
  have "sum_list (map (\<lambda>b. length (b_nodes b)) bs) \<le> K * length bs"
    if "\<forall>b\<in>set bs. length (b_nodes b) \<le> K" for bs
    using that by (induction bs) auto
  moreover have "\<forall>b\<in>set (rt_buckets t). length (b_nodes b) \<le> K"
    using core by (simp add: rt_core_def bucket_ok_def nodes_ok_def)
  ultimately show ?thesis by (simp add: node_count_def bucket_count_def)
qed

subsection \<open>A newcomer waits only for a full bucket\<close>

lemma add_candidate_contents:
  assumes "add_candidate x t = Some (b, t')"
  shows "map (\<lambda>b. (span b, b_nodes b)) (rt_buckets t') = map (\<lambda>b. (span b, b_nodes b)) (rt_buckets t)"
proof -
  let ?f = "\<lambda>b. (span b, b_nodes b)"
  have sh: "map ?f (rt_buckets (evict_candidates t)) = map ?f (rt_buckets t)"
    using shrunk_evict [OF shrunk_refl, of t]
    by (intro nth_equalityI) (fastforce simp: shrunk_def span_def)+
  have up: "map ?f ((rt_buckets u)[j := (rt_buckets u ! j)\<lparr>b_replacements := rs\<rparr>]) = map ?f (rt_buckets u)"
    for u j rs
  proof (cases "j < length (rt_buckets u)")
    case True
    then show ?thesis by (simp add: map_update list_update_same_conv span_def)
  qed (simp add: list_update_beyond)
  show ?thesis
    using assms
    by (auto simp: add_candidate_def Let_def split: if_splits bind_splits) (simp_all only: up sh)
qed

lemma position_map: "position P (map f xs) = position (\<lambda>x. P (f x)) xs"
  by (induction xs) auto

lemma bucket_index_cong:
  assumes "map (\<lambda>b. (span b, b_nodes b)) (rt_buckets t') = map (\<lambda>b. (span b, b_nodes b)) (rt_buckets t)"
  shows "bucket_index t' i = bucket_index t i"
proof -
  have e: "bucket_index u i = position (\<lambda>s. \<forall>n. n < snd (fst s) \<longrightarrow> bit_value (fst (fst s)) n = bit_value i n)
      (map (\<lambda>b. (span b, b_nodes b)) (rt_buckets u))" for u
    by (simp add: bucket_index_def position_map bucket_contains_iff span_def)
  show ?thesis by (simp only: e assms)
qed

definition no_room :: "routing_table \<Rightarrow> node_id \<Rightarrow> bool" where
  "no_room t i \<longleftrightarrow> (case bucket_index t i of None \<Rightarrow> False
     | Some j \<Rightarrow> length (b_nodes (rt_buckets t ! j)) = K \<and>
         \<not> (bucket_contains (rt_buckets t ! j) (rt_our_id t) \<and> b_prefix_len (rt_buckets t ! j) < 160))"

lemma mark_loop_room:
  "rt_inv t \<Longrightarrow> valid_id i \<Longrightarrow> i \<noteq> rt_our_id t \<Longrightarrow> mark_loop c i addr t = Some (False, t') \<Longrightarrow>
   i \<notin> fst ` entries t \<Longrightarrow> no_room t' i"
proof (induction c i addr t rule: mark_loop.induct)
  case (1 c i addr t)
  have core: "rt_core t" using "1.prems"(1) by (rule rt_inv_core)
  obtain j where j: "bucket_index t i = Some j" "j < length (rt_buckets t)"
    "bucket_contains (rt_buckets t ! j) i" "bucket_ok (rt_our_id t) (rt_buckets t ! j)"
    by (rule rt_index [OF core "1.prems"(2)])
  let ?b = "rt_buckets t ! j"
  have new: "map_of (b_nodes ?b) i = None"
    using entries_lookup [OF core j(2,3)] "1.prems"(5) by (cases "map_of (b_nodes ?b) i") force+
  have full: "\<not> length (b_nodes ?b) < K"
    using "1.prems"(4) new j(1) by (subst (asm) mark_loop.simps) (auto simp: Let_def)
  show ?case
  proof (cases "bucket_contains ?b (rt_our_id t) \<and> b_prefix_len ?b < NODE_ID_LEN * 8")
    case True
    let ?t = "split_bucket c j t"
    have len: "b_prefix_len ?b < 160" using True by (simp add: NODE_ID_LEN_def)
    have inv: "rt_inv ?t"
      using rt_core_split [OF core j(2) _ len] candidate_count_split [OF core j(2)] True "1.prems"(1)
      by (simp add: rt_inv_def)
    have "mark_loop c i addr ?t = Some (False, t')"
      using "1.prems"(4) full True j(1) new by (subst (asm) mark_loop.simps) (simp add: Let_def)
    then show ?thesis
      using "1.IH"(1) [OF j(1) refl new full True inv] "1.prems"(2,3,5) entries_split [OF core j(2)] by simp
  next
    case False
    obtain b where ac: "add_candidate (fresh_contact c i addr) t = Some (b, t')"
      using "1.prems"(4) new j(1) full False find_bad_None [OF core j(2)]
      by (subst (asm) mark_loop.simps) (auto simp: Let_def split: option.splits)
    note same = add_candidate_contents [OF ac]
    have idx: "bucket_index t' i = Some j" using bucket_index_cong [OF same] j(1) by simp
    have len: "j < length (rt_buckets t')" using map_eq_imp_length_eq [OF same] j(2) by simp
    have "(span (rt_buckets t' ! j), b_nodes (rt_buckets t' ! j)) = (span ?b, b_nodes ?b)"
      using arg_cong [OF same, of "\<lambda>xs. xs ! j"] len j(2) by simp
    then have sp: "span (rt_buckets t' ! j) = span ?b" and nd: "b_nodes (rt_buckets t' ! j) = b_nodes ?b"
      by simp_all
    have our: "rt_our_id t' = rt_our_id t"
      using add_candidate_ok [OF "1.prems"(1), of "fresh_contact c i addr"] "1.prems"(2) ac
      by (simp add: fresh_contact_def)
    have "length (b_nodes ?b) = K"
      using full j(4) by (simp add: bucket_ok_def nodes_ok_def)
    then show ?thesis
      using False sp nd our idx contains_span [OF sp] by (simp add: no_room_def span_def NODE_ID_LEN_def)
  qed
qed

text \<open>Concrete contacts for the witnesses.\<close>

definition ex_id :: "u8 \<Rightarrow> node_id" where "ex_id b = replicate 20 b"
definition ex_addr :: "u8 \<Rightarrow> socket_addr_v4" where "ex_addr b = SocketAddrV4 (Ipv4Addr 8 8 8 b) 6881"
definition ex_clock :: clock where "ex_clock = \<lparr>ck_now = 5, ck_unix = 1700000000\<rparr>"
definition ex_table :: routing_table where
  "ex_table = with_candidate_capacity ex_clock (ex_id 1) 16"

lemma valid_ex_id [simp]: "valid_id (ex_id b)"
  by (simp add: ex_id_def valid_id_def NODE_ID_LEN_def)

lemma ex_id_eq [simp]: "ex_id a = ex_id b \<longleftrightarrow> a = b"
  by (simp add: ex_id_def)

lemma rt_inv_ex_table [simp]: "rt_inv ex_table"
  by (simp add: ex_table_def rt_inv_init)

lemma rt_our_id_ex_table [simp]: "rt_our_id ex_table = ex_id 1"
  by (simp add: ex_table_def with_candidate_capacity_def)

definition ex_full_ops :: "routing_op list" where
  "ex_full_ops = map (\<lambda>b. OpValidated ex_clock (ex_id b) (ex_addr b))
     [0x80, 0x81, 0x82, 0x83, 0x84, 0x85, 0x86, 0x87]"

definition ex_full :: routing_table where
  "ex_full = the (fold_opt routing_step ex_full_ops ex_table)"

lemma rt_inv_ex_full [simp]: "rt_inv ex_full"
proof -
  have "run_inv_of (ex_id 1) 16 ex_table"
    by (simp add: run_inv_of_def) (simp add: ex_table_def with_candidate_capacity_def)
  moreover have "list_all op_ok ex_full_ops" by (simp add: ex_full_ops_def)
  ultimately show ?thesis
    using rtm.run_no_panic [of "ex_id 1" 16 ex_table ex_full_ops] by (auto simp: ex_full_def run_inv_of_def)
qed

lemma closest_sorted:
  "sorted (map (\<lambda>x. node_id_distance (nc_id x) target) (closest target n all))"
  unfolding closest_def take_map [symmetric] by (rule sorted_wrt_take) simp

lemma closest_distinct:
  assumes "distinct (map nc_id all)"
  shows "distinct (map nc_id (closest target n all))"
proof -
  have "distinct (map nc_id (sort_key (\<lambda>x. node_id_distance (nc_id x) target) all))"
    using assms by (simp add: distinct_map)
  then show ?thesis unfolding closest_def take_map [symmetric] by (rule distinct_take)
qed

lemma length_live: "length (live_contacts t) = node_count t"
  by (simp add: live_contacts_def node_count_def length_concat comp_def)

subsection \<open>Properties of the routing table\<close>

text \<open>
  C14: from an empty table, any sequence of admissions, validations and failures of 20-byte
  identifiers runs without a panic (the lookup of a bucket never fails), and the table it
  reaches has at most 161 buckets, at most eight live contacts and eight replacements in each
  bucket, no more candidates than its capacity (one, if that is zero), each identifier in
  exactly one bucket, and neither the local identifier nor the same identifier twice among its live
  contacts.
\<close>

theorem routing_run_safe:
  assumes "valid_id our" "list_all op_ok ops"
  shows "\<exists>t. fold_opt routing_step ops (with_candidate_capacity c our m) = Some t \<and>
    bucket_count t \<le> 161 \<and> node_count t \<le> K * bucket_count t \<and> candidate_count t \<le> max 1 m \<and>
    (\<forall>b\<in>set (rt_buckets t). length (b_nodes b) \<le> 8 \<and> length (b_replacements b) \<le> 8) \<and>
    (\<forall>i. valid_id i \<longrightarrow> length (filter (\<lambda>b. bucket_contains b i) (rt_buckets t)) = 1) \<and>
    distinct (map nc_id (live_contacts t)) \<and> our \<notin> nc_id ` set (live_contacts t)"
proof -
  have "run_inv_of our m (with_candidate_capacity c our m)"
    using rt_inv_init [OF assms(1)] by (simp add: run_inv_of_def with_candidate_capacity_def)
  from rtm.run_no_panic [OF this assms(2)]
  obtain t where t: "fold_opt routing_step ops (with_candidate_capacity c our m) = Some t"
    and inv: "rt_inv t" "rt_our_id t = our" "rt_max_candidates t = m"
    by (auto simp: run_inv_of_def)
  have core: "rt_core t" using inv(1) by (rule rt_inv_core)
  have "nc_id x \<noteq> our" if "x \<in> set (live_contacts t)" for x
  proof -
    obtain b p where "b \<in> set (rt_buckets t)" "p \<in> set (b_nodes b)" "x = cr_contact (snd p)"
      using \<open>x \<in> set (live_contacts t)\<close> by (auto simp: live_contacts_def)
    then show ?thesis using rt_core_node(3,4) [OF core] inv(2) by metis
  qed
  then have own: "our \<notin> nc_id ` set (live_contacts t)" by blast
  have "covers (rt_buckets t)" "candidate_count t \<le> max 1 m"
    using core inv by (simp_all add: rt_core_def rt_inv_def)
  moreover have "\<forall>b\<in>set (rt_buckets t). length (b_nodes b) \<le> 8 \<and> length (b_replacements b) \<le> 8"
    using core by (simp add: rt_core_def bucket_ok_def nodes_ok_def replacements_ok_def K_def)
  ultimately show ?thesis
    using t own bucket_count_bound [OF core] node_count_bound [OF core] distinct_live [OF core]
    unfolding covers_def by blast
qed

lemma routing_run_safe_witness:
  "\<exists>t. fold_opt routing_step [OpValidated ex_clock (ex_id 2) (ex_addr 2), OpFailure ex_clock (ex_id 2)]
     (with_candidate_capacity ex_clock (ex_id 1) 16) = Some t \<and> bucket_count t \<le> 161 \<and>
     (\<forall>b\<in>set (rt_buckets t). length (b_nodes b) \<le> 8)"
  using routing_run_safe [of "ex_id 1"
      "[OpValidated ex_clock (ex_id 2) (ex_addr 2), OpFailure ex_clock (ex_id 2)]" ex_clock 16]
  by auto

text \<open>
  C15: marking a contact as validated has exactly the abstract effect on the live contacts: a
  known contact gets the new address, the current time and a clean failure count; a new one
  is inserted when the call answers true; nothing else changes, however many buckets are
  split on the way, and the call ends.
\<close>

theorem mark_validated_refines:
  assumes "rt_inv t" "valid_id i" "i \<noteq> rt_our_id t"
  shows "\<exists>inserted t'. mark_validated c i addr t = Some (inserted, t') \<and>
    entries t' = spec_mark c i addr inserted (entries t) \<and>
    (inserted \<longrightarrow> i \<notin> fst ` entries t)"
  using mark_validated_ok [OF assms(1,2), of c addr] assms(3)
  by (auto simp: ensures_iff mark_post_def)

lemma mark_validated_refines_witness:
  "\<exists>inserted t'. mark_validated ex_clock (ex_id 2) (ex_addr 2) ex_table = Some (inserted, t') \<and>
    entries t' = spec_mark ex_clock (ex_id 2) (ex_addr 2) inserted (entries ex_table)"
  using mark_validated_refines [of ex_table "ex_id 2" ex_clock "ex_addr 2"] by auto

text \<open>
  C16: a validated newcomer is refused only for want of room: when the call answers false for
  a contact that was not live, its bucket afterwards holds eight live contacts and cannot be
  split.
\<close>

theorem newcomer_refused_when_full:
  assumes "rt_inv t" "valid_id i" "i \<noteq> rt_our_id t" "i \<notin> fst ` entries t"
    and "mark_validated c i addr t = Some (False, t')"
  shows "no_room t' i"
  by (rule mark_loop_room [OF assms(1-3) _ assms(4)])
    (use assms(3,5) in \<open>simp add: mark_validated_def\<close>)

lemma newcomer_refused_when_full_witness:
  "\<exists>t'. mark_validated ex_clock (ex_id 0x88) (ex_addr 0x88) ex_full = Some (False, t') \<and>
     no_room t' (ex_id 0x88)"
proof -
  let ?m = "mark_validated ex_clock (ex_id 0x88) (ex_addr 0x88) ex_full"
  have "map_option fst ?m = Some False" by code_simp
  then obtain t' where t': "?m = Some (False, t')" by (cases ?m) auto
  have "ex_id 0x88 \<noteq> rt_our_id ex_full" by code_simp
  moreover have "table_contains ex_full (ex_id 0x88) = Some False" by code_simp
  then have "ex_id 0x88 \<notin> fst ` entries ex_full"
    using table_contains_iff [OF rt_inv_core, of ex_full "ex_id 0x88"] by simp
  ultimately show ?thesis using newcomer_refused_when_full [OF _ _ _ _ t'] t' by simp
qed

text \<open>
  C17: an unanswered query counts against the contact alone: its failure count grows by one,
  at two the contact leaves the table, and every other contact stays as it was.
\<close>

theorem record_failure_refines:
  assumes "rt_inv t" "valid_id i"
  shows "\<exists>t'. record_failure c i t = Some t' \<and> entries t' = spec_failure i (entries t)"
  using record_failure_ok [OF assms, of c] by (auto simp: ensures_iff)

lemma record_failure_refines_witness:
  "\<exists>t'. record_failure ex_clock (ex_id 2) ex_table = Some t' \<and>
     entries t' = spec_failure (ex_id 2) (entries ex_table)"
  using record_failure_refines [of ex_table "ex_id 2" ex_clock] by simp

text \<open>
  C18: of all live contacts, \<open>closest_nodes\<close> answers the nearest ones to the target in XOR
  distance, in the order of their distance, without repetition, as many as were asked for
  or as there are.
\<close>

theorem closest_nodes_nearest:
  assumes "rt_inv t"
  shows "set (closest_nodes t target n) \<subseteq> set (live_contacts t) \<and>
    length (closest_nodes t target n) = min n (node_count t) \<and>
    sorted (map (\<lambda>x. node_id_distance (nc_id x) target) (closest_nodes t target n)) \<and>
    distinct (map nc_id (closest_nodes t target n)) \<and>
    (\<forall>x\<in>set (closest_nodes t target n).
       \<forall>y\<in>set (live_contacts t) - set (closest_nodes t target n).
         node_id_distance (nc_id x) target \<le> node_id_distance (nc_id y) target)"
  unfolding closest_nodes_def
  using closest_set closest_length closest_sorted closest_nearest
    closest_distinct [OF distinct_live [OF rt_inv_core [OF assms]]]
  by (auto simp: length_live)

lemma closest_nodes_nearest_witness:
  "length (closest_nodes ex_table (ex_id 3) 8) = min 8 (node_count ex_table)"
  using closest_nodes_nearest [of ex_table "ex_id 3" 8] by simp

text \<open>
  C19: admitting an unverified candidate never touches the live contacts or the buckets, and
  a contact reported as admitted is then among the candidates.
\<close>

theorem add_candidate_keeps_live:
  assumes "rt_inv t" "valid_id (nc_id x)"
  shows "\<exists>added t'. add_candidate x t = Some (added, t') \<and> rt_inv t' \<and> entries t' = entries t \<and>
    bucket_count t' = bucket_count t \<and> (added \<longrightarrow> nc_id x \<in> candidate_ids t')"
  using add_candidate_ok [OF assms] by (auto simp: ensures_iff)

lemma add_candidate_keeps_live_witness:
  "\<exists>added t'. add_candidate (fresh_contact ex_clock (ex_id 2) (ex_addr 2)) ex_table = Some (added, t') \<and>
     entries t' = entries ex_table"
  using add_candidate_keeps_live [of ex_table "fresh_contact ex_clock (ex_id 2) (ex_addr 2)"]
  by (auto simp: fresh_contact_def)

end
