(* ===== verification/Dht_Codec.thy ===== *)
theory Dht_Codec
  imports Wire Routing
begin

text \<open>
  The stateless half of \<^verbatim>\<open>src/src/dht.rs\<close>: the configuration and the pending-query table,
  compact node and peer encodings with the filter for public addresses, the queries and
  responses of BEP 5 and BEP 51, announce tokens, and the correlation of a response with
  the query it answers.  SHA-1 (crate \<open>sha1\<close>) is the parameter \<open>sha1\<close>.
\<close>

subsection \<open>Configuration and pending queries\<close>

definition LOOKUP_FANOUT :: nat where "LOOKUP_FANOUT = 8"
definition LOOKUP_CONTINUATION_FANOUT :: nat where "LOOKUP_CONTINUATION_FANOUT = 4"
definition MAX_PACKET_SIZE :: nat where "MAX_PACKET_SIZE = 8192"

record dht_config =
  dc_max_pending_rpcs :: nat
  dc_max_discovery_hashes :: nat
  dc_max_candidate_nodes :: nat
  dc_max_peers_per_hash :: nat
  dc_rpc_timeout :: duration
  dc_sampling_enabled :: bool
  dc_sampling_interval :: duration
  dc_sampling_min_remote_interval :: duration
  dc_sampling_requests_per_tick :: nat
  dc_max_samples_per_response :: nat
  dc_announced_peer_hash_capacity :: nat
  dc_announced_peers_per_hash :: nat
  dc_announced_peer_ttl :: duration

definition default_dht_config :: dht_config where
  "default_dht_config =
     \<lparr>dc_max_pending_rpcs = 4096, dc_max_discovery_hashes = 50000, dc_max_candidate_nodes = 8192,
      dc_max_peers_per_hash = 64, dc_rpc_timeout = secs 30, dc_sampling_enabled = False,
      dc_sampling_interval = secs 5, dc_sampling_min_remote_interval = secs 300,
      dc_sampling_requests_per_tick = 1, dc_max_samples_per_response = 256,
      dc_announced_peer_hash_capacity = 10000, dc_announced_peers_per_hash = 64,
      dc_announced_peer_ttl = secs 1800\<rparr>"

datatype rpc_method = Ping | FindNode | GetPeers | SampleHashes

record pending_rpc =
  pr_expected_addr :: socket_addr_v4
  pr_expected_node_id :: "node_id option"
  pr_method :: rpc_method
  pr_target :: node_id
  pr_info_hash :: "info_hash option"
  pr_is_real_lookup :: bool
  pr_deadline :: instant
  pr_continuation_budget :: u8
  pr_lookup_id :: "u64 option"

datatype correlation_error = Unsolicited | UnexpectedSource | Malformed

record sample_response =
  sr_node_id :: node_id
  sr_interval :: duration
  sr_total_num :: u64
  sr_samples :: "info_hash list"
  sr_nodes :: "node_contact list"

record cached_peer =
  cp_peer :: peer_contact
  cp_expires_at :: instant

subsection \<open>Public addresses\<close>

text \<open>The classifications of \<open>std::net::Ipv4Addr\<close> the filter calls.\<close>

fun is_unspecified :: "ipv4_addr \<Rightarrow> bool" where
  "is_unspecified (Ipv4Addr a b c d) = (a = 0 \<and> b = 0 \<and> c = 0 \<and> d = 0)"

fun is_broadcast :: "ipv4_addr \<Rightarrow> bool" where
  "is_broadcast (Ipv4Addr a b c d) = (a = 255 \<and> b = 255 \<and> c = 255 \<and> d = 255)"

fun is_multicast :: "ipv4_addr \<Rightarrow> bool" where
  "is_multicast (Ipv4Addr a b c d) = (224 \<le> a \<and> a \<le> 239)"

fun is_loopback :: "ipv4_addr \<Rightarrow> bool" where
  "is_loopback (Ipv4Addr a b c d) = (a = 127)"

fun is_private :: "ipv4_addr \<Rightarrow> bool" where
  "is_private (Ipv4Addr a b c d) =
     (a = 10 \<or> (a = 172 \<and> 16 \<le> b \<and> b \<le> 31) \<or> (a = 192 \<and> b = 168))"

fun is_link_local :: "ipv4_addr \<Rightarrow> bool" where
  "is_link_local (Ipv4Addr a b c d) = (a = 169 \<and> b = 254)"

fun is_public_ipv4 :: "ipv4_addr \<Rightarrow> bool" where
  "is_public_ipv4 (Ipv4Addr a b c d) =
     (let ip = Ipv4Addr a b c d in
      \<not> (is_unspecified ip
         \<or> is_broadcast ip
         \<or> is_multicast ip
         \<or> is_loopback ip
         \<or> is_private ip
         \<or> is_link_local ip
         \<or> a = 0
         \<or> (a = 100 \<and> 64 \<le> b \<and> b \<le> 127)
         \<or> (a = 192 \<and> b = 0 \<and> c = 0)
         \<or> (a = 192 \<and> b = 0 \<and> c = 2)
         \<or> (a = 192 \<and> b = 88 \<and> c = 99)
         \<or> (a = 198 \<and> b = 51 \<and> c = 100)
         \<or> (a = 203 \<and> b = 0 \<and> c = 113)
         \<or> (a = 198 \<and> 18 \<le> b \<and> b \<le> 19)
         \<or> 240 \<le> a))"

definition is_public_endpoint :: "socket_addr_v4 \<Rightarrow> bool" where
  "is_public_endpoint addr \<longleftrightarrow> sa_port addr \<noteq> 0 \<and> is_public_ipv4 (sa_ip addr)"

text \<open>\<open>record_hash_observation\<close> answers whether the hash counts, with the new counter.\<close>

definition record_hash_observation :: "nat \<Rightarrow> info_hash \<Rightarrow> bool \<times> nat" where
  "record_hash_observation info_hashes_found h =
     (if h = zero_hash then (False, info_hashes_found)
      else (True, min (info_hashes_found + 1) USIZE_MAX))"

subsection \<open>Queries and responses\<close>

definition transaction_id_bytes :: "u16 \<Rightarrow> bytes" where
  "transaction_id_bytes i = u16_be i"

definition query_args :: "rpc_method \<Rightarrow> node_id \<Rightarrow> node_id \<Rightarrow> krpc_dict \<times> rstring" where
  "query_args method our_id target =
     (let args = fmupd (str ''id'') (KBytes our_id) fmempty in
      case method of
        Ping \<Rightarrow> (args, str ''ping'')
      | FindNode \<Rightarrow> (fmupd (str ''target'') (KBytes target) args, str ''find_node'')
      | GetPeers \<Rightarrow> (fmupd (str ''info_hash'') (KBytes target) args, str ''get_peers'')
      | SampleHashes \<Rightarrow> (fmupd (str ''target'') (KBytes target) args, str ''sample_infohashes''))"

definition query_message :: "rpc_method \<Rightarrow> node_id \<Rightarrow> node_id \<Rightarrow> u16 \<Rightarrow> krpc_message" where
  "query_message method our_id target tx =
     (case query_args method our_id target of (args, query) \<Rightarrow>
        Query (transaction_id_bytes tx) (str ''q'') query args
          (fmupd (str ''v'') (KBytes (str ''BF01'')) fmempty))"

definition build_ping_query :: "node_id \<Rightarrow> u16 \<Rightarrow> krpc_message" where
  "build_ping_query node_id tx_id = query_message Ping node_id node_id tx_id"

definition build_find_node_query :: "node_id \<Rightarrow> node_id \<Rightarrow> u16 \<Rightarrow> krpc_message" where
  "build_find_node_query node_id target tx_id = query_message FindNode node_id target tx_id"

definition build_get_peers_query :: "node_id \<Rightarrow> info_hash \<Rightarrow> u16 \<Rightarrow> krpc_message" where
  "build_get_peers_query node_id h tx_id = query_message GetPeers node_id h tx_id"

definition build_sample_infohashes_query :: "node_id \<Rightarrow> node_id \<Rightarrow> u16 \<Rightarrow> krpc_message" where
  "build_sample_infohashes_query node_id target tx_id = query_message SampleHashes node_id target tx_id"

definition build_find_node_response :: "node_id \<Rightarrow> bytes \<Rightarrow> bytes \<Rightarrow> krpc_message" where
  "build_find_node_response node_id nodes tx =
     Response tx (str ''r'')
       (fmupd (str ''nodes'') (KBytes nodes) (fmupd (str ''id'') (KBytes node_id) fmempty)) fmempty"

definition response_message :: "node_id \<Rightarrow> bytes \<Rightarrow> krpc_dict \<Rightarrow> krpc_message" where
  "response_message i transaction values =
     Response transaction (str ''r'') (fmupd (str ''id'') (KBytes i) values) fmempty"

definition error_message :: "bytes \<Rightarrow> rstring \<Rightarrow> krpc_message" where
  "error_message transaction description =
     Error transaction (str ''e'') \<lparr>ke_code = 203, ke_description = description\<rparr> fmempty"

subsection \<open>Compact encodings\<close>

definition compact_addr :: "socket_addr_v4 \<Rightarrow> bytes" where
  "compact_addr addr = octets (sa_ip addr) @ u16_be (sa_port addr)"

definition addr_of_chunk :: "nat \<Rightarrow> bytes \<Rightarrow> socket_addr_v4" where
  "addr_of_chunk i chunk =
     SocketAddrV4 (Ipv4Addr (chunk ! i) (chunk ! (i + 1)) (chunk ! (i + 2)) (chunk ! (i + 3)))
       (u16_of_be [chunk ! (i + 4), chunk ! (i + 5)])"

definition node_of_chunk :: "clock \<Rightarrow> bytes \<Rightarrow> node_contact option" where
  "node_of_chunk c chunk =
     (let addr = addr_of_chunk 20 chunk in
      if is_public_endpoint addr
      then Some \<lparr>nc_id = take NODE_ID_LEN chunk, nc_addr = addr, nc_last_seen = ck_now c,
                 nc_last_seen_unix = ck_unix c\<rparr>
      else None)"

definition decode_compact_nodes :: "clock \<Rightarrow> bytes \<Rightarrow> node_contact list" where
  "decode_compact_nodes c data =
     (if length data mod (NODE_ID_LEN + 6) \<noteq> 0 then []
      else List.map_filter (node_of_chunk c) (chunks (NODE_ID_LEN + 6) data))"

definition compact_node :: "node_contact \<Rightarrow> bytes" where
  "compact_node node = nc_id node @ compact_addr (nc_addr node)"

definition encode_compact_nodes :: "node_contact list \<Rightarrow> bytes" where
  "encode_compact_nodes nodes = concat (map compact_node nodes)"

definition peer_of_chunk :: "bytes \<Rightarrow> peer_contact option" where
  "peer_of_chunk chunk =
     (let addr = addr_of_chunk 0 chunk in
      if is_public_endpoint addr then Some \<lparr>pc_addr = addr\<rparr> else None)"

definition decode_compact_peers :: "bytes \<Rightarrow> peer_contact list" where
  "decode_compact_peers data =
     (if length data mod 6 \<noteq> 0 then [] else List.map_filter peer_of_chunk (chunks 6 data))"

definition encode_compact_peer :: "peer_contact \<Rightarrow> bytes" where
  "encode_compact_peer peer = compact_addr (pc_addr peer)"

subsection \<open>Reading responses\<close>

definition nodes_field :: "clock \<Rightarrow> krpc_dict \<Rightarrow> node_contact list" where
  "nodes_field c r =
     (case fmlookup r (str ''nodes'') of
        Some (KBytes bytes) \<Rightarrow> decode_compact_nodes c bytes
      | _ \<Rightarrow> [])"

definition values_field :: "krpc_dict \<Rightarrow> peer_contact list" where
  "values_field r =
     (case fmlookup r (str ''values'') of
        Some (KList values) \<Rightarrow>
          concat (List.map_filter
            (\<lambda>v. case v of KBytes bytes \<Rightarrow> Some (decode_compact_peers bytes) | _ \<Rightarrow> None) values)
      | Some (KBytes bytes) \<Rightarrow> decode_compact_peers bytes
      | _ \<Rightarrow> [])"

definition parse_get_peers_response ::
  "clock \<Rightarrow> krpc_message \<Rightarrow> peer_contact list \<times> node_contact list" where
  "parse_get_peers_response c msg =
     (case msg of
        Response t y r extra \<Rightarrow> (values_field r, nodes_field c r)
      | _ \<Rightarrow> ([], []))"

definition extract_node_id :: "krpc_message \<Rightarrow> node_id option" where
  "extract_node_id msg = do {
     values \<leftarrow> (case msg of
        Query t y q a extra \<Rightarrow> Some a
      | Response t y r extra \<Rightarrow> Some r
      | Error t y e extra \<Rightarrow> None);
     (case fmlookup values (str ''id'') of
        Some (KBytes bytes) \<Rightarrow> if length bytes \<noteq> NODE_ID_LEN then None else Some bytes
      | _ \<Rightarrow> None)
   }"

definition parse_sample_fields ::
  "clock \<Rightarrow> krpc_dict \<Rightarrow> node_id \<Rightarrow> nat \<Rightarrow> rstring + sample_response" where
  "parse_sample_fields c r i max_samples =
     (case fmlookup r (str ''interval'') of
        Some (KInt interval) \<Rightarrow>
          if \<not> (1 \<le> sint interval \<and> sint interval \<le> 86400) then Inl (str ''invalid sample interval'')
          else (case fmlookup r (str ''num'') of
             Some (KInt total_num) \<Rightarrow>
               if sint total_num < 0 then Inl (str ''invalid sample count'')
               else (case fmlookup r (str ''samples'') of
                  Some (KBytes bytes) \<Rightarrow>
                    if length bytes mod 20 \<noteq> 0 \<or> max_samples < length bytes div 20
                    then Inl (str ''invalid samples payload length'')
                    else Inr \<lparr>sr_node_id = i, sr_interval = secs (nat (sint interval)),
                              sr_total_num = total_num, sr_samples = chunks 20 bytes,
                              sr_nodes = nodes_field c r\<rparr>
                | _ \<Rightarrow> Inl (str ''missing samples''))
           | _ \<Rightarrow> Inl (str ''invalid sample count''))
      | _ \<Rightarrow> Inl (str ''invalid sample interval''))"

definition parse_sample_infohashes_response ::
  "clock \<Rightarrow> krpc_message \<Rightarrow> nat \<Rightarrow> rstring + sample_response" where
  "parse_sample_infohashes_response c msg max_samples =
     (case msg of
        Response t y r extra \<Rightarrow>
          (case extract_node_id msg of
             None \<Rightarrow> Inl (str ''missing response node id'')
           | Some i \<Rightarrow> parse_sample_fields c r i max_samples)
      | _ \<Rightarrow> Inl (str ''not a response''))"

definition is_bytes :: "krpc_value option \<Rightarrow> bool" where
  "is_bytes v = (case v of Some (KBytes b) \<Rightarrow> True | _ \<Rightarrow> False)"

definition is_int :: "krpc_value option \<Rightarrow> bool" where
  "is_int v = (case v of Some (KInt i) \<Rightarrow> True | _ \<Rightarrow> False)"

definition is_list :: "krpc_value option \<Rightarrow> bool" where
  "is_list v = (case v of Some (KList l) \<Rightarrow> True | _ \<Rightarrow> False)"

definition response_has_shape :: "krpc_message \<Rightarrow> rpc_method \<Rightarrow> bool" where
  "response_has_shape msg method =
     (case msg of
        Response t y r extra \<Rightarrow>
          extract_node_id msg \<noteq> None \<and>
          (case method of
             Ping \<Rightarrow> True
           | FindNode \<Rightarrow> is_bytes (fmlookup r (str ''nodes''))
           | GetPeers \<Rightarrow> is_bytes (fmlookup r (str ''nodes''))
               \<or> is_list (fmlookup r (str ''values'')) \<or> is_bytes (fmlookup r (str ''values''))
           | SampleHashes \<Rightarrow> is_int (fmlookup r (str ''interval''))
               \<and> is_int (fmlookup r (str ''num'')) \<and> is_bytes (fmlookup r (str ''samples'')))
      | _ \<Rightarrow> False)"

subsection \<open>Correlation\<close>

type_synonym pending_table = "(bytes \<times> pending_rpc) list"

definition correlate_response ::
  "pending_table \<Rightarrow> krpc_message \<Rightarrow> socket_addr_v4 \<Rightarrow>
   pending_table \<times> (correlation_error + pending_rpc \<times> node_id)" where
  "correlate_response pending_rpcs message source =
     (let transaction = transaction_id message in
      case map_of pending_rpcs transaction of
        None \<Rightarrow> (pending_rpcs, Inl Unsolicited)
      | Some pending \<Rightarrow>
          if pr_expected_addr pending \<noteq> source then (pending_rpcs, Inl UnexpectedSource)
          else case extract_node_id message of
            None \<Rightarrow> (AList.delete transaction pending_rpcs, Inl Malformed)
          | Some response_id \<Rightarrow>
              if (\<exists>expected \<in> set_option (pr_expected_node_id pending). expected \<noteq> response_id)
                 \<or> \<not> response_has_shape message (pr_method pending)
              then (AList.delete transaction pending_rpcs, Inl Malformed)
              else (AList.delete transaction pending_rpcs, Inr (pending, response_id)))"

subsection \<open>Tokens\<close>

definition current_token_bucket :: "clock \<Rightarrow> u64" where
  "current_token_bucket c = of_nat (nat (ck_unix c) div 300)"

definition hmac_key :: "(bytes \<Rightarrow> bytes) \<Rightarrow> bytes \<Rightarrow> bytes" where
  "hmac_key sha1 key =
     (let k = (if 64 < length key then sha1 key else key) in k @ replicate (64 - length k) 0)"

definition hmac_sha1 :: "(bytes \<Rightarrow> bytes) \<Rightarrow> bytes \<Rightarrow> bytes \<Rightarrow> bytes" where
  "hmac_sha1 sha1 key data =
     (let normalized = hmac_key sha1 key;
          inner_pad = map (\<lambda>b. 0x36 XOR b) normalized;
          outer_pad = map (\<lambda>b. 0x5c XOR b) normalized
      in sha1 (outer_pad @ sha1 (inner_pad @ data)))"

definition make_token_for_bucket :: "(bytes \<Rightarrow> bytes) \<Rightarrow> bytes \<Rightarrow> ipv4_addr \<Rightarrow> u64 \<Rightarrow> bytes" where
  "make_token_for_bucket sha1 secret ip bucket = hmac_sha1 sha1 secret (octets ip @ u64_be bucket)"

definition make_token :: "(bytes \<Rightarrow> bytes) \<Rightarrow> clock \<Rightarrow> bytes \<Rightarrow> ipv4_addr \<Rightarrow> bytes" where
  "make_token sha1 c secret ip = make_token_for_bucket sha1 secret ip (current_token_bucket c)"

definition constant_time_eq :: "bytes \<Rightarrow> bytes \<Rightarrow> bool" where
  "constant_time_eq left right =
     (if length left \<noteq> length right then False
      else foldl (\<lambda>difference (a, b). difference OR (a XOR b)) (0 :: u8) (zip left right) = 0)"

definition saturating_dec :: "u64 \<Rightarrow> u64" where
  "saturating_dec n = (if n = 0 then 0 else n - 1)"

definition validate_token ::
  "(bytes \<Rightarrow> bytes) \<Rightarrow> clock \<Rightarrow> bytes \<Rightarrow> ipv4_addr \<Rightarrow> bytes \<Rightarrow> bool" where
  "validate_token sha1 c secret ip token =
     (let bucket = current_token_bucket c in
      constant_time_eq token (make_token_for_bucket sha1 secret ip bucket)
      \<or> constant_time_eq token (make_token_for_bucket sha1 secret ip (saturating_dec bucket)))"


subsection \<open>The address filter against the registry of special-purpose blocks\<close>

text \<open>
  The blocks of the IANA registry the crawler must not contact, as a network and a prefix
  length; an address is in a block when the two agree on the prefix.
\<close>

definition in_block :: "ipv4_addr \<Rightarrow> ipv4_addr \<times> nat \<Rightarrow> bool" where
  "in_block ip block \<longleftrightarrow>
     be_value (octets ip) div 2 ^ (32 - snd block) = be_value (octets (fst block)) div 2 ^ (32 - snd block)"

definition reserved_blocks :: "(ipv4_addr \<times> nat) list" where
  "reserved_blocks =
     [(Ipv4Addr 0 0 0 0, 8), (Ipv4Addr 10 0 0 0, 8), (Ipv4Addr 100 64 0 0, 10), (Ipv4Addr 127 0 0 0, 8),
      (Ipv4Addr 169 254 0 0, 16), (Ipv4Addr 172 16 0 0, 12), (Ipv4Addr 192 0 0 0, 24),
      (Ipv4Addr 192 0 2 0, 24), (Ipv4Addr 192 88 99 0, 24), (Ipv4Addr 192 168 0 0, 16),
      (Ipv4Addr 198 18 0 0, 15), (Ipv4Addr 198 51 100 0, 24), (Ipv4Addr 203 0 113 0, 24),
      (Ipv4Addr 224 0 0 0, 4), (Ipv4Addr 240 0 0 0, 4)]"

lemma be_value_4: "be_value [a, b, c, d] = ((unat a * 256 + unat b) * 256 + unat c) * 256 + unat d"
  by (simp add: be_value_def)

lemma digit_eq:
  assumes "c < k" "c' < k"
  shows "x * k + c = y * k + c' \<longleftrightarrow> x = y \<and> c = (c'::nat)"
proof
  assume e: "x * k + c = y * k + c'"
  have "(x * k + c) div k = x" "(y * k + c') div k = y" using assms by simp_all
  then have "x = y" by (simp only: e)
  then show "x = y \<and> c = c'" using e by simp
qed simp

lemmas base256 = digit_eq [where k = 256]

lemma u8_less: "unat (v :: u8) < 256"
  using unat_lt2p_nat [of v] by simp

lemma value_div8: "d < 256 \<Longrightarrow> (x * 256 + d) div 256 = (x::nat)"
  by simp

lemma value_div_high:
  assumes "c < 256" "d < 256"
  shows "(((x::nat) * 256 + c) * 256 + d) div (256 * 256 * k) = x div k"
  by (simp only: div_mult2_eq value_div8 assms)

lemma in_block_24: "in_block (Ipv4Addr a b c d) (Ipv4Addr x y z w, 24) \<longleftrightarrow> a = x \<and> b = y \<and> c = z"
proof -
  have p: "(2::nat) ^ (32 - 24) = 256" by simp
  show ?thesis
    unfolding in_block_def octets.simps be_value_4 fst_conv snd_conv p value_div8 [OF u8_less]
      base256 [OF u8_less u8_less] by (simp add: word_unat_eq_iff)
qed

lemma in_block_high:
  assumes "len \<le> 16"
  shows "in_block (Ipv4Addr a b c d) (Ipv4Addr x y z w, len) \<longleftrightarrow>
    (unat a * 256 + unat b) div 2 ^ (16 - len) = (unat x * 256 + unat y) div 2 ^ (16 - len)"
proof -
  have "32 - len = 16 + (16 - len)" using assms by simp
  then have e: "(2::nat) ^ (32 - len) = 256 * 256 * 2 ^ (16 - len)" by (simp only: power_add) simp
  show ?thesis
    unfolding in_block_def octets.simps be_value_4 fst_conv snd_conv e
      value_div_high [OF u8_less u8_less] ..
qed

text \<open>The prefixes that end inside the first two bytes.\<close>

lemma two_bytes_div:
  fixes x y :: nat
  assumes "y < 256"
  shows "(x * 256 + y) div 256 = x" and "(x * 256 + y) div 64 = x * 4 + y div 64"
    and "(x * 256 + y) div 16 = x * 16 + y div 16" and "(x * 256 + y) div 2 = x * 128 + y div 2"
    and "(x * 256 + y) div 4096 = x div 16"
proof -
  show one: "(x * 256 + y) div 256 = x" using assms by simp
  have e: "x * 256 + y = y + (x * 4) * 64" "x * 256 + y = y + (x * 16) * 16" "x * 256 + y = y + (x * 128) * 2"
    by simp_all
  show "(x * 256 + y) div 64 = x * 4 + y div 64" unfolding e(1) by (rule div_mult_self1) simp
  show "(x * 256 + y) div 16 = x * 16 + y div 16" unfolding e(2) by (rule div_mult_self1) simp
  show "(x * 256 + y) div 2 = x * 128 + y div 2" unfolding e(3) by (rule div_mult_self1) simp
  have "(x * 256 + y) div (256 * 16) = x div 16" by (simp only: div_mult2_eq one)
  then show "(x * 256 + y) div 4096 = x div 16" by simp
qed

lemma byte_div:
  assumes "0 < k"
  shows "y div k = q \<longleftrightarrow> q * k \<le> y \<and> y < q * k + (k::nat)"
proof
  assume "y div k = q"
  then have "y = q * k + y mod k" using div_mult_mod_eq [of y k] by simp
  moreover have "y mod k < k" using assms by simp
  ultimately show "q * k \<le> y \<and> y < q * k + k" by linarith
next
  assume "q * k \<le> y \<and> y < q * k + k"
  then show "y div k = q" by (intro div_nat_eqI) (simp_all add: mult.commute)
qed

lemma byte_ranges:
  fixes y :: nat
  shows "y div 64 = 1 \<longleftrightarrow> 64 \<le> y \<and> y \<le> 127" "y div 16 = 1 \<longleftrightarrow> 16 \<le> y \<and> y \<le> 31"
    "y div 2 = 9 \<longleftrightarrow> 18 \<le> y \<and> y \<le> 19"
    "y div 16 = 14 \<longleftrightarrow> 224 \<le> y \<and> y \<le> 239" "y < 256 \<Longrightarrow> y div 16 = 15 \<longleftrightarrow> 240 \<le> y"
proof -
  show "y div 64 = 1 \<longleftrightarrow> 64 \<le> y \<and> y \<le> 127" by (subst byte_div, simp, linarith)
  show "y div 16 = 1 \<longleftrightarrow> 16 \<le> y \<and> y \<le> 31" by (subst byte_div, simp, linarith)
  show "y div 2 = 9 \<longleftrightarrow> 18 \<le> y \<and> y \<le> 19" by (subst byte_div, simp, linarith)
  show "y div 16 = 14 \<longleftrightarrow> 224 \<le> y \<and> y \<le> 239" by (subst byte_div, simp, linarith)
  assume "y < 256"
  then show "y div 16 = 15 \<longleftrightarrow> 240 \<le> y" by (subst byte_div, simp, linarith)
qed

lemma public_iff_not_reserved: "is_public_ipv4 ip \<longleftrightarrow> \<not> list_ex (in_block ip) reserved_blocks"
proof (cases ip)
  case (Ipv4Addr a b c d)
  note two = two_bytes_div [OF u8_less]
  note high = in_block_high [of _ a b c d]
  have 8: "in_block ip (Ipv4Addr x 0 0 0, 8) \<longleftrightarrow> a = x" for x
    using high [of 8 x 0 0 0] two(1) [of "unat a" b] two(1) [of "unat x" 0]
    by (simp add: Ipv4Addr word_unat_eq_iff)
  have 16: "in_block ip (Ipv4Addr x y 0 0, 16) \<longleftrightarrow> a = x \<and> b = y" for x y
    using high [of 16 x y 0 0] base256 [OF u8_less [of b] u8_less [of y]]
    by (simp add: Ipv4Addr word_unat_eq_iff)
  have b10: "in_block ip (Ipv4Addr 100 64 0 0, 10) \<longleftrightarrow> a = 100 \<and> 64 \<le> b \<and> b \<le> 127"
  proof -
    have "in_block ip (Ipv4Addr 100 64 0 0, 10) \<longleftrightarrow> unat a * 4 + unat b div 64 = 401"
      using high [of 10 100 64 0 0] two(2) [of "unat a" b] by (simp add: Ipv4Addr)
    also have "\<dots> \<longleftrightarrow> unat a = 100 \<and> unat b div 64 = 1"
      using digit_eq [of "unat b div 64" 4 1 "unat a" 100] u8_less [of b] by simp
    also have "unat b div 64 = 1 \<longleftrightarrow> 64 \<le> unat b \<and> unat b \<le> 127" by (rule byte_ranges(1))
    finally show ?thesis by (simp add: word_unat_eq_iff word_le_nat_alt)
  qed
  have b12: "in_block ip (Ipv4Addr 172 16 0 0, 12) \<longleftrightarrow> a = 172 \<and> 16 \<le> b \<and> b \<le> 31"
  proof -
    have "in_block ip (Ipv4Addr 172 16 0 0, 12) \<longleftrightarrow> unat a * 16 + unat b div 16 = 2753"
      using high [of 12 172 16 0 0] two(3) [of "unat a" b] by (simp add: Ipv4Addr)
    also have "\<dots> \<longleftrightarrow> unat a = 172 \<and> unat b div 16 = 1"
      using digit_eq [of "unat b div 16" 16 1 "unat a" 172] u8_less [of b] by simp
    also have "unat b div 16 = 1 \<longleftrightarrow> 16 \<le> unat b \<and> unat b \<le> 31" by (rule byte_ranges(2))
    finally show ?thesis by (simp add: word_unat_eq_iff word_le_nat_alt)
  qed
  have b15: "in_block ip (Ipv4Addr 198 18 0 0, 15) \<longleftrightarrow> a = 198 \<and> 18 \<le> b \<and> b \<le> 19"
  proof -
    have "in_block ip (Ipv4Addr 198 18 0 0, 15) \<longleftrightarrow> unat a * 128 + unat b div 2 = 25353"
      using high [of 15 198 18 0 0] two(4) [of "unat a" b] by (simp add: Ipv4Addr)
    also have "\<dots> \<longleftrightarrow> unat a = 198 \<and> unat b div 2 = 9"
      using digit_eq [of "unat b div 2" 128 9 "unat a" 198] u8_less [of b] by simp
    also have "unat b div 2 = 9 \<longleftrightarrow> 18 \<le> unat b \<and> unat b \<le> 19" by (rule byte_ranges(3))
    finally show ?thesis by (simp add: word_unat_eq_iff word_le_nat_alt)
  qed
  have b14: "in_block ip (Ipv4Addr 224 0 0 0, 4) \<longleftrightarrow> 224 \<le> a \<and> a \<le> 239"
    and b15': "in_block ip (Ipv4Addr 240 0 0 0, 4) \<longleftrightarrow> 240 \<le> a"
    using high [of 4 224 0 0 0] high [of 4 240 0 0 0] two(5) [of "unat a" b] u8_less [of a]
      byte_ranges(4,5) [of "unat a"]
    by (simp_all add: Ipv4Addr word_le_nat_alt)
  have bc: "a = 255 \<and> b = 255 \<and> c = 255 \<and> d = 255 \<Longrightarrow> 240 \<le> a" by simp
  have "list_ex (in_block ip) reserved_blocks \<longleftrightarrow>
      a = 0 \<or> a = 10 \<or> (a = 100 \<and> 64 \<le> b \<and> b \<le> 127) \<or> a = 127 \<or> (a = 169 \<and> b = 254)
      \<or> (a = 172 \<and> 16 \<le> b \<and> b \<le> 31) \<or> (a = 192 \<and> b = 0 \<and> c = 0) \<or> (a = 192 \<and> b = 0 \<and> c = 2)
      \<or> (a = 192 \<and> b = 88 \<and> c = 99) \<or> (a = 192 \<and> b = 168) \<or> (a = 198 \<and> 18 \<le> b \<and> b \<le> 19)
      \<or> (a = 198 \<and> b = 51 \<and> c = 100) \<or> (a = 203 \<and> b = 0 \<and> c = 113) \<or> (224 \<le> a \<and> a \<le> 239) \<or> 240 \<le> a"
    unfolding reserved_blocks_def list_ex_Cons_iff list_ex_Nil_iff 8 16 b10 b12 b15 b14 b15'
    by (simp only: Ipv4Addr in_block_24 simp_thms)
  then show ?thesis
    unfolding Ipv4Addr is_public_ipv4.simps Let_def is_unspecified.simps is_broadcast.simps
      is_multicast.simps is_loopback.simps is_private.simps is_link_local.simps
    using bc by argo
qed

subsection \<open>Compact encodings are fixed-width codecs\<close>

lemma compact_addr_nth:
  assumes "length pre = i"
  shows "addr_of_chunk i (pre @ compact_addr a @ rest) = a"
proof -
  obtain x y where u: "u16_be (sa_port a) = [x, y]" by (rule u16_be_list)
  then have p: "u16_of_be [x, y] = sa_port a" by (metis u16_of_be_u16_be)
  have n: "(pre @ xs) ! (i + k) = xs ! k" for xs k using assms by (simp add: nth_append)
  have n0: "(pre @ xs) ! i = xs ! 0" "(pre @ xs) ! Suc i = xs ! 1" "(pre @ xs) ! Suc (Suc i) = xs ! 2" for xs
    using n [of xs 0] n [of xs 1] n [of xs 2] by simp_all
  show ?thesis by (cases a; cases "sa_ip a") (use u p in \<open>simp add: addr_of_chunk_def compact_addr_def n n0\<close>)
qed

lemma length_compact_addr [simp, wire_simps]: "length (compact_addr a) = 6"
  by (simp add: compact_addr_def)

lemma addr_of_chunk_0: "addr_of_chunk 0 (compact_addr a) = a"
  using compact_addr_nth [of "[]" 0 a "[]"] by simp

interpretation cp: fixed_codec encode_compact_peer peer_of_chunk "\<lambda>p. is_public_endpoint (pc_addr p)" 6
  by unfold_locales
    (simp_all add: encode_compact_peer_def peer_of_chunk_def Let_def addr_of_chunk_0)

definition node_seen :: "clock \<Rightarrow> node_contact \<Rightarrow> node_contact" where
  "node_seen c x = x\<lparr>nc_last_seen := ck_now c, nc_last_seen_unix := ck_unix c\<rparr>"

lemma node_of_compact:
  assumes "valid_id (nc_id x)"
  shows "node_of_chunk c (compact_node x) =
    (if is_public_endpoint (nc_addr x) then Some (node_seen c x) else None)"
proof -
  have "addr_of_chunk 20 (compact_node x) = nc_addr x"
    using compact_addr_nth [of "nc_id x" 20 "nc_addr x" "[]"] assms by (simp add: compact_node_def)
  then show ?thesis using assms
    by (simp add: node_of_chunk_def compact_node_def NODE_ID_LEN_def node_seen_def)
qed

definition fresh_public :: "clock \<Rightarrow> node_contact \<Rightarrow> bool" where
  "fresh_public c x \<longleftrightarrow> valid_id (nc_id x) \<and> is_public_endpoint (nc_addr x) \<and> node_seen c x = x"

interpretation cn: fixed_codec compact_node "node_of_chunk c" "fresh_public c" 26 for c
proof
  fix x assume x: "fresh_public c x"
  then show "node_of_chunk c (compact_node x) = Some x"
    by (simp add: fresh_public_def node_of_compact)
  show "length (compact_node x) = 26" using x by (simp add: fresh_public_def compact_node_def)
qed simp

lemma map_filter_alt: "List.map_filter f xs = map (the \<circ> f) (filter (\<lambda>x. f x \<noteq> None) xs)"
  by (induction xs) (auto simp: List.map_filter_simps)

lemma decode_encode_nodes:
  assumes "\<forall>x\<in>set xs. valid_id (nc_id x)"
  shows "decode_compact_nodes c (encode_compact_nodes xs) =
    map (node_seen c) (filter (\<lambda>x. is_public_endpoint (nc_addr x)) xs)"
proof -
  have len: "\<forall>y\<in>set (map compact_node xs). length y = 26"
    using assms by (auto simp: compact_node_def)
  have "length (encode_compact_nodes xs) = 26 * length xs"
    using assms by (induction xs) (auto simp: encode_compact_nodes_def compact_node_def)
  moreover have "chunks 26 (encode_compact_nodes xs) = map compact_node xs"
    unfolding encode_compact_nodes_def by (rule chunks_concat) (use len in simp_all)
  moreover have "List.map_filter (node_of_chunk c) (map compact_node xs) =
      map (node_seen c) (filter (\<lambda>x. is_public_endpoint (nc_addr x)) xs)"
    using assms by (induction xs) (auto simp: List.map_filter_simps node_of_compact)
  ultimately show ?thesis by (simp add: decode_compact_nodes_def NODE_ID_LEN_def)
qed

lemma decoded_node_ok:
  assumes "x \<in> set (decode_compact_nodes c data)"
  shows "valid_id (nc_id x)" "is_public_endpoint (nc_addr x)"
    "nc_last_seen x = ck_now c" "nc_last_seen_unix x = ck_unix c"
proof -
  obtain ch where ch: "ch \<in> set (chunks 26 data)" "node_of_chunk c ch = Some x"
    using assms by (auto simp: decode_compact_nodes_def map_filter_alt NODE_ID_LEN_def split: if_splits)
  then have "length ch = 26" using chunks_length by blast
  then show "valid_id (nc_id x)" "is_public_endpoint (nc_addr x)"
    "nc_last_seen x = ck_now c" "nc_last_seen_unix x = ck_unix c"
    using ch(2) by (auto simp: node_of_chunk_def valid_id_def NODE_ID_LEN_def Let_def split: if_splits)
qed

lemma decoded_peer_ok: "p \<in> set (decode_compact_peers data) \<Longrightarrow> is_public_endpoint (pc_addr p)"
  by (auto simp: decode_compact_peers_def map_filter_alt peer_of_chunk_def Let_def split: if_splits)

lemma map_filter_length: "length (List.map_filter f xs) \<le> length xs"
  by (induction xs) (auto simp: List.map_filter_simps split: option.split)

lemma nodes_field_ok:
  "x \<in> set (nodes_field c r) \<Longrightarrow> valid_id (nc_id x) \<and> is_public_endpoint (nc_addr x)"
  using decoded_node_ok by (auto simp: nodes_field_def split: option.splits krpc_value.splits)

lemma values_field_ok:
  assumes "p \<in> set (values_field r)"
  shows "is_public_endpoint (pc_addr p)"
proof (cases "fmlookup r (str ''values'')")
  case None
  then show ?thesis using assms by (simp add: values_field_def)
next
  case (Some v)
  show ?thesis
  proof (cases v)
    case (KList vs)
    define f where "f = (\<lambda>v. case v of KBytes bytes \<Rightarrow> Some (decode_compact_peers bytes) | _ \<Rightarrow> None)"
    have "p \<in> set (concat (List.map_filter f vs))"
      using assms Some KList by (simp add: values_field_def f_def)
    then obtain w l where "f w = Some l" "p \<in> set l" by (auto simp: map_filter_alt)
    then show ?thesis using decoded_peer_ok by (cases w) (auto simp: f_def)
  qed (use assms Some decoded_peer_ok in \<open>simp_all add: values_field_def\<close>)
qed

lemma get_peers_response_ok:
  assumes "parse_get_peers_response c msg = (peers, nodes)"
  shows "\<forall>p\<in>set peers. is_public_endpoint (pc_addr p)"
    and "\<forall>x\<in>set nodes. valid_id (nc_id x) \<and> is_public_endpoint (nc_addr x)"
  using assms values_field_ok nodes_field_ok
  by (auto simp: parse_get_peers_response_def split: krpc_message.splits)

lemma extract_node_id_valid: "extract_node_id msg = Some i \<Longrightarrow> valid_id i"
  by (auto simp: extract_node_id_def valid_id_def split: krpc_message.splits option.splits
      krpc_value.splits if_splits)

lemma sample_response_ok:
  assumes "parse_sample_infohashes_response c msg n = Inr s"
  shows "valid_id (sr_node_id s)" "length (sr_samples s) \<le> n" "\<forall>h\<in>set (sr_samples s). valid_id h"
    "\<forall>x\<in>set (sr_nodes s). valid_id (nc_id x) \<and> is_public_endpoint (nc_addr x)"
    "secs 1 \<le> sr_interval s \<and> sr_interval s \<le> secs 86400"
proof -
  obtain r i where r: "extract_node_id msg = Some i" "parse_sample_fields c r i n = Inr s"
    using assms by (auto simp: parse_sample_infohashes_response_def
        split: krpc_message.splits option.splits)
  obtain iv num bs where f: "1 \<le> sint (iv :: i64)" "sint iv \<le> 86400" "length bs div 20 \<le> n"
      "s = \<lparr>sr_node_id = i, sr_interval = secs (nat (sint iv)), sr_total_num = num,
            sr_samples = chunks 20 bs, sr_nodes = nodes_field c r\<rparr>"
    using r(2) by (auto simp: parse_sample_fields_def not_less split: option.splits krpc_value.splits if_splits)
  have l: "length (chunks 20 bs) \<le> length bs div 20" for bs :: bytes
  proof (induction "20::nat" bs rule: chunks.induct)
    case (1 xs)
    then show ?case by (subst chunks.simps) (auto simp: le_div_geq)
  qed
  show "valid_id (sr_node_id s)" using r(1) extract_node_id_valid f(4) by simp
  show "length (sr_samples s) \<le> n" using f(3,4) l [of bs] by simp
  show "\<forall>h\<in>set (sr_samples s). valid_id h"
    using f(4) chunks_length by (auto simp: valid_id_def NODE_ID_LEN_def)
  show "\<forall>x\<in>set (sr_nodes s). valid_id (nc_id x) \<and> is_public_endpoint (nc_addr x)"
    using f(4) nodes_field_ok by auto
  show "secs 1 \<le> sr_interval s \<and> sr_interval s \<le> secs 86400"
    using f by (auto simp: secs_def nat_le_iff)
qed

subsection \<open>Tokens\<close>

lemma fold_difference:
  "length left = length right \<Longrightarrow>
   foldl (\<lambda>difference (a, b). difference OR (a XOR b)) d (zip left right) = (0 :: u8) \<longleftrightarrow>
   d = 0 \<and> left = right"
proof (induction left right arbitrary: d rule: list_induct2)
  case (Cons x xs y ys)
  have "d OR (x XOR y) = 0 \<longleftrightarrow> d = 0 \<and> x XOR y = 0" by (rule or_eq_0_iff)
  moreover have "x XOR y = 0 \<longleftrightarrow> x = y"
    using xor_cancel_iff [of x y y] by simp
  ultimately show ?case using Cons.IH by simp
qed simp

lemma constant_time_eq_iff: "constant_time_eq left right \<longleftrightarrow> left = right"
  by (auto simp: constant_time_eq_def fold_difference)

lemma token_window:
  assumes "0 \<le> ck_unix c" "ck_unix c \<le> ck_unix c'" "ck_unix c' < ck_unix c + 300" "ck_unix c' < 2 ^ 63"
  shows "current_token_bucket c' = current_token_bucket c \<or>
    saturating_dec (current_token_bucket c') = current_token_bucket c"
proof -
  let ?n = "nat (ck_unix c)" and ?m = "nat (ck_unix c')"
  have n: "?n \<le> ?m" "?m < ?n + 300" "?m < 2 ^ 63" using assms by auto
  have lo: "?n div 300 \<le> ?m div 300" using n(1) by (rule div_le_mono)
  have "?m div 300 \<le> (?n + 300) div 300" by (rule div_le_mono) (use n(2) in simp)
  then have "?m div 300 \<le> ?n div 300 + 1" by simp
  with lo consider "?m div 300 = ?n div 300" | "?m div 300 = Suc (?n div 300)" by linarith
  then show ?thesis
  proof cases
    case 1
    then show ?thesis by (simp add: current_token_bucket_def)
  next
    case 2
    have "?m div 300 < 2 ^ 64" using n(3) div_le_dividend [of ?m 300] by simp
    then have "unat (of_nat (?m div 300) :: u64) = ?m div 300" by (simp add: unat_of_nat)
    then have "(of_nat (?m div 300) :: u64) \<noteq> 0" using 2 by (metis nat.simps(3) unat_0)
    then show ?thesis using 2 by (simp add: current_token_bucket_def saturating_dec_def)
  qed
qed

subsection \<open>Properties of the codecs\<close>

text \<open>
  C33: the filter for public addresses is exactly the complement of the special-purpose
  blocks: an address passes if and only if no reserved prefix matches it.
\<close>

theorem public_iff_not_special_purpose:
  "is_public_ipv4 ip \<longleftrightarrow> \<not> list_ex (in_block ip) reserved_blocks"
  by (rule public_iff_not_reserved)

text \<open>
  C34: encoding contacts compactly and decoding them again gives the contacts with a public
  endpoint in their order, seen now; and whatever bytes are decoded, every contact has a
  20-byte identifier and a public endpoint.
\<close>

theorem compact_nodes_round_trip:
  assumes "list_all (\<lambda>x. valid_id (nc_id x)) xs"
  shows "decode_compact_nodes c (encode_compact_nodes xs) =
      map (node_seen c) (filter (\<lambda>x. is_public_endpoint (nc_addr x)) xs) \<and>
    list_all (\<lambda>x. valid_id (nc_id x) \<and> is_public_endpoint (nc_addr x)) (decode_compact_nodes c data)"
  using decode_encode_nodes [of xs c] decoded_node_ok [of _ c data] assms by (auto simp: list_all_iff)

lemma compact_nodes_round_trip_witness:
  "decode_compact_nodes ex_clock (encode_compact_nodes [fresh_contact ex_clock (ex_id 2) (ex_addr 2)]) =
     [fresh_contact ex_clock (ex_id 2) (ex_addr 2)]"
proof -
  have "is_public_endpoint (ex_addr 2)" by code_simp
  then show ?thesis
    using compact_nodes_round_trip [of "[fresh_contact ex_clock (ex_id 2) (ex_addr 2)]" ex_clock "[]"]
    by (simp add: fresh_contact_def node_seen_def)
qed

text \<open>
  C35: a packet answers a pending query only from the address the query was sent to, with a
  20-byte identifier that agrees with the expected one and the shape its method asks for;
  then the query is gone and the same transaction is never answered again.  A packet from
  any other address leaves the pending queries as they are.
\<close>

theorem reply_only_from_queried_node:
  assumes "correlate_response pending msg source = (pending', r)"
  shows "(case r of
      Inl e \<Rightarrow> e \<noteq> Malformed \<longrightarrow> pending' = pending
    | Inr (p, i) \<Rightarrow> map_of pending (transaction_id msg) = Some p \<and> pr_expected_addr p = source \<and>
        valid_id i \<and> pr_expected_node_id p \<in> {None, Some i} \<and> response_has_shape msg (pr_method p) \<and>
        pending' = AList.delete (transaction_id msg) pending \<and>
        correlate_response pending' msg source = (pending', Inl Unsolicited)) \<and>
    (\<forall>p. map_of pending (transaction_id msg) = Some p \<longrightarrow> pr_expected_addr p \<noteq> source \<longrightarrow>
       pending' = pending \<and> r = Inl UnexpectedSource)"
proof -
  have gone: "map_of (AList.delete k pending) k = None" for k
    by (simp add: AList.delete_conv)
  show ?thesis using assms extract_node_id_valid [of msg]
    by (cases "pr_expected_node_id (the (map_of pending (transaction_id msg)))")
      (auto simp: correlate_response_def Let_def gone split: option.splits if_splits)
qed

definition ex_pending :: pending_rpc where
  "ex_pending = \<lparr>pr_expected_addr = ex_addr 2, pr_expected_node_id = Some (ex_id 2), pr_method = Ping,
     pr_target = ex_id 2, pr_info_hash = None, pr_is_real_lookup = False, pr_deadline = 9,
     pr_continuation_budget = 0, pr_lookup_id = None\<rparr>"

lemma reply_only_from_queried_node_witness:
  "fst (correlate_response [([1, 2], ex_pending)] (response_message (ex_id 2) [1, 2] fmempty) (ex_addr 2)) = []"
proof -
  have c: "correlate_response [([1, 2], ex_pending)] (response_message (ex_id 2) [1, 2] fmempty) (ex_addr 2) =
      ([], Inr (ex_pending, ex_id 2))"
    by (simp add: correlate_response_def response_message_def ex_pending_def transaction_id_def
        extract_node_id_def response_has_shape_def NODE_ID_LEN_def ex_id_def)
  from reply_only_from_queried_node [OF c] show ?thesis using c by simp
qed

text \<open>
  C36: a token handed to an address is accepted from that address for at least the next five
  minutes, and only the tokens of the current and the previous five-minute window are ever
  accepted.
\<close>

theorem token_accepted_in_window:
  assumes "0 \<le> ck_unix c" "ck_unix c \<le> ck_unix c'" "ck_unix c' < ck_unix c + 300" "ck_unix c' < 2 ^ 63"
  shows "validate_token sha1 c' secret ip (make_token sha1 c secret ip) \<and>
    (\<forall>token. validate_token sha1 c' secret ip token \<longleftrightarrow>
       token = make_token_for_bucket sha1 secret ip (current_token_bucket c') \<or>
       token = make_token_for_bucket sha1 secret ip (saturating_dec (current_token_bucket c')))"
  using token_window [OF assms]
  by (auto simp: validate_token_def Let_def constant_time_eq_iff make_token_def)

lemma token_accepted_in_window_witness:
  "validate_token id (ex_clock\<lparr>ck_unix := 1700000299\<rparr>) (replicate 16 7) (Ipv4Addr 8 8 8 8)
     (make_token id ex_clock (replicate 16 7) (Ipv4Addr 8 8 8 8))"
  by (rule token_accepted_in_window [THEN conjunct1]) (simp_all add: ex_clock_def)

end
