(* ===== verification/Metrics.thy ===== *)
theory Metrics
  imports Node_Types
begin

text \<open>
  The counters of \<^verbatim>\<open>src/src/metrics.rs\<close>.  The \<open>AtomicU64\<close> fields of \<open>CrawlerMetrics\<close> are one
  map from their names (the constructors of \<open>counter\<close>; the arrays take an index) to 64-bit
  words, on which \<open>fetch_add\<close> wraps; the fields of a request window are saturating.  A
  log line of \<open>tracing::info!\<close> is the list of its fields.
\<close>

definition SNAPSHOT_INTERVAL_SECONDS :: u64 where "SNAPSHOT_INTERVAL_SECONDS = 60"
definition DISCOVERY_SOURCE_COUNT :: nat where "DISCOVERY_SOURCE_COUNT = 5"
definition METADATA_JOB_ADMISSION_COUNT :: nat where "METADATA_JOB_ADMISSION_COUNT = 4"
definition METADATA_RETRIEVAL_OUTCOME_COUNT :: nat where "METADATA_RETRIEVAL_OUTCOME_COUNT = 5"

fun discovery_source_index :: "discovery_source \<Rightarrow> nat" where
  "discovery_source_index InboundGetPeers = 0"
| "discovery_source_index AnnouncePeer = 1"
| "discovery_source_index Resume = 2"
| "discovery_source_index SampleInfohashes = 3"
| "discovery_source_index OutboundGetPeers = 4"

fun metadata_job_admission_index :: "metadata_job_admission \<Rightarrow> nat" where
  "metadata_job_admission_index JA_Accepted = 0"
| "metadata_job_admission_index JA_Unchanged = 1"
| "metadata_job_admission_index JA_NoPeers = 2"
| "metadata_job_admission_index JA_AtCapacity = 3"

fun metadata_retrieval_outcome_index :: "metadata_retrieval_outcome \<Rightarrow> nat" where
  "metadata_retrieval_outcome_index RO_Complete = 0"
| "metadata_retrieval_outcome_index RO_RetryAt = 1"
| "metadata_retrieval_outcome_index RO_WaitingPeers = 2"
| "metadata_retrieval_outcome_index RO_Invalid = 3"
| "metadata_retrieval_outcome_index RO_Unsupported = 4"

definition ROUTES :: "rstring list" where
  "ROUTES =
     [str ''/'', str ''/dashboard.css'', str ''/dashboard.js'', str ''/api/stats'', str ''/api/search'',
      str ''/api/torrents/{info_hash}'', str ''/api/torrents/{info_hash}/files'',
      str ''/api/torrents/{info_hash}/magnet'', str ''unmatched'']"

definition LATENCY_BUCKETS_MS :: "u64 list" where
  "LATENCY_BUCKETS_MS = [5, 10, 25, 50, 100, 250, 500, 1000, 2500, 5000]"

definition unix_now :: "clock \<Rightarrow> int" where
  "unix_now c = max 0 (ck_unix c)"

definition sat_sub_i64 :: "int \<Rightarrow> int \<Rightarrow> int" where
  "sat_sub_i64 a b = max (- (2 ^ 63)) (min (2 ^ 63 - 1) (a - b))"

subsection \<open>Crawler counters\<close>

datatype counter =
  C_known_nodes | C_queries_sent | C_rpc_responses
| C_rpc_timeouts | C_rpc_malformed | C_rpc_unsolicited
| C_rpc_unexpected_source | C_hashes_discovered | C_sampling_responses
| C_metadata_fetched | C_metadata_failed | C_backpressure_events
| C_persistence_errors | C_active_metadata_jobs | C_queued_metadata_jobs
| C_pending_metadata_peers | C_discovery_queue_depth | C_discovery_queue_capacity
| C_discovery_observations | C_discovery_peer_bearing_observations | C_discovery_peerless_observations
| C_discovery_channel_accepted | C_discovery_channel_rejected | C_discovery_peer_bearing_rejected
| C_discovery_peer_addresses_lost | C_lookup_queue_accepted | C_lookup_queue_duplicate
| C_lookup_queue_capacity_rejected | C_real_lookups_initiated | C_real_lookups_succeeded
| C_real_lookups_failed | C_real_lookup_rpc_timeouts | C_real_lookup_rpc_failures
| C_real_lookup_rpc_unsent | C_get_peers_responses_with_peers | C_get_peers_responses_nodes_only
| C_metadata_fetched_last_emit | C_torrents_inserted | C_hash_jobs_created
| C_peerless_jobs_skipped | C_peer_bearing_discoveries_persisted | C_peer_records_inserted
| C_peer_records_updated | C_peer_records_deleted
| C_discovery_by_source nat | C_metadata_job_admissions nat | C_metadata_retrieval_outcomes nat

record crawler_metrics =
  cm_process_started_unix :: int
  cm_counters :: "counter \<Rightarrow> u64"

definition default_crawler_metrics :: "clock \<Rightarrow> crawler_metrics" where
  "default_crawler_metrics c = \<lparr>cm_process_started_unix = unix_now c, cm_counters = (\<lambda>_. 0)\<rparr>"

definition load :: "counter \<Rightarrow> crawler_metrics \<Rightarrow> u64" where
  "load k m = cm_counters m k"

definition store :: "counter \<Rightarrow> u64 \<Rightarrow> crawler_metrics \<Rightarrow> crawler_metrics" where
  "store k v m = m\<lparr>cm_counters := (cm_counters m)(k := v)\<rparr>"

definition fetch_add :: "counter \<Rightarrow> u64 \<Rightarrow> crawler_metrics \<Rightarrow> crawler_metrics" where
  "fetch_add k n m = store k (load k m + n) m"

lemma load_store [simp]: "load k (store k' v m) = (if k = k' then v else load k m)"
  by (simp add: load_def store_def)

lemma load_fetch_add [simp]: "load k (fetch_add k' n m) = (if k = k' then load k m + n else load k m)"
  by (simp add: fetch_add_def)

fun metrics_apply :: "crawl_stats_event \<Rightarrow> crawler_metrics \<Rightarrow> crawler_metrics" where
  "metrics_apply (DhtSnapshot nodes_known queries_sent info_hashes_found) m =
     store C_hashes_discovered (of_nat info_hashes_found)
       (store C_queries_sent (of_nat queries_sent) (store C_known_nodes (of_nat nodes_known) m))"
| "metrics_apply MetadataFetched m = fetch_add C_metadata_fetched 1 m"
| "metrics_apply (MetadataFetchFailed reason) m = fetch_add C_metadata_failed 1 m"
| "metrics_apply RpcAnswered m = fetch_add C_rpc_responses 1 m"
| "metrics_apply RpcTimedOut m = fetch_add C_rpc_timeouts 1 m"
| "metrics_apply RpcMalformed m = fetch_add C_rpc_malformed 1 m"
| "metrics_apply RpcUnsolicited m = fetch_add C_rpc_unsolicited 1 m"
| "metrics_apply RpcUnexpectedSource m = fetch_add C_rpc_unexpected_source 1 m"
| "metrics_apply DiscoveryBackpressure m = fetch_add C_backpressure_events 1 m"
| "metrics_apply (HashObserved h source has_peers accepted peers) m =
     (let m = fetch_add C_hashes_discovered 1 m;
          m = fetch_add C_discovery_observations 1 m;
          m = fetch_add (C_discovery_by_source (discovery_source_index source)) 1 m;
          m = (if has_peers then fetch_add C_discovery_peer_bearing_observations 1 m
               else fetch_add C_discovery_peerless_observations 1 m)
      in if accepted then fetch_add C_discovery_channel_accepted 1 m
         else (let m = fetch_add C_discovery_channel_rejected 1 m in
               if has_peers
               then fetch_add C_discovery_peer_addresses_lost (of_nat peers)
                      (fetch_add C_discovery_peer_bearing_rejected 1 m)
               else m))"
| "metrics_apply (SamplingResponse samples) m = fetch_add C_sampling_responses 1 m"
| "metrics_apply (MetadataQueue active_jobs queued_jobs pending_peers) m =
     store C_pending_metadata_peers (of_nat pending_peers)
       (store C_queued_metadata_jobs (of_nat queued_jobs)
         (store C_active_metadata_jobs (of_nat active_jobs) m))"
| "metrics_apply (DhtNodeSeen i addr) m = m"
| "metrics_apply (SampleObserved h i addr round_id) m = m"

definition record_persistence_error :: "crawler_metrics \<Rightarrow> crawler_metrics" where
  "record_persistence_error m = fetch_add C_persistence_errors 1 m"

definition set_discovery_queue_capacity :: "nat \<Rightarrow> crawler_metrics \<Rightarrow> crawler_metrics" where
  "set_discovery_queue_capacity capacity m = store C_discovery_queue_capacity (of_nat capacity) m"

definition set_discovery_queue_depth :: "nat \<Rightarrow> crawler_metrics \<Rightarrow> crawler_metrics" where
  "set_discovery_queue_depth depth m = store C_discovery_queue_depth (of_nat depth) m"

definition record_lookup_queue_accepted :: "crawler_metrics \<Rightarrow> crawler_metrics" where
  "record_lookup_queue_accepted m = fetch_add C_lookup_queue_accepted 1 m"

definition record_lookup_queue_duplicate :: "crawler_metrics \<Rightarrow> crawler_metrics" where
  "record_lookup_queue_duplicate m = fetch_add C_lookup_queue_duplicate 1 m"

definition record_lookup_queue_capacity_rejected :: "crawler_metrics \<Rightarrow> crawler_metrics" where
  "record_lookup_queue_capacity_rejected m = fetch_add C_lookup_queue_capacity_rejected 1 m"

definition record_real_lookup_initiated :: "crawler_metrics \<Rightarrow> crawler_metrics" where
  "record_real_lookup_initiated m = fetch_add C_real_lookups_initiated 1 m"

definition record_real_lookup_succeeded :: "crawler_metrics \<Rightarrow> crawler_metrics" where
  "record_real_lookup_succeeded m = fetch_add C_real_lookups_succeeded 1 m"

definition record_real_lookup_failed :: "crawler_metrics \<Rightarrow> crawler_metrics" where
  "record_real_lookup_failed m = fetch_add C_real_lookups_failed 1 m"

definition record_real_lookup_rpc_timeout :: "crawler_metrics \<Rightarrow> crawler_metrics" where
  "record_real_lookup_rpc_timeout m = fetch_add C_real_lookup_rpc_timeouts 1 m"

definition record_real_lookup_rpc_failure :: "crawler_metrics \<Rightarrow> crawler_metrics" where
  "record_real_lookup_rpc_failure m = fetch_add C_real_lookup_rpc_failures 1 m"

definition record_real_lookup_rpc_unsent :: "crawler_metrics \<Rightarrow> crawler_metrics" where
  "record_real_lookup_rpc_unsent m = fetch_add C_real_lookup_rpc_unsent 1 m"

definition record_get_peers_response :: "bool \<Rightarrow> crawler_metrics \<Rightarrow> crawler_metrics" where
  "record_get_peers_response with_peers m =
     (if with_peers then fetch_add C_get_peers_responses_with_peers 1 m
      else fetch_add C_get_peers_responses_nodes_only 1 m)"

definition record_metadata_job_admission :: "metadata_job_admission \<Rightarrow> crawler_metrics \<Rightarrow> crawler_metrics" where
  "record_metadata_job_admission admission m =
     fetch_add (C_metadata_job_admissions (metadata_job_admission_index admission)) 1 m"

definition record_metadata_retrieval_outcome ::
  "metadata_retrieval_outcome \<Rightarrow> crawler_metrics \<Rightarrow> crawler_metrics" where
  "record_metadata_retrieval_outcome outcome m =
     fetch_add (C_metadata_retrieval_outcomes (metadata_retrieval_outcome_index outcome)) 1 m"

definition record_torrents_inserted :: "u64 \<Rightarrow> crawler_metrics \<Rightarrow> crawler_metrics" where
  "record_torrents_inserted n m = fetch_add C_torrents_inserted n m"

definition record_hash_jobs_created :: "u64 \<Rightarrow> crawler_metrics \<Rightarrow> crawler_metrics" where
  "record_hash_jobs_created n m = fetch_add C_hash_jobs_created n m"

definition record_peerless_jobs_skipped :: "u64 \<Rightarrow> crawler_metrics \<Rightarrow> crawler_metrics" where
  "record_peerless_jobs_skipped n m = fetch_add C_peerless_jobs_skipped n m"

definition record_peer_bearing_discoveries_persisted :: "u64 \<Rightarrow> crawler_metrics \<Rightarrow> crawler_metrics" where
  "record_peer_bearing_discoveries_persisted n m = fetch_add C_peer_bearing_discoveries_persisted n m"

definition record_peer_records :: "u64 \<Rightarrow> u64 \<Rightarrow> u64 \<Rightarrow> crawler_metrics \<Rightarrow> crawler_metrics" where
  "record_peer_records inserted updated deleted m =
     fetch_add C_peer_records_deleted deleted
       (fetch_add C_peer_records_updated updated (fetch_add C_peer_records_inserted inserted m))"

text \<open>\<open>metadata_fetched_interval\<close> swaps the total of the last report against the new one.\<close>

definition metadata_fetched_interval :: "u64 \<Rightarrow> crawler_metrics \<Rightarrow> u64 \<times> crawler_metrics" where
  "metadata_fetched_interval current m =
     (sat_sub current (load C_metadata_fetched_last_emit m), store C_metadata_fetched_last_emit current m)"

datatype field_value = FBool bool | FInt int | FU64 u64 | FStr rstring

type_synonym log_line = "(rstring \<times> field_value) list"

definition crawler_emit :: "bool \<Rightarrow> clock \<Rightarrow> crawler_metrics \<Rightarrow> log_line \<times> crawler_metrics" where
  "crawler_emit final_snapshot c m0 =
     (let metadata_fetched = load C_metadata_fetched m0;
          (fetched_interval, m) = metadata_fetched_interval metadata_fetched m0
      in ([(str ''event'', FStr (str ''crawler_status'')),
      (str ''final_snapshot'', FBool final_snapshot),
      (str ''process_started_unix'', FInt (cm_process_started_unix m)),
      (str ''uptime_seconds'', FInt (sat_sub_i64 (unix_now c) (cm_process_started_unix m))),
      (str ''interval_seconds'', FU64 SNAPSHOT_INTERVAL_SECONDS),
      (str ''known_nodes'', FU64 (load C_known_nodes m)),
      (str ''queries_sent_total'', FU64 (load C_queries_sent m)),
      (str ''rpc_responses_total'', FU64 (load C_rpc_responses m)),
      (str ''rpc_timeouts_total'', FU64 (load C_rpc_timeouts m)),
      (str ''rpc_malformed_total'', FU64 (load C_rpc_malformed m)),
      (str ''rpc_unsolicited_total'', FU64 (load C_rpc_unsolicited m)),
      (str ''rpc_unexpected_source_total'', FU64 (load C_rpc_unexpected_source m)),
      (str ''hashes_discovered_total'', FU64 (load C_hashes_discovered m)),
      (str ''sampling_responses_total'', FU64 (load C_sampling_responses m)),
      (str ''metadata_fetched_total'', FU64 metadata_fetched),
      (str ''metadata_fetched_interval'', FU64 fetched_interval),
      (str ''metadata_failed_total'', FU64 (load C_metadata_failed m)),
      (str ''backpressure_events_total'', FU64 (load C_backpressure_events m)),
      (str ''persistence_errors_total'', FU64 (load C_persistence_errors m)),
      (str ''active_metadata_jobs'', FU64 (load C_active_metadata_jobs m)),
      (str ''queued_metadata_jobs'', FU64 (load C_queued_metadata_jobs m)),
      (str ''pending_metadata_peers'', FU64 (load C_pending_metadata_peers m)),
      (str ''discovery_queue_depth'', FU64 (load C_discovery_queue_depth m)),
      (str ''discovery_queue_capacity'', FU64 (load C_discovery_queue_capacity m)),
      (str ''discovery_observations_total'', FU64 (load C_discovery_observations m)),
      (str ''discovery_peer_bearing_observations_total'', FU64 (load C_discovery_peer_bearing_observations m)),
      (str ''discovery_peerless_observations_total'', FU64 (load C_discovery_peerless_observations m)),
      (str ''discovery_channel_accepted_total'', FU64 (load C_discovery_channel_accepted m)),
      (str ''discovery_channel_rejected_total'', FU64 (load C_discovery_channel_rejected m)),
      (str ''discovery_peer_bearing_rejected_total'', FU64 (load C_discovery_peer_bearing_rejected m)),
      (str ''discovery_peer_addresses_lost_total'', FU64 (load C_discovery_peer_addresses_lost m)),
      (str ''discovery_observed_inbound_get_peers_total'', FU64 (load (C_discovery_by_source 0) m)),
      (str ''discovery_observed_announce_peer_total'', FU64 (load (C_discovery_by_source 1) m)),
      (str ''discovery_observed_resume_total'', FU64 (load (C_discovery_by_source 2) m)),
      (str ''discovery_observed_sample_infohashes_total'', FU64 (load (C_discovery_by_source 3) m)),
      (str ''discovery_observed_outbound_get_peers_total'', FU64 (load (C_discovery_by_source 4) m)),
      (str ''lookup_queue_accepted_total'', FU64 (load C_lookup_queue_accepted m)),
      (str ''lookup_queue_duplicate_total'', FU64 (load C_lookup_queue_duplicate m)),
      (str ''lookup_queue_capacity_rejected_total'', FU64 (load C_lookup_queue_capacity_rejected m)),
      (str ''real_lookups_initiated_total'', FU64 (load C_real_lookups_initiated m)),
      (str ''real_lookups_succeeded_total'', FU64 (load C_real_lookups_succeeded m)),
      (str ''real_lookups_failed_total'', FU64 (load C_real_lookups_failed m)),
      (str ''real_lookup_rpc_timeouts_total'', FU64 (load C_real_lookup_rpc_timeouts m)),
      (str ''real_lookup_rpc_failures_total'', FU64 (load C_real_lookup_rpc_failures m)),
      (str ''real_lookup_rpc_unsent_total'', FU64 (load C_real_lookup_rpc_unsent m)),
      (str ''get_peers_responses_with_peers_total'', FU64 (load C_get_peers_responses_with_peers m)),
      (str ''get_peers_responses_nodes_only_total'', FU64 (load C_get_peers_responses_nodes_only m)),
      (str ''metadata_job_admissions_accepted_total'', FU64 (load (C_metadata_job_admissions 0) m)),
      (str ''metadata_job_admissions_unchanged_total'', FU64 (load (C_metadata_job_admissions 1) m)),
      (str ''metadata_job_admissions_no_peers_total'', FU64 (load (C_metadata_job_admissions 2) m)),
      (str ''metadata_job_admissions_at_capacity_total'', FU64 (load (C_metadata_job_admissions 3) m)),
      (str ''metadata_retrieval_complete_total'', FU64 (load (C_metadata_retrieval_outcomes 0) m)),
      (str ''metadata_retrieval_retry_at_total'', FU64 (load (C_metadata_retrieval_outcomes 1) m)),
      (str ''metadata_retrieval_waiting_peers_total'', FU64 (load (C_metadata_retrieval_outcomes 2) m)),
      (str ''metadata_retrieval_invalid_total'', FU64 (load (C_metadata_retrieval_outcomes 3) m)),
      (str ''metadata_retrieval_unsupported_total'', FU64 (load (C_metadata_retrieval_outcomes 4) m)),
      (str ''torrents_inserted_total'', FU64 (load C_torrents_inserted m)),
      (str ''hash_jobs_created_total'', FU64 (load C_hash_jobs_created m)),
      (str ''peerless_jobs_skipped_total'', FU64 (load C_peerless_jobs_skipped m)),
      (str ''peer_bearing_discoveries_persisted_total'', FU64 (load C_peer_bearing_discoveries_persisted m)),
      (str ''peer_records_inserted_total'', FU64 (load C_peer_records_inserted m)),
      (str ''peer_records_updated_total'', FU64 (load C_peer_records_updated m)),
      (str ''peer_records_deleted_total'', FU64 (load C_peer_records_deleted m))], m))"

subsection \<open>Request windows\<close>

record route_window =
  rw_status :: "u64 list"
  rw_duration_count :: u64
  rw_duration_sum_ms :: u64
  rw_latency_buckets :: "u64 list"

definition default_route_window :: route_window where
  "default_route_window =
     \<lparr>rw_status = replicate 4 0, rw_duration_count = 0, rw_duration_sum_ms = 0,
      rw_latency_buckets = replicate (length LATENCY_BUCKETS_MS + 1) 0\<rparr>"

record web_window =
  ww_started_unix :: int
  ww_routes :: "(rstring \<times> route_window) list"
  ww_database_errors :: u64

definition new_web_window :: "int \<Rightarrow> web_window" where
  "new_web_window started_unix =
     \<lparr>ww_started_unix = started_unix, ww_routes = [], ww_database_errors = 0\<rparr>"

record web_metrics =
  wm_process_started_unix :: int
  wm_active_requests :: u64
  wm_window :: web_window

definition default_web_metrics :: "clock \<Rightarrow> web_metrics" where
  "default_web_metrics c =
     \<lparr>wm_process_started_unix = unix_now c, wm_active_requests = 0,
      wm_window = new_web_window (unix_now c)\<rparr>"

record web_window_snapshot =
  ws_started_unix :: int
  ws_ended_unix :: int
  ws_routes :: "(rstring \<times> route_window) list"
  ws_database_errors :: u64

definition begin_active_request :: "web_metrics \<Rightarrow> web_metrics" where
  "begin_active_request m = m\<lparr>wm_active_requests := wm_active_requests m + 1\<rparr>"

definition end_request :: "web_metrics \<Rightarrow> web_metrics" where
  "end_request m = m\<lparr>wm_active_requests := sat_sub (wm_active_requests m) 1\<rparr>"

definition route_label :: "rstring option \<Rightarrow> rstring" where
  "route_label matched_path =
     (case matched_path of
        None \<Rightarrow> str ''unmatched''
      | Some path \<Rightarrow> (case find (\<lambda>route. route = path) ROUTES of
          None \<Rightarrow> str ''unmatched'' | Some route \<Rightarrow> route))"

definition status_class :: "u16 \<Rightarrow> nat" where
  "status_class status =
     (let k = unat status div 100 in if k = 2 then 0 else if k = 3 then 1 else if k = 4 then 2 else 3)"

definition latency_bucket_index :: "u64 \<Rightarrow> nat" where
  "latency_bucket_index milliseconds =
     (case position (\<lambda>bucket. milliseconds \<le> bucket) LATENCY_BUCKETS_MS of
        None \<Rightarrow> length LATENCY_BUCKETS_MS | Some i \<Rightarrow> i)"

definition as_millis :: "duration \<Rightarrow> nat" where
  "as_millis d = d div 1000000"

definition bump :: "nat \<Rightarrow> u64 list \<Rightarrow> u64 list" where
  "bump i xs = xs[i := sat_add (xs ! i) 1]"

definition count_request :: "u16 \<Rightarrow> duration \<Rightarrow> route_window \<Rightarrow> route_window" where
  "count_request status elapsed r =
     \<lparr>rw_status = bump (status_class status) (rw_status r),
      rw_duration_count = sat_add (rw_duration_count r) 1,
      rw_duration_sum_ms =
        sat_add (rw_duration_sum_ms r) (of_nat (min (as_millis elapsed) (2 ^ 64 - 1))),
      rw_latency_buckets = bump (latency_bucket_index (of_nat (as_millis elapsed))) (rw_latency_buckets r)\<rparr>"

definition record_request :: "rstring \<Rightarrow> u16 \<Rightarrow> duration \<Rightarrow> web_metrics \<Rightarrow> web_metrics" where
  "record_request route status elapsed m =
     (let route = route_label (Some route);
          w = wm_window m;
          r = (case map_of (ww_routes w) route of None \<Rightarrow> default_route_window | Some r \<Rightarrow> r)
      in m\<lparr>wm_window := w\<lparr>ww_routes := bt_insert route (count_request status elapsed r) (ww_routes w)\<rparr>\<rparr>)"

definition record_database_error :: "web_metrics \<Rightarrow> web_metrics" where
  "record_database_error m =
     (let w = wm_window m
      in m\<lparr>wm_window := w\<lparr>ww_database_errors := sat_add (ww_database_errors w) 1\<rparr>\<rparr>)"

definition snapshot_and_reset :: "clock \<Rightarrow> web_metrics \<Rightarrow> web_window_snapshot \<times> web_metrics" where
  "snapshot_and_reset c m =
     (let ended_unix = unix_now c; previous = wm_window m
      in (\<lparr>ws_started_unix = ww_started_unix previous, ws_ended_unix = ended_unix,
           ws_routes = ww_routes previous, ws_database_errors = ww_database_errors previous\<rparr>,
          m\<lparr>wm_window := new_web_window ended_unix\<rparr>))"

text \<open>The sums over the routes that \<open>emit\<close> computes, element by element and saturating.\<close>

definition sat_sum :: "(rstring \<times> route_window) list \<Rightarrow> (route_window \<Rightarrow> u64) \<Rightarrow> u64" where
  "sat_sum routes f = fold (\<lambda>p acc. sat_add acc (f (snd p))) routes 0"

definition sat_sums :: "nat \<Rightarrow> (rstring \<times> route_window) list \<Rightarrow> (route_window \<Rightarrow> u64 list) \<Rightarrow> u64 list" where
  "sat_sums n routes f = map (\<lambda>i. sat_sum routes (\<lambda>r. f r ! i)) [0..<n]"

definition window_fields :: "bool \<Rightarrow> web_window_snapshot \<Rightarrow> log_line" where
  "window_fields final_snapshot s =
     [(str ''final_snapshot'', FBool final_snapshot),
      (str ''window_start_unix'', FInt (ws_started_unix s)),
      (str ''window_end_unix'', FInt (ws_ended_unix s)),
      (str ''interval_seconds'', FInt (sat_sub_i64 (ws_ended_unix s) (ws_started_unix s)))]"

definition web_status_line ::
  "bool \<Rightarrow> clock \<Rightarrow> web_window_snapshot \<Rightarrow> web_metrics \<Rightarrow> log_line" where
  "web_status_line final_snapshot c s m =
     (let status = sat_sums 4 (ws_routes s) rw_status
      in (str ''event'', FStr (str ''web_status'')) # window_fields final_snapshot s @
         [(str ''process_started_unix'', FInt (wm_process_started_unix m)),
          (str ''uptime_seconds'', FInt (sat_sub_i64 (unix_now c) (wm_process_started_unix m))),
          (str ''requests_total'', FU64 (sum_list status)),
          (str ''requests_2xx'', FU64 (status ! 0)),
          (str ''requests_3xx'', FU64 (status ! 1)),
          (str ''requests_4xx'', FU64 (status ! 2)),
          (str ''requests_5xx'', FU64 (status ! 3)),
          (str ''duration_count'', FU64 (sat_sum (ws_routes s) rw_duration_count)),
          (str ''duration_sum_ms'', FU64 (sat_sum (ws_routes s) rw_duration_sum_ms)),
          (str ''active_requests'', FU64 (wm_active_requests m)),
          (str ''database_errors'', FU64 (ws_database_errors s))])"

definition web_route_lines :: "bool \<Rightarrow> web_window_snapshot \<Rightarrow> log_line list" where
  "web_route_lines final_snapshot s =
     map (\<lambda>(route, values).
        (str ''event'', FStr (str ''web_route_status'')) # window_fields final_snapshot s @
        [(str ''route'', FStr route),
         (str ''requests_2xx'', FU64 (rw_status values ! 0)),
         (str ''requests_3xx'', FU64 (rw_status values ! 1)),
         (str ''requests_4xx'', FU64 (rw_status values ! 2)),
         (str ''requests_5xx'', FU64 (rw_status values ! 3)),
         (str ''duration_count'', FU64 (rw_duration_count values)),
         (str ''duration_sum_ms'', FU64 (rw_duration_sum_ms values))])
       (filter (\<lambda>(route, values). rw_duration_count values \<noteq> 0) (ws_routes s))"

definition web_latency_lines :: "bool \<Rightarrow> web_window_snapshot \<Rightarrow> log_line list" where
  "web_latency_lines final_snapshot s =
     (let latency_buckets = sat_sums (length LATENCY_BUCKETS_MS + 1) (ws_routes s) rw_latency_buckets
      in map (\<lambda>i.
           (str ''event'', FStr (str ''web_latency_bucket'')) # window_fields final_snapshot s @
           [(str ''le'', FStr (if i < length LATENCY_BUCKETS_MS then nat_text (unat (LATENCY_BUCKETS_MS ! i))
                              else str ''+Inf'')),
            (str ''count'', FU64 (latency_buckets ! i))])
         (filter (\<lambda>i. latency_buckets ! i \<noteq> 0) [0..<length latency_buckets]))"

definition web_emit :: "bool \<Rightarrow> clock \<Rightarrow> web_metrics \<Rightarrow> log_line list \<times> web_metrics" where
  "web_emit final_snapshot c m =
     (case snapshot_and_reset c m of (snapshot, m') \<Rightarrow>
        ([web_status_line final_snapshot c snapshot m'] @ web_route_lines final_snapshot snapshot @
         web_latency_lines final_snapshot snapshot, m'))"


subsection \<open>Accounting of discoveries\<close>

definition discovery_sources_sum :: "crawler_metrics \<Rightarrow> u64" where
  "discovery_sources_sum m =
     sum_list (map (\<lambda>i. load (C_discovery_by_source i) m) [0..<DISCOVERY_SOURCE_COUNT])"

definition accounts_balanced :: "crawler_metrics \<Rightarrow> bool" where
  "accounts_balanced m \<longleftrightarrow>
     load C_discovery_observations m =
       load C_discovery_peer_bearing_observations m + load C_discovery_peerless_observations m \<and>
     load C_discovery_observations m =
       load C_discovery_channel_accepted m + load C_discovery_channel_rejected m \<and>
     load C_discovery_observations m = discovery_sources_sum m"

lemma sources_sum_eq:
  "discovery_sources_sum m = load (C_discovery_by_source 0) m + load (C_discovery_by_source 1) m +
     load (C_discovery_by_source 2) m + load (C_discovery_by_source 3) m + load (C_discovery_by_source 4) m"
  by (simp add: discovery_sources_sum_def DISCOVERY_SOURCE_COUNT_def upt_conv_Cons add.assoc eval_nat_numeral)

lemma accounts_balanced_apply:
  assumes "accounts_balanced m"
  shows "accounts_balanced (metrics_apply e m)"
proof -
  note b = assms [unfolded accounts_balanced_def sources_sum_eq, THEN conjunct1]
    assms [unfolded accounts_balanced_def sources_sum_eq, THEN conjunct2, THEN conjunct1]
    assms [unfolded accounts_balanced_def sources_sum_eq, THEN conjunct2, THEN conjunct2]
  show ?thesis
  proof (cases e)
    case (HashObserved h source has_peers accepted peers)
    then show ?thesis
      using b by (cases source; cases has_peers; cases accepted;
        simp add: accounts_balanced_def sources_sum_eq Let_def add.commute add.left_commute)
  qed (use b in \<open>simp_all add: accounts_balanced_def sources_sum_eq\<close>)
qed

subsection \<open>Consistency of the request windows\<close>

definition window_ok :: "route_window \<Rightarrow> bool" where
  "window_ok r \<longleftrightarrow> length (rw_status r) = 4 \<and>
     length (rw_latency_buckets r) = length LATENCY_BUCKETS_MS + 1 \<and>
     sum_list (map unat (rw_status r)) = unat (rw_duration_count r) \<and>
     sum_list (map unat (rw_latency_buckets r)) = unat (rw_duration_count r)"

lemma sum_list_bump:
  assumes "i < length xs" "sum_list (map unat xs) < 2 ^ 64 - 1"
  shows "sum_list (map unat (bump i xs)) = Suc (sum_list (map unat xs))"
  using assms
proof (induction xs arbitrary: i)
  case (Cons x xs)
  then show ?case
    by (cases i) (simp_all add: bump_def unat_sat_add)
qed simp

lemma length_bump [simp]: "length (bump i xs) = length xs"
  by (simp add: bump_def)

lemma status_class_less: "status_class s < 4"
  by (simp add: status_class_def Let_def)

lemma latency_bucket_less: "latency_bucket_index ms < length LATENCY_BUCKETS_MS + 1"
  by (auto simp: latency_bucket_index_def split: option.split dest: position_SomeD)

lemma window_ok_default: "window_ok default_route_window"
  by (simp add: window_ok_def default_route_window_def)

lemma window_ok_count:
  assumes "window_ok r" "unat (rw_duration_count r) < 2 ^ 64 - 1"
  shows "window_ok (count_request status elapsed r)"
    and "unat (rw_duration_count (count_request status elapsed r)) = Suc (unat (rw_duration_count r))"
proof -
  show n: "unat (rw_duration_count (count_request status elapsed r)) = Suc (unat (rw_duration_count r))"
    using assms(2) by (simp add: count_request_def unat_sat_add)
  have "status_class status < length (rw_status r)"
    using assms(1) status_class_less by (simp add: window_ok_def)
  moreover have "latency_bucket_index (of_nat (as_millis elapsed)) < length (rw_latency_buckets r)"
    using assms(1) latency_bucket_less by (simp add: window_ok_def)
  ultimately show "window_ok (count_request status elapsed r)"
    using assms n by (simp add: window_ok_def sum_list_bump) (simp add: count_request_def sum_list_bump)
qed

lemma route_label_in: "route_label p \<in> set ROUTES"
proof -
  have "str ''unmatched'' \<in> set ROUTES" by (simp add: ROUTES_def)
  then show ?thesis by (auto simp: route_label_def find_Some_iff split: option.split)
qed

definition requests_of :: "(rstring \<times> route_window) list \<Rightarrow> nat" where
  "requests_of routes = sum_list (map (\<lambda>p. unat (rw_duration_count (snd p))) routes)"

lemma requests_bt_insert:
  assumes "bt_sorted m"
  shows "requests_of (bt_insert k v m) +
      (case map_of m k of None \<Rightarrow> 0 | Some r \<Rightarrow> unat (rw_duration_count r)) =
    requests_of m + unat (rw_duration_count v)"
  using assms
proof (induction m)
  case (Cons p m)
  obtain k' r where p: "p = (k', r)" by (cases p)
  show ?case
  proof (cases "k < k'")
    case True
    have "map_of m k = None"
      using Cons.prems True p by (auto simp: map_of_eq_None_iff)
    then show ?thesis using True p by (auto simp: requests_of_def)
  next
    case False
    then show ?thesis using Cons p by (auto simp: requests_of_def)
  qed
qed (simp add: requests_of_def)

lemma requests_member: "(k, r) \<in> set m \<Longrightarrow> unat (rw_duration_count r) \<le> requests_of m"
  unfolding requests_of_def by (rule member_le_sum_list) force+

definition web_ok :: "nat \<Rightarrow> web_metrics \<Rightarrow> bool" where
  "web_ok n m \<longleftrightarrow> bt_sorted (ww_routes (wm_window m)) \<and> requests_of (ww_routes (wm_window m)) = n \<and>
     (\<forall>(route, r)\<in>set (ww_routes (wm_window m)). route \<in> set ROUTES \<and> window_ok r)"

lemma web_ok_record:
  assumes ok: "web_ok n m" and n: "n < 2 ^ 64 - 1"
  shows "web_ok (Suc n) (record_request route status elapsed m)"
proof -
  let ?routes = "ww_routes (wm_window m)" and ?l = "route_label (Some route)"
  define r where "r = (case map_of ?routes ?l of None \<Rightarrow> default_route_window | Some r \<Rightarrow> r)"
  have srt: "bt_sorted ?routes" and req: "requests_of ?routes = n" using ok by (simp_all add: web_ok_def)
  have r: "window_ok r" "unat (rw_duration_count r) =
      (case map_of ?routes ?l of None \<Rightarrow> 0 | Some r \<Rightarrow> unat (rw_duration_count r))"
    using ok window_ok_default
    by (auto simp: r_def web_ok_def default_route_window_def split: option.split dest!: map_of_SomeD)
  have "unat (rw_duration_count r) \<le> n"
    using r(2) req requests_member by (auto split: option.splits dest!: map_of_SomeD)
  then have c: "window_ok (count_request status elapsed r)"
    "unat (rw_duration_count (count_request status elapsed r)) = Suc (unat (rw_duration_count r))"
    using window_ok_count [OF r(1)] n by simp_all
  let ?new = "bt_insert ?l (count_request status elapsed r) ?routes"
  have "requests_of ?new = Suc n"
    using requests_bt_insert [OF srt, of ?l "count_request status elapsed r"] c(2) r(2) req by simp
  moreover have "bt_sorted ?new" using srt by (rule bt_sorted_insert)
  moreover have "\<forall>(route, r)\<in>set ?new. route \<in> set ROUTES \<and> window_ok r"
    using ok c(1) route_label_in set_bt_insert_subset [of ?l "count_request status elapsed r" ?routes]
    unfolding web_ok_def by fastforce
  ultimately show ?thesis by (simp add: record_request_def web_ok_def Let_def r_def)
qed

lemma web_ok_fold:
  "web_ok n m \<Longrightarrow> n + length reqs \<le> 2 ^ 64 - 1 \<Longrightarrow>
   web_ok (n + length reqs) (fold (\<lambda>(route, status, elapsed). record_request route status elapsed) reqs m)"
proof (induction reqs arbitrary: n m)
  case (Cons q reqs)
  obtain route status elapsed where q: "q = (route, status, elapsed)" by (cases q)
  have "web_ok (Suc n) (record_request route status elapsed m)"
    by (rule web_ok_record [OF Cons.prems(1)]) (use Cons.prems(2) in simp)
  from Cons.IH [OF this] Cons.prems(2) show ?case by (simp add: q)
qed simp

subsection \<open>Reports of fetched metadata\<close>

text \<open>A run of the crawler as its metrics see it: a fetch (\<open>True\<close>) or a report.\<close>

fun report_run :: "bool list \<Rightarrow> crawler_metrics \<Rightarrow> u64 list \<times> crawler_metrics" where
  "report_run [] m = ([], m)"
| "report_run (True # es) m = report_run es (metrics_apply MetadataFetched m)"
| "report_run (False # es) m =
     (case metadata_fetched_interval (load C_metadata_fetched m) m of
        (i, m') \<Rightarrow> (case report_run es m' of (is, m'') \<Rightarrow> (i # is, m'')))"

lemma report_run_sum:
  "report_run es m = (is, m') \<Longrightarrow> unat (load C_metadata_fetched m) + length es < 2 ^ 64 \<Longrightarrow>
   load C_metadata_fetched_last_emit m \<le> load C_metadata_fetched m \<Longrightarrow>
   sum_list (map unat is) + unat (load C_metadata_fetched_last_emit m) =
      unat (load C_metadata_fetched_last_emit m') \<and>
   unat (load C_metadata_fetched m') = unat (load C_metadata_fetched m) + length (filter id es)"
proof (induction es m arbitrary: "is" m' rule: report_run.induct)
  case (1 m)
  then show ?case by auto
next
  case (2 es m)
  let ?n = "load C_metadata_fetched m"
  have one: "unat (?n + 1) = Suc (unat ?n)"
    using "2.prems"(2) by (simp add: unat_word_ariths)
  have le: "load C_metadata_fetched_last_emit m \<le> ?n + 1"
    using "2.prems"(3) one by (simp add: word_le_nat_alt)
  show ?case using "2.IH" [of "is" m'] "2.prems" one le by simp
next
  case (3 es m)
  let ?n = "load C_metadata_fetched m"
  let ?m = "store C_metadata_fetched_last_emit ?n m"
  obtain is' m'' where r: "report_run es ?m = (is', m'')" by fastforce
  have i: "metadata_fetched_interval ?n m = (sat_sub ?n (load C_metadata_fetched_last_emit m), ?m)"
    by (simp add: metadata_fetched_interval_def)
  have "is = sat_sub ?n (load C_metadata_fetched_last_emit m) # is'" "m' = m''"
    using "3.prems"(1) r i by simp_all
  then show ?case using "3.IH" [OF i [symmetric] r] "3.prems"(2,3)
    by (simp add: unat_sat_sub word_le_nat_alt)
qed

subsection \<open>Properties of the metrics\<close>

text \<open>
  C37: whatever statistics events the crawler reports, the discovery counters balance (modulo
  their width): observations are the peer-bearing plus the peerless ones, the accepted plus
  the rejected ones, and the sum over the five sources.
\<close>

theorem discovery_counters_balance:
  "accounts_balanced (fold metrics_apply es (default_crawler_metrics c))"
proof (rule fold_inv)
  show "accounts_balanced (default_crawler_metrics c)"
    by (simp add: accounts_balanced_def sources_sum_eq default_crawler_metrics_def load_def)
qed (rule accounts_balanced_apply)

text \<open>
  C38: in every request window the requests by status class and by latency bucket add up to
  the requests of the route, over all routes to the requests recorded since the window
  began, and only the nine fixed labels appear as routes, whatever paths are requested.
\<close>

theorem request_window_adds_up:
  assumes "length reqs < 2 ^ 64"
  shows "web_ok (length reqs)
    (fold (\<lambda>(route, status, elapsed). record_request route status elapsed) reqs (default_web_metrics c))"
proof -
  have "web_ok 0 (default_web_metrics c)"
    by (simp add: web_ok_def default_web_metrics_def new_web_window_def requests_of_def)
  from web_ok_fold [OF this, of reqs] assms show ?thesis by simp
qed

lemma request_window_adds_up_witness:
  "web_ok (Suc (Suc 0)) (fold (\<lambda>(route, status, elapsed). record_request route status elapsed)
     [(str ''/'', 200, 7000000), (str ''/x'', 404, 1000)] (default_web_metrics \<lparr>ck_now = 1, ck_unix = 2\<rparr>))"
  using request_window_adds_up [of "[(str ''/'', 200, 7000000), (str ''/x'', 404, 1000)]"
      "\<lparr>ck_now = 1, ck_unix = 2\<rparr>"] by simp

text \<open>
  C39: the fetched-metadata intervals of the reports add up: after any mix of fetches and
  reports that ends with a report, the sum of the reported intervals is the number of
  fetches.
\<close>

theorem report_intervals_add_up:
  assumes "report_run (es @ [False]) (default_crawler_metrics c) = (is, m)" "length es + 1 < 2 ^ 64"
  shows "sum_list (map unat is) = length (filter id es)"
proof -
  have z: "load k (default_crawler_metrics c) = 0" for k
    by (simp add: default_crawler_metrics_def load_def)
  have last: "report_run (es @ [False]) m0 = (is, m) \<Longrightarrow>
      load C_metadata_fetched_last_emit m = load C_metadata_fetched m" for m0 "is"
  proof (induction es m0 arbitrary: "is" rule: report_run.induct)
    case (3 es m0)
    then show ?case by (auto simp: metadata_fetched_interval_def split: prod.splits)
  qed (auto simp: metadata_fetched_interval_def)
  show ?thesis
    using report_run_sum [OF assms(1)] assms(2) last [OF assms(1)] by (simp add: z)
qed

lemma report_intervals_add_up_witness:
  "sum_list (map unat (fst (report_run ([True, False, True] @ [False])
     (default_crawler_metrics \<lparr>ck_now = 1, ck_unix = 2\<rparr>)))) = 2"
proof -
  obtain "is" m where r: "report_run ([True, False, True] @ [False])
      (default_crawler_metrics \<lparr>ck_now = 1, ck_unix = 2\<rparr>) = (is, m)" by fastforce
  from report_intervals_add_up [OF r] r show ?thesis by simp
qed

end
