(* ===== verification/Dht_Crawler.thy ===== *)
theory Dht_Crawler
  imports Dht_Codec Metrics
begin

text \<open>
  The crawler of \<^verbatim>\<open>src/src/dht.rs\<close>: its state, and one definition per method, up to the
  branches of the \<open>select!\<close> loop.  What the code asks of its surroundings is the record
  \<open>crawler_env\<close>: the bencode library, SHA-1, whether a datagram or a channel send succeeds,
  name resolution, random choices and the order of a \<open>HashMap\<close>.  The answers may depend on
  everything the crawler has put out before, the list \<open>cw_out\<close> (newest first).  The clock
  readings of one handler are one reading.  \<open>None\<close> is a panic.
\<close>

subsection \<open>Lookups in progress\<close>

datatype queue_admission = Accepted | Duplicate | CapacityRejected | Invalid

record real_lookup_progress =
  rp_outstanding :: nat
  rp_peers_found :: bool

record real_lookup_tracker =
  lt_next_id :: u64
  lt_active :: "(u64 \<times> real_lookup_progress) list"

definition new_tracker :: real_lookup_tracker where
  "new_tracker = \<lparr>lt_next_id = 0, lt_active = []\<rparr>"

definition lookup_begin :: "real_lookup_tracker \<Rightarrow> u64 \<times> real_lookup_tracker" where
  "lookup_begin t =
     (let i = lt_next_id t
      in (i, \<lparr>lt_next_id = lt_next_id t + 1,
              lt_active = AList.update i \<lparr>rp_outstanding = 0, rp_peers_found = False\<rparr> (lt_active t)\<rparr>))"

definition lookup_attach :: "u64 \<Rightarrow> real_lookup_tracker \<Rightarrow> real_lookup_tracker" where
  "lookup_attach i t =
     (case map_of (lt_active t) i of
        None \<Rightarrow> t
      | Some progress \<Rightarrow>
          t\<lparr>lt_active := AList.update i (progress\<lparr>rp_outstanding := rp_outstanding progress + 1\<rparr>) (lt_active t)\<rparr>)"

type_synonym tracked = "real_lookup_tracker \<times> crawler_metrics"

definition lookup_complete :: "u64 \<Rightarrow> bool \<Rightarrow> tracked \<Rightarrow> tracked" where
  "lookup_complete i found_peers tm =
     (case tm of (t, m) \<Rightarrow>
        case map_of (lt_active t) i of
          None \<Rightarrow> (t, m)
        | Some progress \<Rightarrow>
            (let progress = progress\<lparr>rp_outstanding := rp_outstanding progress - 1,
                                     rp_peers_found := rp_peers_found progress \<or> found_peers\<rparr>
             in if 0 < rp_outstanding progress
                then (t\<lparr>lt_active := AList.update i progress (lt_active t)\<rparr>, m)
                else (t\<lparr>lt_active := AList.delete i (lt_active t)\<rparr>,
                      if rp_peers_found progress then record_real_lookup_succeeded m
                      else record_real_lookup_failed m)))"

definition lookup_respond :: "u64 \<Rightarrow> bool \<Rightarrow> tracked \<Rightarrow> tracked" where
  "lookup_respond i found_peers tm = lookup_complete i found_peers tm"

definition lookup_timeout :: "u64 \<Rightarrow> tracked \<Rightarrow> tracked" where
  "lookup_timeout i tm = (case tm of (t, m) \<Rightarrow> lookup_complete i False (t, record_real_lookup_rpc_timeout m))"

definition lookup_failure :: "u64 \<Rightarrow> tracked \<Rightarrow> tracked" where
  "lookup_failure i tm = (case tm of (t, m) \<Rightarrow> lookup_complete i False (t, record_real_lookup_rpc_failure m))"

definition lookup_started :: "u64 \<Rightarrow> tracked \<Rightarrow> tracked" where
  "lookup_started i tm =
     (case tm of (t, m) \<Rightarrow>
        (let initiated = (case map_of (lt_active t) i of None \<Rightarrow> False
                          | Some progress \<Rightarrow> 0 < rp_outstanding progress)
         in if initiated then (t, record_real_lookup_initiated m)
            else (t\<lparr>lt_active := AList.delete i (lt_active t)\<rparr>, m)))"

subsection \<open>State and surroundings\<close>

datatype crawler_output =
  Datagram socket_addr_v4 bytes bool
| Discovery hash_discovery bool
| Stat crawl_stats_event

record crawler_env =
  ev_enc :: benc
  ev_dec :: bdec
  ev_sha1 :: "bytes \<Rightarrow> bytes"
  ev_send :: "crawler_output list \<Rightarrow> bool"
  ev_accept :: "crawler_output list \<Rightarrow> bool"
  ev_resolve :: "rstring \<Rightarrow> socket_addr_v4 option"
  ev_random_id :: "crawler_output list \<Rightarrow> node_id"
  ev_pick :: "nat \<Rightarrow> node_contact list \<Rightarrow> node_contact list"
  ev_any_key :: "info_hash list \<Rightarrow> info_hash"

record crawler =
  cw_our_id :: node_id
  cw_routing :: routing_table
  cw_metrics :: crawler_metrics
  cw_lookups :: real_lookup_tracker
  cw_token_secret :: bytes
  cw_bootstrap_nodes :: "rstring list"
  cw_discovery_queue :: "info_hash list"
  cw_discovery_set :: "info_hash set"
  cw_provisional :: "(socket_addr_v4 \<times> (node_id \<times> instant)) list"
  cw_pending_rpcs :: pending_table
  cw_retired :: "(bytes \<times> instant) list"
  cw_sample_eligible_at :: "(node_id \<times> instant) list"
  cw_peer_cache :: "(info_hash \<times> cached_peer list) list"
  cw_config :: dht_config
  cw_queries_sent :: nat
  cw_info_hashes_found :: nat
  cw_sampling_round_id :: u64
  cw_next_tx :: u16
  cw_out :: "crawler_output list"

definition with_config ::
  "clock \<Rightarrow> node_id \<Rightarrow> bytes \<Rightarrow> rstring list \<Rightarrow> dht_config \<Rightarrow> crawler_metrics \<Rightarrow> crawler" where
  "with_config c our_id token_secret bootstrap_nodes config metrics =
     \<lparr>cw_our_id = our_id,
      cw_routing = with_candidate_capacity c our_id (dc_max_candidate_nodes config),
      cw_metrics = set_discovery_queue_capacity (dc_max_discovery_hashes config) metrics,
      cw_lookups = new_tracker, cw_token_secret = token_secret,
      cw_bootstrap_nodes = bootstrap_nodes, cw_discovery_queue = [], cw_discovery_set = {},
      cw_provisional = [], cw_pending_rpcs = [], cw_retired = [], cw_sample_eligible_at = [],
      cw_peer_cache = [], cw_config = config, cw_queries_sent = 0, cw_info_hashes_found = 0,
      cw_sampling_round_id = 0, cw_next_tx = 1, cw_out = []\<rparr>"

definition new_crawler ::
  "clock \<Rightarrow> node_id \<Rightarrow> bytes \<Rightarrow> rstring list \<Rightarrow> crawler_metrics \<Rightarrow> crawler" where
  "new_crawler c random_id token_secret bootstrap_nodes metrics =
     with_config c random_id token_secret bootstrap_nodes default_dht_config metrics"

definition on_metrics :: "(crawler_metrics \<Rightarrow> crawler_metrics) \<Rightarrow> crawler \<Rightarrow> crawler" where
  "on_metrics f s = s\<lparr>cw_metrics := f (cw_metrics s)\<rparr>"

definition on_lookups :: "(tracked \<Rightarrow> tracked) \<Rightarrow> crawler \<Rightarrow> crawler" where
  "on_lookups f s =
     (case f (cw_lookups s, cw_metrics s) of (t, m) \<Rightarrow> s\<lparr>cw_lookups := t, cw_metrics := m\<rparr>)"

definition put_out :: "crawler_output \<Rightarrow> crawler \<Rightarrow> crawler" where
  "put_out x s = s\<lparr>cw_out := x # cw_out s\<rparr>"

definition emit_stat :: "crawl_stats_event \<Rightarrow> crawler \<Rightarrow> crawler" where
  "emit_stat event s = put_out (Stat event) (on_metrics (metrics_apply event) s)"

subsection \<open>Sending queries\<close>

text \<open>The search over all \<open>u16\<close> values draws from the static counter \<open>NEXT_TX\<close>, which wraps.\<close>

function alloc_loop :: "nat \<Rightarrow> u16 \<Rightarrow> (u16 \<Rightarrow> bool) \<Rightarrow> u16 option \<times> u16" where
  "alloc_loop n tx used =
     (if n = 0 then (None, tx)
      else if \<not> used tx then (Some tx, tx + 1)
      else alloc_loop (n - 1) (tx + 1) used)"
  by pat_completeness auto
termination
  by (relation "measure fst") auto

declare alloc_loop.simps [simp del]

definition tx_used :: "crawler \<Rightarrow> u16 \<Rightarrow> bool" where
  "tx_used s tx \<longleftrightarrow>
     map_of (cw_pending_rpcs s) (transaction_id_bytes tx) \<noteq> None \<or>
     map_of (cw_retired s) (transaction_id_bytes tx) \<noteq> None"

definition allocate_transaction :: "crawler \<Rightarrow> u16 option \<times> crawler" where
  "allocate_transaction s =
     (if dc_max_pending_rpcs (cw_config s) \<le> length (cw_pending_rpcs s) then (None, s)
      else case alloc_loop 65536 (cw_next_tx s) (tx_used s) of
        (tx, next_tx) \<Rightarrow> (tx, s\<lparr>cw_next_tx := next_tx\<rparr>))"

definition unsent :: "u64 option \<Rightarrow> crawler \<Rightarrow> crawler" where
  "unsent lookup_id s =
     (if lookup_id \<noteq> None then on_metrics record_real_lookup_rpc_unsent s else s)"

definition send_rpc ::
  "crawler_env \<Rightarrow> clock \<Rightarrow> socket_addr_v4 \<Rightarrow> node_id option \<Rightarrow> rpc_method \<Rightarrow> node_id \<Rightarrow>
   info_hash option \<Rightarrow> bool \<Rightarrow> u8 \<Rightarrow> u64 option \<Rightarrow> crawler \<Rightarrow> (bool \<times> crawler) option" where
  "send_rpc ev c addr expected_node_id method target h is_real_lookup continuation_budget lookup_id s =
     (case allocate_transaction s of
        (None, s) \<Rightarrow> Some (False, emit_stat DiscoveryBackpressure (unsent lookup_id s))
      | (Some transaction, s) \<Rightarrow>
          (let key = transaction_id_bytes transaction;
               pending = \<lparr>pr_expected_addr = addr, pr_expected_node_id = expected_node_id,
                          pr_method = method, pr_target = target, pr_info_hash = h,
                          pr_is_real_lookup = is_real_lookup,
                          pr_deadline = ck_now c + dc_rpc_timeout (cw_config s),
                          pr_continuation_budget = continuation_budget,
                          pr_lookup_id = lookup_id\<rparr>;
               s = s\<lparr>cw_pending_rpcs := AList.update key pending (cw_pending_rpcs s)\<rparr>
           in do {
             bytes \<leftarrow> krpc_to_bytes (ev_enc ev) (query_message method (cw_our_id s) target transaction);
             (let ok = ev_send ev (cw_out s);
                  s = put_out (Datagram addr bytes ok) s
              in Some (if ok
                then (True, (s\<lparr>cw_queries_sent := cw_queries_sent s + 1,
                         cw_lookups := (case lookup_id of None \<Rightarrow> cw_lookups s
                                        | Some i \<Rightarrow> lookup_attach i (cw_lookups s))\<rparr>))
                else (False, unsent lookup_id
                         (s\<lparr>cw_pending_rpcs := AList.delete key (cw_pending_rpcs s)\<rparr>))))
           }))"

definition bootstrap :: "crawler_env \<Rightarrow> clock \<Rightarrow> crawler \<Rightarrow> crawler option" where
  "bootstrap ev c s =
     fold_opt (\<lambda>configured s.
         case ev_resolve ev configured of
           None \<Rightarrow> Some s
         | Some addr \<Rightarrow>
             map_option snd (send_rpc ev c addr None FindNode (cw_our_id s) None False 2 None s))
       (cw_bootstrap_nodes s) s"

subsection \<open>Discoveries\<close>

definition queue_hash :: "info_hash \<Rightarrow> crawler \<Rightarrow> queue_admission \<times> crawler" where
  "queue_hash h s =
     (if h = zero_hash then (Invalid, s)
      else if h \<in> cw_discovery_set s then (Duplicate, on_metrics record_lookup_queue_duplicate s)
      else if dc_max_discovery_hashes (cw_config s) \<le> length (cw_discovery_queue s)
      then (CapacityRejected, on_metrics record_lookup_queue_capacity_rejected s)
      else (let s = s\<lparr>cw_discovery_queue := cw_discovery_queue s @ [h],
                      cw_discovery_set := insert h (cw_discovery_set s)\<rparr>
            in (Accepted, on_metrics (\<lambda>m. record_lookup_queue_accepted
                  (set_discovery_queue_depth (length (cw_discovery_queue s)) m)) s)))"

text \<open>\<open>enqueue_discovery\<close> answers the observation to report and whether the channel was full.\<close>

definition enqueue_discovery ::
  "crawler_env \<Rightarrow> hash_discovery \<Rightarrow> crawler \<Rightarrow> (crawl_stats_event \<times> bool) \<times> crawler" where
  "enqueue_discovery ev d s =
     (let accepted = ev_accept ev (cw_out s)
      in ((HashObserved (hd_info_hash d) (hd_source d) (hd_peers d \<noteq> []) accepted (length (hd_peers d)),
           \<not> accepted),
          put_out (Discovery d accepted) s))"

definition publish_discovery ::
  "crawler_env \<Rightarrow> info_hash \<Rightarrow> peer_contact list \<Rightarrow> discovery_source \<Rightarrow> crawler \<Rightarrow> crawler" where
  "publish_discovery ev h peers source s =
     (case record_hash_observation (cw_info_hashes_found s) h of
        (False, n) \<Rightarrow> s
      | (True, n) \<Rightarrow>
          (let s = s\<lparr>cw_info_hashes_found := n\<rparr>;
               peers = take (dc_max_peers_per_hash (cw_config s)) (remdups_adj (sort_key pc_addr peers));
               s = snd (queue_hash h s)
           in case enqueue_discovery ev \<lparr>hd_info_hash = h, hd_peers = peers, hd_source = source\<rparr> s of
                ((observation, backpressure), s) \<Rightarrow>
                  (let s = emit_stat observation s
                   in if backpressure then emit_stat DiscoveryBackpressure s else s)))"

definition seed_hash :: "crawler_env \<Rightarrow> info_hash \<Rightarrow> nat \<times> crawler \<Rightarrow> nat \<times> crawler" where
  "seed_hash ev h ns =
     (case ns of (added, s) \<Rightarrow>
        case queue_hash h s of
          (Accepted, s) \<Rightarrow>
            (let send_ok = ev_accept ev (cw_out s);
                 s = put_out (Discovery \<lparr>hd_info_hash = h, hd_peers = [], hd_source = Resume\<rparr> send_ok) s;
                 s = emit_stat (HashObserved h Resume False send_ok 0) s
             in (added + 1, if send_ok then s else emit_stat DiscoveryBackpressure s))
        | (_, s) \<Rightarrow> (added, s))"

definition seed_info_hashes :: "crawler_env \<Rightarrow> info_hash list \<Rightarrow> crawler \<Rightarrow> nat \<times> crawler" where
  "seed_info_hashes ev hashes s = fold (seed_hash ev) hashes (0, s)"

definition seed_nodes :: "clock \<Rightarrow> node_contact list \<Rightarrow> crawler \<Rightarrow> (nat \<times> crawler) option" where
  "seed_nodes c nodes s =
     fold_opt (\<lambda>node (n, s). do {
         (added, t) \<leftarrow> add_node c (nc_id node) (nc_addr node) (cw_routing s);
         Some (if added then n + 1 else n, s\<lparr>cw_routing := t\<rparr>)
       }) nodes (0, s)"

text \<open>What \<^verbatim>\<open>main.rs\<close> does with the state of the previous run before it starts the crawler.\<close>

definition seed_crawler ::
  "crawler_env \<Rightarrow> clock \<Rightarrow> info_hash list \<Rightarrow> node_contact list \<Rightarrow> crawler \<Rightarrow> crawler option" where
  "seed_crawler ev c hashes nodes s =
     map_option snd (seed_nodes c nodes (snd (seed_info_hashes ev hashes s)))"

subsection \<open>The peer cache\<close>

definition cache_peer :: "crawler_env \<Rightarrow> clock \<Rightarrow> info_hash \<Rightarrow> peer_contact \<Rightarrow> crawler \<Rightarrow> crawler" where
  "cache_peer ev c h peer s =
     (let config = cw_config s; cache = cw_peer_cache s in
      if dc_announced_peer_hash_capacity config = 0 \<or> dc_announced_peers_per_hash config = 0 then s
      else
        (let cache =
               (if map_of cache h = None \<and> dc_announced_peer_hash_capacity config \<le> length cache
                then (if cache = [] then cache else AList.delete (ev_any_key ev (keys cache)) cache)
                else cache);
             peers = (case map_of cache h of None \<Rightarrow> [] | Some peers \<Rightarrow> peers);
             peers = filter (\<lambda>cached. cp_peer cached \<noteq> peer) peers;
             peers = (if dc_announced_peers_per_hash config \<le> length peers then tl peers else peers);
             peers = peers @ [\<lparr>cp_peer = peer, cp_expires_at = ck_now c + dc_announced_peer_ttl config\<rparr>]
         in s\<lparr>cw_peer_cache := AList.update h peers cache\<rparr>))"

definition expire_peer_cache :: "clock \<Rightarrow> crawler \<Rightarrow> crawler" where
  "expire_peer_cache c s =
     s\<lparr>cw_peer_cache := filter (\<lambda>(h, peers). peers \<noteq> [])
        (map (\<lambda>(h, peers). (h, filter (\<lambda>p. ck_now c < cp_expires_at p) peers)) (cw_peer_cache s))\<rparr>"

subsection \<open>Timeouts\<close>

definition fail_contact :: "clock \<Rightarrow> node_id option \<Rightarrow> crawler \<Rightarrow> crawler option" where
  "fail_contact c expected_node_id s =
     (case expected_node_id of
        None \<Rightarrow> Some s
      | Some i \<Rightarrow> map_option (\<lambda>t. s\<lparr>cw_routing := t\<rparr>) (record_failure c i (cw_routing s)))"

definition retire :: "clock \<Rightarrow> bytes \<Rightarrow> crawler \<Rightarrow> crawler" where
  "retire c transaction s =
     s\<lparr>cw_retired := AList.update transaction (ck_now c + dc_rpc_timeout (cw_config s)) (cw_retired s)\<rparr>"

definition expire_one :: "clock \<Rightarrow> bytes \<Rightarrow> crawler \<Rightarrow> crawler option" where
  "expire_one c transaction s =
     (case map_of (cw_pending_rpcs s) transaction of
        None \<Rightarrow> Some s
      | Some pending \<Rightarrow>
          (let s = retire c transaction
                 (s\<lparr>cw_pending_rpcs := AList.delete transaction (cw_pending_rpcs s)\<rparr>)
           in do {
             s \<leftarrow> fail_contact c (pr_expected_node_id pending) s;
             (let s = (if pr_is_real_lookup pending
                       then (case pr_info_hash pending of None \<Rightarrow> s | Some h \<Rightarrow> snd (queue_hash h s))
                       else s);
                  s = (case pr_lookup_id pending of None \<Rightarrow> s
                       | Some i \<Rightarrow> on_lookups (lookup_timeout i) s)
              in Some (emit_stat RpcTimedOut s))
           }))"

definition expire_pending :: "clock \<Rightarrow> crawler \<Rightarrow> crawler option" where
  "expire_pending c s =
     (let s = s\<lparr>cw_retired := filter (\<lambda>(k, reusable_at). ck_now c < reusable_at) (cw_retired s)\<rparr>;
          expired = map fst (filter (\<lambda>(k, pending). pr_deadline pending \<le> ck_now c) (cw_pending_rpcs s))
      in fold_opt (expire_one c) expired s)"

subsection \<open>Queries from other nodes\<close>

definition field_id :: "krpc_dict \<Rightarrow> rstring \<Rightarrow> node_id option" where
  "field_id values key =
     (case fmlookup values key of
        Some (KBytes bytes) \<Rightarrow> if length bytes \<noteq> NODE_ID_LEN then None else Some bytes
      | _ \<Rightarrow> None)"

definition response_nodes :: "clock \<Rightarrow> krpc_message \<Rightarrow> node_contact list" where
  "response_nodes c message =
     (case message of
        Response t y r extra \<Rightarrow>
          (case fmlookup r (str ''nodes'') of
             Some (KBytes nodes) \<Rightarrow> decode_compact_nodes c nodes
           | _ \<Rightarrow> [])
      | _ \<Rightarrow> [])"

definition closest_bytes :: "node_id \<Rightarrow> crawler \<Rightarrow> krpc_value" where
  "closest_bytes target s = KBytes (encode_compact_nodes (closest_nodes (cw_routing s) target 8))"

definition get_peers_response ::
  "crawler_env \<Rightarrow> clock \<Rightarrow> krpc_dict \<Rightarrow> bytes \<Rightarrow> socket_addr_v4 \<Rightarrow> crawler \<Rightarrow> krpc_message \<times> crawler" where
  "get_peers_response ev c args transaction source s =
     (case field_id args (str ''info_hash'') of
        None \<Rightarrow> (error_message transaction (str ''invalid info_hash''), s)
      | Some h \<Rightarrow>
          (let s = expire_peer_cache c (publish_discovery ev h [] InboundGetPeers s);
               values = fmupd (str ''token'')
                 (KBytes (make_token (ev_sha1 ev) c (cw_token_secret s) (sa_ip source))) fmempty;
               values = (case map_of (cw_peer_cache s) h of
                   Some peers \<Rightarrow> fmupd (str ''values'')
                     (KList (map (\<lambda>cached. KBytes (encode_compact_peer (cp_peer cached))) peers)) values
                 | None \<Rightarrow> fmupd (str ''nodes'') (closest_bytes h s) values)
           in (response_message (cw_our_id s) transaction values, s)))"

definition announce_port :: "krpc_dict \<Rightarrow> socket_addr_v4 \<Rightarrow> u16 option" where
  "announce_port args source =
     (let implied = (case fmlookup args (str ''implied_port'') of
            Some (KInt value) \<Rightarrow> value \<noteq> 0 | _ \<Rightarrow> False)
      in if implied then Some (sa_port source)
         else (case fmlookup args (str ''port'') of
           Some (KInt port) \<Rightarrow>
             if 1 \<le> sint port \<and> sint port \<le> 65535 then Some (ucast port) else None
         | _ \<Rightarrow> None))"

definition announce_token_ok ::
  "crawler_env \<Rightarrow> clock \<Rightarrow> krpc_dict \<Rightarrow> socket_addr_v4 \<Rightarrow> crawler \<Rightarrow> bool" where
  "announce_token_ok ev c args source s =
     (case fmlookup args (str ''token'') of
        Some (KBytes token) \<Rightarrow> validate_token (ev_sha1 ev) c (cw_token_secret s) (sa_ip source) token
      | _ \<Rightarrow> False)"

definition announce_peer_response ::
  "crawler_env \<Rightarrow> clock \<Rightarrow> krpc_dict \<Rightarrow> bytes \<Rightarrow> socket_addr_v4 \<Rightarrow> crawler \<Rightarrow> krpc_message \<times> crawler" where
  "announce_peer_response ev c args transaction source s =
     (case field_id args (str ''info_hash'') of
        None \<Rightarrow> (error_message transaction (str ''invalid info_hash''), s)
      | Some h \<Rightarrow>
          if \<not> announce_token_ok ev c args source s
          then (error_message transaction (str ''invalid token''), s)
          else case announce_port args source of
            None \<Rightarrow> (error_message transaction (str ''invalid port''), s)
          | Some port \<Rightarrow>
              (let peer = \<lparr>pc_addr = SocketAddrV4 (sa_ip source) port\<rparr>;
                   s = cache_peer ev c h peer s;
                   s = publish_discovery ev h [peer] AnnouncePeer s
               in (response_message (cw_our_id s) transaction fmempty, s)))"

text \<open>\<open>min_by_key\<close> answers the first entry with the least time of sight.\<close>

fun oldest :: "(socket_addr_v4 \<times> (node_id \<times> instant)) list \<Rightarrow> socket_addr_v4 option" where
  "oldest [] = None"
| "oldest (p # ps) = Some (fst (foldl (\<lambda>a b. if snd (snd b) < snd (snd a) then b else a) p ps))"

definition remember_provisional ::
  "clock \<Rightarrow> socket_addr_v4 \<Rightarrow> node_id \<Rightarrow> crawler \<Rightarrow> crawler" where
  "remember_provisional c source i s =
     (let prov = cw_provisional s;
          prov = (if dc_max_candidate_nodes (cw_config s) \<le> length prov
                  then (case oldest prov of None \<Rightarrow> prov | Some addr \<Rightarrow> AList.delete addr prov)
                  else prov)
      in s\<lparr>cw_provisional := AList.update source (i, ck_now c) prov\<rparr>)"

definition answer_query ::
  "crawler_env \<Rightarrow> clock \<Rightarrow> rstring \<Rightarrow> krpc_dict \<Rightarrow> bytes \<Rightarrow> socket_addr_v4 \<Rightarrow> crawler \<Rightarrow>
   krpc_message \<times> crawler" where
  "answer_query ev c q a t source s =
     (let target = (case field_id a (str ''target'') of None \<Rightarrow> cw_our_id s | Some i \<Rightarrow> i) in
      if q = str ''ping'' then (response_message (cw_our_id s) t fmempty, s)
      else if q = str ''find_node'' then
        (response_message (cw_our_id s) t (fmupd (str ''nodes'') (closest_bytes target s) fmempty), s)
      else if q = str ''get_peers'' then get_peers_response ev c a t source s
      else if q = str ''announce_peer'' then announce_peer_response ev c a t source s
      else if q = str ''sample_infohashes'' then
        (response_message (cw_our_id s) t
          (fmupd (str ''interval'') (KInt 300) (fmupd (str ''num'') (KInt 0)
            (fmupd (str ''samples'') (KBytes []) (fmupd (str ''nodes'') (closest_bytes target s) fmempty)))), s)
      else (error_message t (str ''unknown query''), s))"

definition handle_query ::
  "crawler_env \<Rightarrow> clock \<Rightarrow> krpc_message \<Rightarrow> socket_addr_v4 \<Rightarrow> crawler \<Rightarrow> crawler option" where
  "handle_query ev c message source s =
     (if \<not> is_public_endpoint source then Some s
      else case message of
        Query t y q a extra \<Rightarrow>
          (let s = (case extract_node_id message of None \<Rightarrow> s
                    | Some i \<Rightarrow> remember_provisional c source i s)
           in case answer_query ev c q a t source s of
                (response, s) \<Rightarrow> do {
                  bytes \<leftarrow> krpc_to_bytes (ev_enc ev) response;
                  Some (put_out (Datagram source bytes (ev_send ev (cw_out s))) s)
                })
      | _ \<Rightarrow> Some s)"

subsection \<open>Responses to our queries\<close>

definition admit_candidates :: "node_contact list \<Rightarrow> crawler \<Rightarrow> crawler option" where
  "admit_candidates nodes s =
     map_option (\<lambda>t. s\<lparr>cw_routing := t\<rparr>)
       (fold_opt (\<lambda>node t. map_option snd (add_candidate node t))
          (take (dc_max_candidate_nodes (cw_config s)) nodes) (cw_routing s))"

definition continue_find_node ::
  "crawler_env \<Rightarrow> clock \<Rightarrow> node_contact list \<Rightarrow> pending_rpc \<Rightarrow> crawler \<Rightarrow> crawler option" where
  "continue_find_node ev c nodes pending s =
     (if pr_continuation_budget pending = 0 then Some s
      else fold_opt (\<lambda>node s. map_option snd
          (send_rpc ev c (nc_addr node) (Some (nc_id node)) FindNode (pr_target pending) None False
             (pr_continuation_budget pending - 1) None s))
        (take LOOKUP_CONTINUATION_FANOUT nodes) s)"

definition continue_get_peers ::
  "crawler_env \<Rightarrow> clock \<Rightarrow> info_hash \<Rightarrow> node_contact list \<Rightarrow> pending_rpc \<Rightarrow> crawler \<Rightarrow> crawler option" where
  "continue_get_peers ev c h nodes pending s =
     (if pr_continuation_budget pending = 0 then Some s
      else fold_opt (\<lambda>node s. map_option snd
          (send_rpc ev c (nc_addr node) (Some (nc_id node)) GetPeers h (Some h)
             (pr_is_real_lookup pending) (pr_continuation_budget pending - 1) (pr_lookup_id pending) s))
        (take LOOKUP_CONTINUATION_FANOUT nodes) s)"

definition accept_get_peers ::
  "crawler_env \<Rightarrow> clock \<Rightarrow> krpc_message \<Rightarrow> pending_rpc \<Rightarrow> crawler \<Rightarrow> crawler option" where
  "accept_get_peers ev c message pending s =
     (case parse_get_peers_response c message of (peers, nodes) \<Rightarrow>
       (let has_peers = (peers \<noteq> []);
            s = on_metrics (record_get_peers_response has_peers) s
        in do {
          s \<leftarrow> admit_candidates nodes s;
          s \<leftarrow> (case pr_info_hash pending of
                 None \<Rightarrow> Some s
               | Some h \<Rightarrow>
                   (let s = fold (cache_peer ev c h) peers s;
                        s = (if has_peers \<or> pr_is_real_lookup pending
                             then publish_discovery ev h peers OutboundGetPeers s else s)
                    in continue_get_peers ev c h nodes pending s));
          Some (case pr_lookup_id pending of None \<Rightarrow> s
                | Some i \<Rightarrow> on_lookups (lookup_respond i has_peers) s)
        }))"

definition accept_samples ::
  "crawler_env \<Rightarrow> clock \<Rightarrow> krpc_message \<Rightarrow> socket_addr_v4 \<Rightarrow> crawler \<Rightarrow> crawler option" where
  "accept_samples ev c message source s =
     (case parse_sample_infohashes_response c message (dc_max_samples_per_response (cw_config s)) of
        Inl e \<Rightarrow> Some (emit_stat RpcMalformed s)
      | Inr response \<Rightarrow>
          (let interval = max (sr_interval response) (dc_sampling_min_remote_interval (cw_config s));
               s = s\<lparr>cw_sample_eligible_at :=
                       AList.update (sr_node_id response) (ck_now c + interval) (cw_sample_eligible_at s)\<rparr>
           in do {
             s \<leftarrow> admit_candidates (sr_nodes response) s;
             (let s = fold (\<lambda>h s. emit_stat
                        (SampleObserved h (sr_node_id response) source (cw_sampling_round_id s))
                        (publish_discovery ev h [] SampleInfohashes s)) (sr_samples response) s
              in Some (emit_stat (SamplingResponse (length (sr_samples response))) s))
           }))"

definition accept_response ::
  "crawler_env \<Rightarrow> clock \<Rightarrow> krpc_message \<Rightarrow> socket_addr_v4 \<Rightarrow> pending_rpc \<Rightarrow> node_id \<Rightarrow> crawler \<Rightarrow>
   crawler option" where
  "accept_response ev c message source pending response_id s = do {
     (_, t) \<leftarrow> mark_validated c response_id source (cw_routing s);
     (let s = s\<lparr>cw_routing := t, cw_provisional := AList.delete source (cw_provisional s)\<rparr>;
          s = emit_stat (DhtNodeSeen response_id source) s;
          s = emit_stat RpcAnswered s
      in case pr_method pending of
           Ping \<Rightarrow> Some s
         | FindNode \<Rightarrow>
             (let nodes = response_nodes c message in do {
                s \<leftarrow> admit_candidates nodes s;
                continue_find_node ev c nodes pending s
              })
         | GetPeers \<Rightarrow> accept_get_peers ev c message pending s
         | SampleHashes \<Rightarrow> accept_samples ev c message source s)
   }"

definition handle_response ::
  "crawler_env \<Rightarrow> clock \<Rightarrow> krpc_message \<Rightarrow> socket_addr_v4 \<Rightarrow> crawler \<Rightarrow> crawler option" where
  "handle_response ev c message source s =
     (let transaction = transaction_id message;
          lookup_id = Option.bind (map_of (cw_pending_rpcs s) transaction) pr_lookup_id
      in case correlate_response (cw_pending_rpcs s) message source of
        (pending_rpcs, r) \<Rightarrow>
          (let s = s\<lparr>cw_pending_rpcs := pending_rpcs\<rparr>
           in case r of
             Inl Unsolicited \<Rightarrow> Some (emit_stat RpcUnsolicited s)
           | Inl UnexpectedSource \<Rightarrow> Some (emit_stat RpcUnexpectedSource s)
           | Inl Malformed \<Rightarrow>
               (let s = emit_stat RpcMalformed (retire c transaction s)
                in Some (case lookup_id of None \<Rightarrow> s | Some i \<Rightarrow> on_lookups (lookup_failure i) s))
           | Inr (pending, response_id) \<Rightarrow>
               accept_response ev c message source pending response_id (retire c transaction s)))"

definition handle_error :: "clock \<Rightarrow> krpc_message \<Rightarrow> socket_addr_v4 \<Rightarrow> crawler \<Rightarrow> crawler option" where
  "handle_error c message source s =
     (let transaction = transaction_id message in
      case map_of (cw_pending_rpcs s) transaction of
        None \<Rightarrow> Some (emit_stat RpcUnsolicited s)
      | Some pending \<Rightarrow>
          if pr_expected_addr pending \<noteq> source then Some (emit_stat RpcUnexpectedSource s)
          else do {
            s \<leftarrow> fail_contact c (pr_expected_node_id pending) (retire c transaction
                   (s\<lparr>cw_pending_rpcs := AList.delete transaction (cw_pending_rpcs s)\<rparr>));
            (let s = (case pr_lookup_id pending of None \<Rightarrow> s
                      | Some i \<Rightarrow> on_lookups (lookup_failure i) s)
             in Some (emit_stat RpcAnswered s))
          })"

definition handle_packet ::
  "crawler_env \<Rightarrow> clock \<Rightarrow> bytes \<Rightarrow> socket_addr_v4 \<Rightarrow> crawler \<Rightarrow> crawler option" where
  "handle_packet ev c data source s =
     (case krpc_from_bytes (ev_dec ev) data of
        Inl e \<Rightarrow> Some (emit_stat RpcMalformed s)
      | Inr message \<Rightarrow>
          (case message of
             Query t y q a extra \<Rightarrow> handle_query ev c message source s
           | Response t y r extra \<Rightarrow> handle_response ev c message source s
           | Error t y e extra \<Rightarrow> handle_error c message source s))"

subsection \<open>The ticks\<close>

definition lookup_nodes :: "info_hash \<Rightarrow> crawler \<Rightarrow> node_contact list" where
  "lookup_nodes h s =
     (let nodes = closest_nodes (cw_routing s) h LOOKUP_FANOUT
      in if length nodes < LOOKUP_FANOUT
         then nodes @ closest_candidates (cw_routing s) h (LOOKUP_FANOUT - length nodes)
         else nodes)"

definition start_lookup ::
  "crawler_env \<Rightarrow> clock \<Rightarrow> info_hash \<Rightarrow> bool \<Rightarrow> node_contact list \<Rightarrow> crawler \<Rightarrow> crawler option" where
  "start_lookup ev c h real nodes s =
     (case (if real then map_prod Some (\<lambda>t. s\<lparr>cw_lookups := t\<rparr>) (lookup_begin (cw_lookups s))
            else (None, s)) of
        (lookup_id, s) \<Rightarrow> do {
          s \<leftarrow> fold_opt (\<lambda>node s. map_option snd
                 (send_rpc ev c (nc_addr node) (Some (nc_id node)) GetPeers h (Some h) real 2 lookup_id s))
               nodes s;
          Some (case lookup_id of None \<Rightarrow> s | Some i \<Rightarrow> on_lookups (lookup_started i) s)
        })"

definition next_hash :: "crawler_env \<Rightarrow> crawler \<Rightarrow> (info_hash \<times> bool) \<times> crawler" where
  "next_hash ev s =
     (case cw_discovery_queue s of
        h # queue \<Rightarrow> ((h, True), s\<lparr>cw_discovery_queue := queue,
                                 cw_discovery_set := cw_discovery_set s - {h}\<rparr>)
      | [] \<Rightarrow> ((ev_random_id ev (cw_out s), False), s))"

definition look_up :: "crawler_env \<Rightarrow> clock \<Rightarrow> info_hash \<Rightarrow> bool \<Rightarrow> crawler \<Rightarrow> crawler option" where
  "look_up ev c h real s =
     (let s = on_metrics (set_discovery_queue_depth (length (cw_discovery_queue s))) s;
          nodes = lookup_nodes h s
      in if nodes = [] then bootstrap ev c (if real then snd (queue_hash h s) else s)
         else start_lookup ev c h real nodes s)"

definition discover_peers :: "crawler_env \<Rightarrow> clock \<Rightarrow> crawler \<Rightarrow> crawler option" where
  "discover_peers ev c s = do {
     s \<leftarrow> expire_pending c s;
     (case next_hash ev s of ((h, real), s) \<Rightarrow> look_up ev c h real s)
   }"

definition sample_one ::
  "crawler_env \<Rightarrow> clock \<Rightarrow> node_contact \<Rightarrow> crawler \<Rightarrow> crawler option" where
  "sample_one ev c node s =
     (let s = s\<lparr>cw_sample_eligible_at := AList.update (nc_id node)
                  (ck_now c + dc_sampling_min_remote_interval (cw_config s)) (cw_sample_eligible_at s)\<rparr>
      in map_option snd (send_rpc ev c (nc_addr node) (Some (nc_id node)) SampleHashes
           (ev_random_id ev (cw_out s)) None False 0 None s))"

definition sample_random_nodes :: "crawler_env \<Rightarrow> clock \<Rightarrow> crawler \<Rightarrow> crawler option" where
  "sample_random_nodes ev c s =
     (let s = s\<lparr>cw_sampling_round_id := cw_sampling_round_id s + 1\<rparr>;
          n = dc_sampling_requests_per_tick (cw_config s);
          nodes = take n (filter (\<lambda>node.
              case map_of (cw_sample_eligible_at s) (nc_id node) of
                None \<Rightarrow> True | Some eligible \<Rightarrow> eligible \<le> ck_now c)
            (random_nodes (ev_pick ev) (cw_routing s) (n * 4)))
      in fold_opt (sample_one ev c) nodes s)"

subsection \<open>The event loop\<close>

text \<open>One branch of \<open>select!\<close>, with the datagram cut to the buffer by the socket.\<close>

datatype crawler_event =
  Received clock bytes socket_addr_v4
| DiscoveryTick clock
| SamplingTick clock
| RefreshTick clock
| StatsTick

fun crawler_step :: "crawler_env \<Rightarrow> crawler_event \<Rightarrow> crawler \<Rightarrow> crawler option" where
  "crawler_step ev (Received c data source) s =
     (if 0 < length data then handle_packet ev c (take MAX_PACKET_SIZE data) source s else Some s)"
| "crawler_step ev (DiscoveryTick c) s = discover_peers ev c s"
| "crawler_step ev (SamplingTick c) s =
     (if dc_sampling_enabled (cw_config s) then sample_random_nodes ev c s else Some s)"
| "crawler_step ev (RefreshTick c) s = map_option (expire_peer_cache c) (expire_pending c s)"
| "crawler_step ev StatsTick s =
     Some (emit_stat (DhtSnapshot (node_count (cw_routing s)) (cw_queries_sent s) (cw_info_hashes_found s)) s)"

definition crawler_run :: "crawler_env \<Rightarrow> clock \<Rightarrow> crawler_event list \<Rightarrow> crawler \<Rightarrow> crawler option" where
  "crawler_run ev c events s = do {
     s \<leftarrow> bootstrap ev c s;
     fold_opt (crawler_step ev) events s
   }"

text \<open>A life of the crawler: made by \<open>with_config\<close>, seeded with what the last one knew, and run.\<close>

definition crawler_life ::
  "crawler_env \<Rightarrow> clock \<Rightarrow> info_hash list \<Rightarrow> node_contact list \<Rightarrow> crawler_event list \<Rightarrow> crawler \<Rightarrow> crawler option" where
  "crawler_life ev c hashes seeds events s = do {
     s \<leftarrow> seed_crawler ev c hashes seeds s;
     crawler_run ev c events s
   }"

end
