(* ===== verification/Crawler_Invariant.thy ===== *)
theory Crawler_Invariant
  imports Dht_Crawler
begin

text \<open>
  What every step of the crawler keeps (\<open>crawler_inv\<close>): the routing table's invariant, a
  bounded lookup queue without repetitions that agrees with its set, a bounded table of
  outstanding queries whose transactions are not among the retired ones, bounded caches, and
  the accounts of the lookups in progress.  No step panics.
\<close>

subsection \<open>The surroundings\<close>

text \<open>
  The bencode library serializes every message, a random choice picks among what it is
  offered, and the first key of a nonempty \<open>HashMap\<close> is one of its keys.
\<close>

definition env_ok :: "crawler_env \<Rightarrow> bool" where
  "env_ok ev \<longleftrightarrow> (\<forall>v. ev_enc ev v \<noteq> None) \<and> (\<forall>n xs. set (ev_pick ev n xs) \<subseteq> set xs) \<and>
     (\<forall>ks. ks \<noteq> [] \<longrightarrow> ev_any_key ev ks \<in> set ks)"

lemma env_okD:
  assumes "env_ok ev"
  shows "ev_enc ev v \<noteq> None" "set (ev_pick ev n xs) \<subseteq> set xs" "ks \<noteq> [] \<Longrightarrow> ev_any_key ev ks \<in> set ks"
  using assms by (simp_all add: env_ok_def)

subsection \<open>Association lists\<close>

lemma set_update: "distinct (keys m) \<Longrightarrow> set (AList.update k v m) = insert (k, v) {p \<in> set m. fst p \<noteq> k}"
  by (induction m) force+

lemma set_update_subset: "set (AList.update k v m) \<subseteq> insert (k, v) (set m)"
  by (induction m) auto

lemma distinct_delete: "distinct (keys m) \<Longrightarrow> distinct (keys (AList.delete k m))"
  by (simp add: AList.delete_eq distinct_keys_filter)

lemma keys_delete: "set (keys (AList.delete k m)) = set (keys m) - {k}"
  by (auto simp: AList.delete_eq)

lemma keys_update: "set (keys (AList.update k v m)) = insert k (set (keys m))"
  by (induction m) auto

lemma map_of_key: "map_of m k = Some v \<Longrightarrow> k \<in> set (keys m)"
  by (metis map_of_None_iff option.distinct(1))

lemma fold_opt_map: "fold_opt f (map g xs) = fold_opt (\<lambda>x. f (g x)) xs"
proof (induction xs)
  case (Cons x xs)
  show ?case by (rule ext) (simp add: Cons)
qed (rule ext, simp)

subsection \<open>The parts of the invariant\<close>

definition queue_ok :: "dht_config \<Rightarrow> info_hash list \<Rightarrow> info_hash set \<Rightarrow> bool" where
  "queue_ok cf q S \<longleftrightarrow> distinct q \<and> set q = S \<and> length q \<le> dc_max_discovery_hashes cf \<and> zero_hash \<notin> S"

definition rpc_ok :: "pending_rpc \<Rightarrow> bool" where
  "rpc_ok p \<longleftrightarrow> (\<forall>i. pr_expected_node_id p = Some i \<longrightarrow> valid_id i) \<and>
     (pr_is_real_lookup p \<longleftrightarrow> pr_lookup_id p \<noteq> None) \<and>
     (pr_lookup_id p \<noteq> None \<longrightarrow> pr_method p = GetPeers \<and> pr_info_hash p \<noteq> None)"

definition rpcs_ok :: "dht_config \<Rightarrow> pending_table \<Rightarrow> (bytes \<times> instant) list \<Rightarrow> bool" where
  "rpcs_ok cf P R \<longleftrightarrow> distinct (keys P) \<and> distinct (keys R) \<and> set (keys P) \<inter> set (keys R) = {} \<and>
     length P \<le> dc_max_pending_rpcs cf \<and> (\<forall>(k, p)\<in>set P. k \<in> range transaction_id_bytes \<and> rpc_ok p)"

definition cache_ok :: "dht_config \<Rightarrow> (info_hash \<times> cached_peer list) list \<Rightarrow> bool" where
  "cache_ok cf C \<longleftrightarrow> distinct (keys C) \<and> length C \<le> dc_announced_peer_hash_capacity cf \<and>
     (\<forall>(h, ps)\<in>set C. ps \<noteq> [] \<and> length ps \<le> dc_announced_peers_per_hash cf \<and> distinct (map cp_peer ps))"

definition prov_ok :: "dht_config \<Rightarrow> (socket_addr_v4 \<times> (node_id \<times> instant)) list \<Rightarrow> bool" where
  "prov_ok cf V \<longleftrightarrow> distinct (keys V) \<and> length V \<le> max 1 (dc_max_candidate_nodes cf)"

text \<open>
  \<open>x\<close> is a lookup whose answer is being handled: its query is no longer pending, but still
  counted as outstanding.  \<open>f\<close> is a lookup that is being started: it may have no query yet,
  and it is not yet counted as initiated.
\<close>

definition inflight :: "pending_table \<Rightarrow> u64 \<Rightarrow> nat" where
  "inflight P i = length (filter (\<lambda>(k, p). pr_lookup_id p = Some i) P)"

definition progress_ok ::
  "u64 option \<Rightarrow> u64 option \<Rightarrow> real_lookup_progress option \<Rightarrow> nat \<Rightarrow> u64 \<Rightarrow> bool" where
  "progress_ok x f pgo pending i \<longleftrightarrow> (case pgo of
        None \<Rightarrow> pending = 0 \<and> x \<noteq> Some i \<and> f \<noteq> Some i
      | Some pg \<Rightarrow> rp_outstanding pg = pending + of_bool (x = Some i) \<and>
          (f \<noteq> Some i \<longrightarrow> 0 < rp_outstanding pg))"

definition lookups_ok ::
  "u64 option \<Rightarrow> u64 option \<Rightarrow> real_lookup_tracker \<Rightarrow> pending_table \<Rightarrow> bool" where
  "lookups_ok x f t P \<longleftrightarrow> distinct (keys (lt_active t)) \<and> (\<forall>i\<in>set (keys (lt_active t)). i < lt_next_id t) \<and>
     (\<forall>i. progress_ok x f (map_of (lt_active t) i) (inflight P i) i)"

definition balanced :: "u64 option \<Rightarrow> real_lookup_tracker \<Rightarrow> crawler_metrics \<Rightarrow> bool" where
  "balanced f t m \<longleftrightarrow> load C_real_lookups_initiated m + of_bool (f \<noteq> None) =
     load C_real_lookups_succeeded m + load C_real_lookups_failed m + of_nat (length (lt_active t))"

definition core ::
  "dht_config \<Rightarrow> node_id \<Rightarrow> u64 \<Rightarrow> u64 option \<Rightarrow> u64 option \<Rightarrow> crawler \<Rightarrow> bool" where
  "core cf our n x f s \<longleftrightarrow> cw_config s = cf \<and> cw_our_id s = our \<and> lt_next_id (cw_lookups s) = n \<and>
     run_inv_of our (dc_max_candidate_nodes cf) (cw_routing s) \<and>
     queue_ok cf (cw_discovery_queue s) (cw_discovery_set s) \<and>
     rpcs_ok cf (cw_pending_rpcs s) (cw_retired s) \<and> cache_ok cf (cw_peer_cache s) \<and>
     prov_ok cf (cw_provisional s) \<and> lookups_ok x f (cw_lookups s) (cw_pending_rpcs s) \<and>
     balanced f (cw_lookups s) (cw_metrics s)"

definition crawler_inv :: "crawler \<Rightarrow> bool" where
  "crawler_inv s \<longleftrightarrow> core (cw_config s) (cw_our_id s) (lt_next_id (cw_lookups s)) None None s"

subsection \<open>Steps that only report\<close>

definition same_lookup_counts :: "crawler_metrics \<Rightarrow> crawler_metrics \<Rightarrow> bool" where
  "same_lookup_counts m m' \<longleftrightarrow>
     (\<forall>k\<in>{C_real_lookups_initiated, C_real_lookups_succeeded, C_real_lookups_failed}. load k m' = load k m)"

lemma same_counts_metrics_apply [simp]: "same_lookup_counts m (metrics_apply e m)"
  by (cases e) (simp_all add: same_lookup_counts_def Let_def)

lemma same_counts_ops [simp]:
  "same_lookup_counts m (record_real_lookup_rpc_unsent m)"
  "same_lookup_counts m (record_get_peers_response b m)"
  "same_lookup_counts m (set_discovery_queue_depth d m)"
  "same_lookup_counts m (record_lookup_queue_duplicate m)"
  "same_lookup_counts m (record_lookup_queue_capacity_rejected m)"
  "same_lookup_counts m (record_lookup_queue_accepted (set_discovery_queue_depth d m))"
  by (simp_all add: same_lookup_counts_def record_real_lookup_rpc_unsent_def
      record_get_peers_response_def set_discovery_queue_depth_def record_lookup_queue_duplicate_def
      record_lookup_queue_capacity_rejected_def record_lookup_queue_accepted_def)

lemma balanced_same: "same_lookup_counts m m' \<Longrightarrow> balanced f t m' = balanced f t m"
  by (simp add: balanced_def same_lookup_counts_def)

lemma core_on_metrics:
  "(\<And>m. same_lookup_counts m (g m)) \<Longrightarrow> core cf our n x f (on_metrics g s) = core cf our n x f s"
  using balanced_same [of "cw_metrics s" "g (cw_metrics s)"] by (simp add: core_def on_metrics_def)

lemma core_metrics [simp]:
  "core cf our n x f (on_metrics (metrics_apply e) s) = core cf our n x f s"
  "core cf our n x f (on_metrics record_real_lookup_rpc_unsent s) = core cf our n x f s"
  "core cf our n x f (on_metrics (record_get_peers_response b) s) = core cf our n x f s"
  "core cf our n x f (on_metrics (set_discovery_queue_depth d) s) = core cf our n x f s"
  "core cf our n x f (on_metrics record_lookup_queue_duplicate s) = core cf our n x f s"
  "core cf our n x f (on_metrics record_lookup_queue_capacity_rejected s) = core cf our n x f s"
  "core cf our n x f (on_metrics (\<lambda>m. record_lookup_queue_accepted (set_discovery_queue_depth d m)) s) =
     core cf our n x f s"
  by (rule core_on_metrics, simp)+

lemma core_out [simp]:
  "core cf our n x f (put_out e s) = core cf our n x f s"
  "core cf our n x f (emit_stat st s) = core cf our n x f s"
  "core cf our n x f (unsent l s) = core cf our n x f s"
proof -
  show p: "core cf our n x f (put_out e s) = core cf our n x f s" for e s
    by (simp add: core_def put_out_def)
  show "core cf our n x f (emit_stat st s) = core cf our n x f s"
    by (simp add: emit_stat_def p)
  show "core cf our n x f (unsent l s) = core cf our n x f s"
    by (simp add: unsent_def)
qed


subsection \<open>Discoveries and caches\<close>

lemma core_queue_hash [inv_intros]:
  assumes "core cf our n x f s"
  shows "core cf our n x f (snd (queue_hash h s))"
proof -
  have q: "queue_ok cf (cw_discovery_queue s) (cw_discovery_set s)" and c: "cw_config s = cf"
    using assms by (simp_all add: core_def)
  let ?s = "s\<lparr>cw_discovery_queue := cw_discovery_queue s @ [h], cw_discovery_set := insert h (cw_discovery_set s)\<rparr>"
  have "core cf our n x f ?s"
    if "h \<noteq> zero_hash" "h \<notin> cw_discovery_set s" "length (cw_discovery_queue s) < dc_max_discovery_hashes cf"
    using assms that by (auto simp: core_def queue_ok_def)
  then show ?thesis using assms c by (simp add: queue_hash_def Let_def)
qed

lemma core_publish [inv_intros]:
  assumes "core cf our n x f s"
  shows "core cf our n x f (publish_discovery ev h peers source s)"
proof -
  have "core cf our n x f (s\<lparr>cw_info_hashes_found := k\<rparr>)" for k
    using assms by (simp add: core_def)
  then show ?thesis using assms
    by (cases "record_hash_observation (cw_info_hashes_found s) h")
      (simp add: publish_discovery_def enqueue_discovery_def Let_def core_queue_hash split: bool.split)
qed

lemma cache_ok_update:
  assumes "cache_ok cf C" and any: "C \<noteq> [] \<Longrightarrow> k \<in> set (keys C)"
    and cap: "0 < dc_announced_peer_hash_capacity cf"
    and ps: "ps \<noteq> []" "length ps \<le> dc_announced_peers_per_hash cf" "distinct (map cp_peer ps)"
  shows "cache_ok cf (AList.update h ps (if map_of C h = None \<and> dc_announced_peer_hash_capacity cf \<le> length C
    then (if C = [] then C else AList.delete k C) else C))" (is "cache_ok cf (AList.update h ps ?C)")
proof -
  have sub: "set ?C \<subseteq> set C" by (auto simp: AList.delete_eq)
  have d: "distinct (keys ?C)" using assms(1) by (auto simp: cache_ok_def AList.delete_eq distinct_keys_filter)
  have l: "length (AList.update h ps ?C) \<le> dc_announced_peer_hash_capacity cf"
  proof (cases "map_of C h = None \<and> dc_announced_peer_hash_capacity cf \<le> length C")
    case True
    then have ne: "C \<noteq> []" using cap by auto
    have "length (AList.delete k C) < length C" by (rule length_delete_less) (rule any [OF ne])
    then show ?thesis using True ne assms(1) by (simp add: length_update cache_ok_def)
  next
    case False
    then show ?thesis using assms(1) by (auto simp: length_update cache_ok_def map_of_eq_None_iff)
  qed
  have "\<forall>(h, ps)\<in>set (AList.update h ps ?C). ps \<noteq> [] \<and> length ps \<le> dc_announced_peers_per_hash cf \<and> distinct (map cp_peer ps)"
    using sub assms(1) ps set_update_subset by (fastforce simp: cache_ok_def)
  then show ?thesis using d l by (simp add: cache_ok_def distinct_update)
qed


lemma cache_ok_peer:
  assumes C: "cache_ok cf (cw_peer_cache s)" and cfg: "cw_config s = cf" and ev: "env_ok ev"
  shows "cache_ok cf (cw_peer_cache (cache_peer ev c h peer s))"
proof (cases "dc_announced_peer_hash_capacity cf = 0 \<or> dc_announced_peers_per_hash cf = 0")
  case True
  then show ?thesis using C cfg by (simp add: cache_peer_def)
next
  case False
  let ?C = "cw_peer_cache s" and ?k = "ev_any_key ev (keys (cw_peer_cache s))"
  define D where "D = (if map_of ?C h = None \<and> dc_announced_peer_hash_capacity cf \<le> length ?C
    then (if ?C = [] then ?C else AList.delete ?k ?C) else ?C)"
  define ps0 where "ps0 = filter (\<lambda>cached. cp_peer cached \<noteq> peer) (case map_of D h of None \<Rightarrow> [] | Some peers \<Rightarrow> peers)"
  define ps1 where "ps1 = (if dc_announced_peers_per_hash cf \<le> length ps0 then tl ps0 else ps0)"
  define ps where "ps = ps1 @ [\<lparr>cp_peer = peer, cp_expires_at = ck_now c + dc_announced_peer_ttl cf\<rparr>]"
  have old: "ps' = [] \<or> length ps' \<le> dc_announced_peers_per_hash cf \<and> distinct (map cp_peer ps')"
    if "(case map_of D h of None \<Rightarrow> [] | Some peers \<Rightarrow> peers) = ps'" for ps'
  proof (cases "map_of D h")
    case (Some qs)
    then have "(h, qs) \<in> set D" by (rule map_of_SomeD)
    then have "(h, qs) \<in> set ?C" by (auto simp: D_def AList.delete_eq split: if_splits)
    then show ?thesis using C that Some by (auto simp: cache_ok_def)
  qed (use that in simp)
  have ps0: "length ps0 \<le> dc_announced_peers_per_hash cf" "distinct (map cp_peer ps0)" "peer \<notin> set (map cp_peer ps0)"
  proof -
    let ?qs = "case map_of D h of None \<Rightarrow> [] | Some peers \<Rightarrow> peers"
    have "length ?qs \<le> dc_announced_peers_per_hash cf" "distinct (map cp_peer ?qs)" using old [OF refl] by auto
    then show "length ps0 \<le> dc_announced_peers_per_hash cf" "distinct (map cp_peer ps0)"
      by (auto simp: ps0_def intro: le_trans [OF length_filter_le] distinct_map_filter)
    show "peer \<notin> set (map cp_peer ps0)" by (auto simp: ps0_def)
  qed
  have ps1: "length ps1 < dc_announced_peers_per_hash cf" "distinct (map cp_peer ps1)" "peer \<notin> set (map cp_peer ps1)"
  proof -
    show "length ps1 < dc_announced_peers_per_hash cf" using ps0(1) False by (auto simp: ps1_def)
    show "distinct (map cp_peer ps1)" using ps0(2) by (simp add: ps1_def map_tl distinct_tl)
    show "peer \<notin> set (map cp_peer ps1)" using ps0(3) set_tl_subset [of ps0] by (auto simp: ps1_def)
  qed
  have "cache_ok cf (AList.update h ps D)"
    unfolding D_def
  proof (rule cache_ok_update [OF C])
    show "?k \<in> set (keys ?C)" if "?C \<noteq> []" by (rule env_okD(3) [OF ev]) (use that in simp)
  qed (use False ps1 in \<open>auto simp: ps_def\<close>)
  moreover have "cache_peer ev c h peer s = s\<lparr>cw_peer_cache := AList.update h ps D\<rparr>"
    unfolding cache_peer_def Let_def cfg
    by (simp only: if_not_P [OF False] D_def [symmetric] ps0_def [symmetric] ps1_def [symmetric] ps_def [symmetric])
  ultimately show ?thesis by simp
qed

lemma core_cache_peer [inv_intros]:
  assumes s: "core cf our n x f s" and ev: "env_ok ev"
  shows "core cf our n x f (cache_peer ev c h peer s)"
proof -
  have "cache_ok cf (cw_peer_cache (cache_peer ev c h peer s))"
    by (rule cache_ok_peer [OF _ _ ev]) (use s in \<open>simp_all add: core_def\<close>)
  moreover obtain C where "cache_peer ev c h peer s = s\<lparr>cw_peer_cache := C\<rparr>"
  proof (cases "dc_announced_peer_hash_capacity (cw_config s) = 0 \<or> dc_announced_peers_per_hash (cw_config s) = 0")
    case True
    have "cache_peer ev c h peer s = s\<lparr>cw_peer_cache := cw_peer_cache s\<rparr>"
      unfolding cache_peer_def Let_def if_P [OF True] by simp
    then show ?thesis by (rule that)
  next
    case False
    show ?thesis by (rule that) (unfold cache_peer_def Let_def if_not_P [OF False], rule refl)
  qed
  ultimately show ?thesis using s by (simp add: core_def)
qed

lemma cache_ok_expire:
  assumes C: "cache_ok cf (cw_peer_cache s)"
  shows "cache_ok cf (cw_peer_cache (expire_peer_cache c s))"
proof -
  let ?C = "cw_peer_cache s"
  let ?g = "\<lambda>(h, peers). (h, filter (\<lambda>p. ck_now c < cp_expires_at p) peers)"
  have k: "keys (map ?g m) = keys m" for m :: "(info_hash \<times> cached_peer list) list"
    by (induction m) auto
  have "cache_ok cf (filter (\<lambda>(h, peers). peers \<noteq> []) (map ?g ?C))"
    unfolding cache_ok_def
  proof (intro conjI)
    show "distinct (keys (filter (\<lambda>(h, peers). peers \<noteq> []) (map ?g ?C)))"
      by (rule distinct_keys_filter, subst k) (use C in \<open>simp add: cache_ok_def\<close>)
    have "length (filter (\<lambda>(h, peers). peers \<noteq> []) (map ?g ?C)) \<le> length ?C"
      using length_filter_le [of _ "map ?g ?C"] by simp
    also have "\<dots> \<le> dc_announced_peer_hash_capacity cf" using C by (simp add: cache_ok_def)
    finally show "length (filter (\<lambda>(h, peers). peers \<noteq> []) (map ?g ?C)) \<le> dc_announced_peer_hash_capacity cf" .
    show "\<forall>(h, ps)\<in>set (filter (\<lambda>(h, peers). peers \<noteq> []) (map ?g ?C)).
        ps \<noteq> [] \<and> length ps \<le> dc_announced_peers_per_hash cf \<and> distinct (map cp_peer ps)"
      using C by (auto simp: cache_ok_def intro: le_trans [OF length_filter_le] distinct_map_filter)
  qed
  then show ?thesis by (simp add: expire_peer_cache_def)
qed

lemma core_expire_cache [inv_intros]:
  assumes s: "core cf our n x f s"
  shows "core cf our n x f (expire_peer_cache c s)"
proof -
  have "cache_ok cf (cw_peer_cache (expire_peer_cache c s))"
    by (rule cache_ok_expire) (use s in \<open>simp add: core_def\<close>)
  then show ?thesis using s by (simp add: core_def expire_peer_cache_def)
qed

lemma prov_ok_delete: "prov_ok cf V \<Longrightarrow> prov_ok cf (AList.delete a V)"
  using length_delete_le [of a V] by (auto simp: prov_ok_def distinct_delete)

lemma oldest_key: "V \<noteq> [] \<Longrightarrow> \<exists>a. oldest V = Some a \<and> a \<in> set (keys V)"
proof -
  have "foldl (\<lambda>a b. if snd (snd b) < snd (snd a) then b else a) p ps \<in> set (p # ps)"
    for p and ps :: "(socket_addr_v4 \<times> (node_id \<times> instant)) list"
    by (induction ps arbitrary: p) auto
  then show "V \<noteq> [] \<Longrightarrow> ?thesis" by (cases V) force+
qed

lemma core_remember [inv_intros]:
  assumes s: "core cf our n x f s"
  shows "core cf our n x f (remember_provisional c source i s)"
proof -
  let ?V = "cw_provisional s"
  define W where "W = (if dc_max_candidate_nodes cf \<le> length ?V
    then (case oldest ?V of None \<Rightarrow> ?V | Some addr \<Rightarrow> AList.delete addr ?V) else ?V)"
  have V: "prov_ok cf ?V" and cfg: "cw_config s = cf" using s by (simp_all add: core_def)
  have "distinct (keys W)" using V by (auto simp: W_def prov_ok_def distinct_delete split: option.split)
  moreover have "Suc (length W) \<le> max 1 (dc_max_candidate_nodes cf)"
  proof (cases "?V = []")
    case True
    then show ?thesis by (simp add: W_def)
  next
    case False
    then obtain a where "oldest ?V = Some a" "a \<in> set (keys ?V)" using oldest_key by blast
    then show ?thesis using V length_delete_less [of a ?V] by (auto simp: W_def prov_ok_def)
  qed
  ultimately have "prov_ok cf (AList.update source (i, ck_now c) W)"
    by (auto simp: prov_ok_def distinct_update length_update)
  moreover have "remember_provisional c source i s = s\<lparr>cw_provisional := AList.update source (i, ck_now c) W\<rparr>"
    by (simp add: remember_provisional_def W_def cfg Let_def)
  ultimately show ?thesis using s by (simp add: core_def)
qed


subsection \<open>The routing table\<close>

lemma core_routing:
  assumes "core cf our n x f s" "run_inv_of our (dc_max_candidate_nodes cf) t"
  shows "core cf our n x f (s\<lparr>cw_routing := t\<rparr>)"
  using assms by (simp add: core_def)

lemma core_admit [inv_intros]:
  assumes s: "core cf our n x f s" and v: "\<forall>y\<in>set nodes. valid_id (nc_id y)"
  shows "ensures (admit_candidates nodes s) (core cf our n x f)"
proof -
  let ?xs = "take (dc_max_candidate_nodes (cw_config s)) nodes"
  have r: "run_inv_of our (dc_max_candidate_nodes cf) (cw_routing s)" using s by (simp add: core_def)
  have "ensures (fold_opt routing_step (map OpCandidate ?xs) (cw_routing s)) (run_inv_of our (dc_max_candidate_nodes cf))"
    by (rule rtm.run_inv [OF r]) (use v in \<open>auto simp: list_all_iff dest: in_set_takeD\<close>)
  then obtain t where t: "fold_opt routing_step (map OpCandidate ?xs) (cw_routing s) = Some t"
      "run_inv_of our (dc_max_candidate_nodes cf) t"
    by (auto simp: ensures_iff)
  have "(\<lambda>x. routing_step (OpCandidate x)) = (\<lambda>node t. map_option snd (add_candidate node t))"
    by (intro ext) simp
  then have "admit_candidates nodes s = Some (s\<lparr>cw_routing := t\<rparr>)"
    using t(1) by (simp only: admit_candidates_def fold_opt_map) simp
  then show ?thesis using core_routing [OF s t(2)] by simp
qed

lemma core_fail_contact:
  assumes "core cf our n x f s" "\<forall>i. e = Some i \<longrightarrow> valid_id i"
  shows "ensures (fail_contact c e s) (\<lambda>s'. core cf our n x f s' \<and> (\<exists>t. s' = s\<lparr>cw_routing := t\<rparr>))"
proof (cases e)
  case None
  then show ?thesis using assms by (auto simp: fail_contact_def intro: exI [of _ "cw_routing s"])
next
  case (Some i)
  have "ensures (routing_step (OpFailure c i) (cw_routing s)) (run_inv_of our (dc_max_candidate_nodes cf))"
    by (rule rtm.step_inv) (use assms Some in \<open>simp_all add: core_def\<close>)
  then show ?thesis using assms(1) Some core_routing by (auto simp: fail_contact_def ensures_iff)
qed

lemma core_live:
  assumes "core cf our n x f s"
  shows "y \<in> set (live_contacts (cw_routing s)) \<Longrightarrow> valid_id (nc_id y)"
    and "y \<in> set (candidates (cw_routing s)) \<Longrightarrow> valid_id (nc_id y)"
proof -
  have t: "rt_core (cw_routing s)" using assms by (simp add: core_def run_inv_of_def rt_inv_core)
  show "valid_id (nc_id y)" if "y \<in> set (live_contacts (cw_routing s))"
    using that rt_core_node [OF t] by (fastforce simp: live_contacts_def)
  show "valid_id (nc_id y)" if "y \<in> set (candidates (cw_routing s))"
    using that t by (auto simp: candidates_def rt_core_def bucket_ok_def replacements_ok_def)
qed

lemma lookup_nodes_valid:
  assumes "core cf our n x f s" "y \<in> set (lookup_nodes h s)"
  shows "valid_id (nc_id y)"
  using assms(2) core_live [OF assms(1)] closest_set
  by (fastforce simp: lookup_nodes_def closest_nodes_def closest_candidates_def Let_def split: if_splits)

subsection \<open>Sending a query\<close>

lemma alloc_loop_Some: "alloc_loop k tx used = (Some i, j) \<Longrightarrow> \<not> used i \<and> j = i + 1"
  by (induction k tx used rule: alloc_loop.induct) (subst (asm) (2) alloc_loop.simps, auto split: if_splits)

lemma allocate_core:
  assumes s: "core cf our n x f s" and a: "allocate_transaction s = (r, s')"
  shows "core cf our n x f s'" "cw_pending_rpcs s' = cw_pending_rpcs s" "cw_lookups s' = cw_lookups s"
    "cw_our_id s' = our" "cw_retired s' = cw_retired s"
    "r = Some i \<Longrightarrow> \<not> tx_used s i \<and> length (cw_pending_rpcs s) < dc_max_pending_rpcs cf"
proof -
  obtain r' j where l: "alloc_loop 65536 (cw_next_tx s) (tx_used s) = (r', j)" by fastforce
  have cfg: "cw_config s = cf" using s by (simp add: core_def)
  have "core cf our n x f (s\<lparr>cw_next_tx := j\<rparr>)" using s by (simp add: core_def)
  then show "core cf our n x f s'" "cw_pending_rpcs s' = cw_pending_rpcs s" "cw_lookups s' = cw_lookups s"
    "cw_our_id s' = our" "cw_retired s' = cw_retired s"
    "r = Some i \<Longrightarrow> \<not> tx_used s i \<and> length (cw_pending_rpcs s) < dc_max_pending_rpcs cf"
    using a s l alloc_loop_Some [of 65536 "cw_next_tx s" "tx_used s"] cfg
    by (auto simp: allocate_transaction_def core_def split: if_splits)
qed


subsection \<open>The accounts of the lookups\<close>

lemma inflight_update:
  "k \<notin> set (keys P) \<Longrightarrow> inflight (AList.update k p P) i = inflight P i + of_bool (pr_lookup_id p = Some i)"
  by (induction P) (auto simp: inflight_def)

lemma inflight_delete:
  "distinct (keys P) \<Longrightarrow> map_of P k = Some p \<Longrightarrow>
   inflight P i = inflight (AList.delete k P) i + of_bool (pr_lookup_id p = Some i)"
proof (induction P)
  case (Cons q P)
  show ?case
  proof (cases "fst q = k")
    case True
    then have "k \<notin> fst ` set P" using Cons.prems(1) by auto
    then have "AList.delete k P = P" by (simp add: AList.delete_idem)
    then show ?thesis using Cons.prems True by (cases q) (auto simp: inflight_def)
  next
    case False
    then show ?thesis using Cons by (cases q) (auto simp: inflight_def)
  qed
qed simp

lemma lookups_okD:
  assumes "lookups_ok x f t P"
  shows "distinct (keys (lt_active t))" "\<forall>i\<in>set (keys (lt_active t)). i < lt_next_id t"
    "progress_ok x f (map_of (lt_active t) i) (inflight P i) i"
  using assms by (simp_all add: lookups_ok_def)

lemma lookups_ok_active:
  assumes "lookups_ok x f t P" "x = Some i \<or> f = Some i"
  obtains pg where "map_of (lt_active t) i = Some pg" "i \<in> set (keys (lt_active t))"
    "rp_outstanding pg = inflight P i + of_bool (x = Some i)"
proof (cases "map_of (lt_active t) i")
  case None
  then show ?thesis using lookups_okD(3) [OF assms(1), of i] assms(2) by (auto simp: progress_ok_def)
next
  case (Some pg)
  then have "i \<in> set (keys (lt_active t))" by (rule map_of_key)
  then show ?thesis using Some lookups_okD(3) [OF assms(1), of i] that [of pg] by (auto simp: progress_ok_def)
qed

lemma lookups_attach:
  assumes t: "lookups_ok x f t P" and k: "k \<notin> set (keys P)" and l: "pr_lookup_id p \<in> {None, x, f}"
  shows "lookups_ok x f (case pr_lookup_id p of None \<Rightarrow> t | Some i \<Rightarrow> lookup_attach i t) (AList.update k p P)"
proof (cases "pr_lookup_id p")
  case None
  then have "inflight (AList.update k p P) i = inflight P i" for i using inflight_update [OF k] by simp
  then show ?thesis using t None unfolding lookups_ok_def by simp
next
  case (Some i)
  obtain pg where pg: "map_of (lt_active t) i = Some pg" "i \<in> set (keys (lt_active t))"
      "rp_outstanding pg = inflight P i + of_bool (x = Some i)"
    by (rule lookups_ok_active [OF t, of i]) (use l Some in auto)
  have a: "lookup_attach i t =
      t\<lparr>lt_active := AList.update i (pg\<lparr>rp_outstanding := rp_outstanding pg + 1\<rparr>) (lt_active t)\<rparr>"
    using pg by (simp add: lookup_attach_def)
  have "progress_ok x f (map_of (lt_active (lookup_attach i t)) j) (inflight (AList.update k p P) j) j" for j
    using lookups_okD(3) [OF t, of j] pg Some inflight_update [OF k, of p j] a
    by (cases "j = i") (simp_all add: progress_ok_def update_conv')
  moreover have "distinct (keys (lt_active (lookup_attach i t)))"
    using a lookups_okD(1) [OF t] by (simp add: distinct_update)
  moreover have "\<forall>j\<in>set (keys (lt_active (lookup_attach i t))). j < lt_next_id (lookup_attach i t)"
    using a lookups_okD(2) [OF t] pg(2) by (simp add: keys_update insert_absorb del: set_map)
  ultimately show ?thesis using Some unfolding lookups_ok_def by simp
qed

lemma lookups_remove:
  assumes "lookups_ok None None t P" "distinct (keys P)" "map_of P k = Some p"
  shows "lookups_ok (pr_lookup_id p) None t (AList.delete k P)"
proof -
  have "progress_ok (pr_lookup_id p) None (map_of (lt_active t) i) (inflight (AList.delete k P) i) i" for i
    using lookups_okD(3) [OF assms(1), of i] inflight_delete [OF assms(2,3), of i]
    by (auto simp: progress_ok_def split: option.splits)
  then show ?thesis using lookups_okD(1,2) [OF assms(1)] unfolding lookups_ok_def by blast
qed

lemma length_delete: "distinct (keys m) \<Longrightarrow> k \<in> set (keys m) \<Longrightarrow> length m = Suc (length (AList.delete k m))"
proof (induction m)
  case (Cons q m)
  show ?case
  proof (cases "fst q = k")
    case True
    then have "AList.delete k m = m" using Cons.prems(1) by (auto simp: AList.delete_idem)
    then show ?thesis using True by simp
  next
    case False
    then show ?thesis using Cons by simp
  qed
qed simp

lemma lookups_complete:
  assumes t: "lookups_ok (Some i) None t P" and b: "balanced None t m"
    and c: "lookup_complete i found (t, m) = (t', m')"
  shows "lookups_ok None None t' P \<and> balanced None t' m' \<and> lt_next_id t' = lt_next_id t"
proof -
  obtain pg where pg: "map_of (lt_active t) i = Some pg" "i \<in> set (keys (lt_active t))"
      "rp_outstanding pg = Suc (inflight P i)"
    by (rule lookups_ok_active [OF t, of i]) auto
  note d = lookups_okD(1) [OF t] and lt = lookups_okD(2) [OF t]
  show ?thesis
  proof (cases "0 < inflight P i")
    case True
    let ?pg = "pg\<lparr>rp_outstanding := inflight P i, rp_peers_found := rp_peers_found pg \<or> found\<rparr>"
    have t': "t' = t\<lparr>lt_active := AList.update i ?pg (lt_active t)\<rparr>" "m' = m"
      using c pg True by (simp_all add: lookup_complete_def Let_def)
    have "progress_ok None None (map_of (lt_active t') j) (inflight P j) j" for j
      using lookups_okD(3) [OF t, of j] t' True
      by (cases "j = i") (auto simp: progress_ok_def update_conv' split: option.splits)
    moreover have "\<forall>j\<in>set (keys (lt_active t')). j < lt_next_id t'"
      using t' lt pg(2) by (simp add: keys_update insert_absorb del: set_map)
    moreover have "distinct (keys (lt_active t'))" using t' d by (simp add: distinct_update)
    moreover have "length (lt_active t') = length (lt_active t)" using t' pg(2) by (simp add: length_update)
    ultimately show ?thesis using t' b unfolding lookups_ok_def balanced_def by simp
  next
    case False
    have t': "t' = t\<lparr>lt_active := AList.delete i (lt_active t)\<rparr>"
      "m' = (if rp_peers_found pg \<or> found then record_real_lookup_succeeded m else record_real_lookup_failed m)"
      using c pg False by (simp_all add: lookup_complete_def Let_def split: if_splits)
    have "progress_ok None None (map_of (lt_active t') j) (inflight P j) j" for j
      using lookups_okD(3) [OF t, of j] t' False
      by (cases "j = i") (auto simp: progress_ok_def AList.delete_conv' split: option.splits)
    moreover have "\<forall>j\<in>set (keys (lt_active t')). j < lt_next_id t'"
      using t' lt by (simp add: keys_delete del: set_map)
    moreover have "distinct (keys (lt_active t'))" using t' d by (simp add: distinct_delete)
    moreover have "length (lt_active t) = Suc (length (lt_active t'))" using length_delete [OF d pg(2)] t' by simp
    then have "balanced None t' m'" using b t'
      by (auto simp: balanced_def record_real_lookup_succeeded_def record_real_lookup_failed_def)
    ultimately show ?thesis using t' unfolding lookups_ok_def by simp
  qed
qed

lemma lookups_begin:
  assumes t: "lookups_ok None None t P" and b: "balanced None t m"
    and c: "lookup_begin t = (i, t')" and room: "unat (lt_next_id t) < 2 ^ 64 - 1"
  shows "lookups_ok None (Some i) t' P \<and> balanced (Some i) t' m \<and> lt_next_id t' = lt_next_id t + 1"
proof -
  have t': "i = lt_next_id t" "lt_next_id t' = lt_next_id t + 1"
    "lt_active t' = AList.update i \<lparr>rp_outstanding = 0, rp_peers_found = False\<rparr> (lt_active t)"
    using c by (auto simp: lookup_begin_def Let_def)
  have fresh: "i \<notin> set (keys (lt_active t))" using lookups_okD(2) [OF t] t'(1) by blast
  then have none: "map_of (lt_active t) i = None" by (simp add: map_of_None_iff)
  have up: "j < lt_next_id t \<Longrightarrow> j < lt_next_id t + 1" "lt_next_id t < lt_next_id t + 1" for j
    using room by (auto simp: word_less_nat_alt unat_word_ariths)
  have "progress_ok None (Some i) (map_of (lt_active t') j) (inflight P j) j" for j
    using lookups_okD(3) [OF t, of j] t'(3) none
    by (cases "j = i") (auto simp: progress_ok_def update_conv' split: option.splits)
  moreover have "\<forall>j\<in>set (keys (lt_active t')). j < lt_next_id t'"
    using t' lookups_okD(2) [OF t] up by (auto simp: keys_update simp del: set_map)
  moreover have "distinct (keys (lt_active t'))" using t' lookups_okD(1) [OF t] by (simp add: distinct_update)
  moreover have "length (lt_active t') = Suc (length (lt_active t))" using t'(3) fresh by (simp add: length_update)
  ultimately show ?thesis using t' b unfolding lookups_ok_def balanced_def by simp
qed

lemma lookups_started:
  assumes t: "lookups_ok None (Some i) t P" and b: "balanced (Some i) t m"
    and c: "lookup_started i (t, m) = (t', m')"
  shows "lookups_ok None None t' P \<and> balanced None t' m' \<and> lt_next_id t' = lt_next_id t"
proof -
  obtain pg where pg: "map_of (lt_active t) i = Some pg" "i \<in> set (keys (lt_active t))"
      "rp_outstanding pg = inflight P i"
    by (rule lookups_ok_active [OF t, of i]) auto
  note d = lookups_okD(1) [OF t] and lt = lookups_okD(2) [OF t]
  show ?thesis
  proof (cases "0 < inflight P i")
    case True
    have t': "t' = t" "m' = record_real_lookup_initiated m"
      using c pg True by (simp_all add: lookup_started_def Let_def)
    have "progress_ok None None (map_of (lt_active t') j) (inflight P j) j" for j
      using lookups_okD(3) [OF t, of j] pg t' True
      by (cases "j = i") (auto simp: progress_ok_def split: option.splits)
    moreover have "balanced None t' m'" using b t' by (simp add: balanced_def record_real_lookup_initiated_def)
    ultimately show ?thesis using t' d lt unfolding lookups_ok_def by simp
  next
    case False
    have t': "t' = t\<lparr>lt_active := AList.delete i (lt_active t)\<rparr>" "m' = m"
      using c pg False by (simp_all add: lookup_started_def Let_def)
    have "progress_ok None None (map_of (lt_active t') j) (inflight P j) j" for j
      using lookups_okD(3) [OF t, of j] t' False
      by (cases "j = i") (auto simp: progress_ok_def AList.delete_conv' split: option.splits)
    moreover have "\<forall>j\<in>set (keys (lt_active t')). j < lt_next_id t'"
      using t' lt by (simp add: keys_delete del: set_map)
    moreover have "distinct (keys (lt_active t'))" using t' d by (simp add: distinct_delete)
    moreover have "length (lt_active t) = Suc (length (lt_active t'))" using length_delete [OF d pg(2)] t' by simp
    then have "balanced None t' m'" using b t' by (simp add: balanced_def)
    ultimately show ?thesis using t' unfolding lookups_ok_def by simp
  qed
qed

end
