(* ===== verification/Crawler_Safety.thy ===== *)
theory Crawler_Safety
  imports Crawler_Invariant
begin

text \<open>
  Every handler of the crawler keeps the invariant and does not panic, the crawler as an
  instance of the machine interface, and the properties of whole runs and single packets.
\<close>

subsection \<open>Outstanding queries\<close>

lemma rpcs_okI:
  assumes "distinct (keys P)" "distinct (keys R)" "set (keys P) \<inter> set (keys R) = {}"
    "length P \<le> dc_max_pending_rpcs cf" "\<And>k p. (k, p) \<in> set P \<Longrightarrow> k \<in> range transaction_id_bytes \<and> rpc_ok p"
  shows "rpcs_ok cf P R"
proof -
  have "\<forall>(k, p)\<in>set P. k \<in> range transaction_id_bytes \<and> rpc_ok p"
  proof
    fix q assume q: "q \<in> set P"
    obtain k p where "q = (k, p)" by (cases q)
    with q show "case q of (k, p) \<Rightarrow> k \<in> range transaction_id_bytes \<and> rpc_ok p"
      using assms(5) [of k p] by (simp only: prod.case)
  qed
  then show ?thesis using assms(1-4) unfolding rpcs_ok_def by (intro conjI)
qed

lemma rpcs_okD:
  assumes "rpcs_ok cf P R"
  shows "distinct (keys P)" "distinct (keys R)" "set (keys P) \<inter> set (keys R) = {}"
    "length P \<le> dc_max_pending_rpcs cf" "(k, p) \<in> set P \<Longrightarrow> k \<in> range transaction_id_bytes \<and> rpc_ok p"
proof -
  have q: "\<forall>q\<in>set P. case q of (k, p) \<Rightarrow> k \<in> range transaction_id_bytes \<and> rpc_ok p"
    using assms unfolding rpcs_ok_def by (elim conjE)
  show "k \<in> range transaction_id_bytes \<and> rpc_ok p" if "(k, p) \<in> set P"
    using bspec [OF q that] by (simp only: prod.case)
qed (use assms in \<open>simp_all only: rpcs_ok_def\<close>)

lemma rpcs_ok_insert:
  assumes ok: "rpcs_ok cf P R" and k: "k \<in> range transaction_id_bytes" "k \<notin> set (keys P)" "k \<notin> set (keys R)"
    and room: "length P < dc_max_pending_rpcs cf" and p: "rpc_ok p"
  shows "rpcs_ok cf (AList.update k p P) R"
proof (rule rpcs_okI)
  show "distinct (keys (AList.update k p P))" using rpcs_okD(1) [OF ok] by (rule distinct_update)
  show "set (keys (AList.update k p P)) \<inter> set (keys R) = {}"
    using rpcs_okD(3) [OF ok] k(3) by (simp only: keys_update Int_insert_left if_False)
  show "length (AList.update k p P) \<le> dc_max_pending_rpcs cf" using k(2) room by (simp add: length_update)
  fix k' p' assume "(k', p') \<in> set (AList.update k p P)"
  then have "(k', p') \<in> insert (k, p) (set P)" by (rule subsetD [OF set_update_subset])
  then show "k' \<in> range transaction_id_bytes \<and> rpc_ok p'"
  proof (rule insertE)
    assume "(k', p') = (k, p)"
    then show ?thesis using k(1) p by simp
  qed (rule rpcs_okD(5) [OF ok])
qed (rule rpcs_okD(2) [OF ok])

lemma rpcs_ok_retire:
  assumes ok: "rpcs_ok cf P R"
  shows "rpcs_ok cf (AList.delete k P) (AList.update k v R)"
proof (rule rpcs_okI)
  show "distinct (keys (AList.delete k P))" by (rule distinct_delete [OF rpcs_okD(1) [OF ok]])
  show "distinct (keys (AList.update k v R))" by (rule distinct_update [OF rpcs_okD(2) [OF ok]])
  show "set (keys (AList.delete k P)) \<inter> set (keys (AList.update k v R)) = {}"
  proof -
    have "(A - {k}) \<inter> insert k B = (A - {k}) \<inter> B" for A B :: "bytes set" by blast
    moreover have "(A - {k}) \<inter> B = {}" if "A \<inter> B = {}" for A B :: "bytes set" using that by blast
    ultimately show ?thesis using rpcs_okD(3) [OF ok] by (simp only: keys_delete keys_update)
  qed
  show "length (AList.delete k P) \<le> dc_max_pending_rpcs cf"
    using rpcs_okD(4) [OF ok] length_delete_le [of k P] by simp
  fix k' p' assume "(k', p') \<in> set (AList.delete k P)"
  then have "(k', p') \<in> set P" by (auto simp: AList.delete_eq)
  then show "k' \<in> range transaction_id_bytes \<and> rpc_ok p'" by (rule rpcs_okD(5) [OF ok])
qed

lemma rpcs_ok_rpc: "rpcs_ok cf P R \<Longrightarrow> map_of P k = Some p \<Longrightarrow> rpc_ok p"
  using rpcs_okD(5) map_of_SomeD by metis

lemma core_send [inv_intros]:
  assumes s: "core cf our n x f s" and ev: "env_ok ev" and e: "\<forall>i. e = Some i \<longrightarrow> valid_id i"
    and l: "l \<in> {None, x, f}" and real: "real \<longleftrightarrow> l \<noteq> None" and m: "l \<noteq> None \<longrightarrow> meth = GetPeers \<and> h \<noteq> None"
  shows "ensures (map_option snd (send_rpc ev c addr e meth target h real budget l s)) (core cf our n x f)"
proof -
  obtain r s1 where a: "allocate_transaction s = (r, s1)" by fastforce
  note a1 = allocate_core [OF s a]
  show ?thesis
  proof (cases r)
    case None
    then show ?thesis using a a1(1) by (simp add: send_rpc_def)
  next
    case (Some tx)
    let ?k = "transaction_id_bytes tx" and ?P = "cw_pending_rpcs s"
    define p where "p = \<lparr>pr_expected_addr = addr, pr_expected_node_id = e, pr_method = meth, pr_target = target,
      pr_info_hash = h, pr_is_real_lookup = real, pr_deadline = ck_now c + dc_rpc_timeout (cw_config s1),
      pr_continuation_budget = budget, pr_lookup_id = l\<rparr>"
    have free: "?k \<notin> set (keys ?P)" "?k \<notin> set (keys (cw_retired s))" "length ?P < dc_max_pending_rpcs cf"
      using a1(6) [OF Some] by (simp_all add: tx_used_def map_of_None_iff del: set_map)
    have pl: "pr_lookup_id p = l" by (simp add: p_def)
    have "rpc_ok p" using e real m by (simp add: rpc_ok_def p_def)
    then have rp: "rpcs_ok cf (AList.update ?k p ?P) (cw_retired s)"
      using s free by (intro rpcs_ok_insert) (simp_all add: core_def del: set_map)
    have lk: "lookups_ok x f (case l of None \<Rightarrow> cw_lookups s | Some i \<Rightarrow> lookup_attach i (cw_lookups s))
        (AList.update ?k p ?P)"
      using lookups_attach [OF _ free(1), of x f "cw_lookups s" p] s l pl by (simp add: core_def)
    have same: "lt_next_id (case l of None \<Rightarrow> cw_lookups s | Some i \<Rightarrow> lookup_attach i (cw_lookups s)) = n"
      "length (lt_active (case l of None \<Rightarrow> cw_lookups s | Some i \<Rightarrow> lookup_attach i (cw_lookups s))) =
       length (lt_active (cw_lookups s))"
      using s by (auto simp: core_def lookup_attach_def length_update split: option.splits dest: map_of_key)
    have sent: "core cf our n x f (s1\<lparr>cw_pending_rpcs := AList.update ?k p ?P, cw_out := out, cw_queries_sent := q,
        cw_lookups := (case l of None \<Rightarrow> cw_lookups s | Some i \<Rightarrow> lookup_attach i (cw_lookups s))\<rparr>)" for out q
      using a1(1,2,3,5) rp lk same by (simp add: core_def balanced_def)
    have "AList.delete ?k (AList.update ?k p ?P) = ?P"
      using free(1) by (simp add: AList.delete_update_same AList.delete_idem)
    then have unsent: "core cf our n x f (s1\<lparr>cw_out := out, cw_pending_rpcs := AList.delete ?k (AList.update ?k p ?P)\<rparr>)"
      for out using a1(1,2) by (simp add: core_def)
    obtain bs where "krpc_to_bytes (ev_enc ev) (query_message meth (cw_our_id s1) target tx) = Some bs"
      using env_okD(1) [OF ev] by (auto simp: krpc_to_bytes_def)
    then show ?thesis using a Some sent unsent
      by (cases l) (simp_all add: send_rpc_def Let_def p_def put_out_def a1(2,3))
  qed
qed

lemma core_send_all [inv_intros]:
  assumes "core cf our n x f s" "env_ok ev" "\<forall>y\<in>set nodes. valid_id (nc_id y)"
    "l \<in> {None, x, f}" "real \<longleftrightarrow> l \<noteq> None" "l \<noteq> None \<longrightarrow> meth = GetPeers \<and> h \<noteq> None"
  shows "ensures (fold_opt (\<lambda>node s. map_option snd (send_rpc ev c (nc_addr node) (Some (nc_id node)) meth
    target h real budget l s)) nodes s) (core cf our n x f)"
  by (rule fold_opt_inv [where I = "core cf our n x f"], rule assms(1), rule core_send) (use assms in auto)

lemma core_bootstrap [inv_intros]:
  assumes "core cf our n x f s" "env_ok ev"
  shows "ensures (bootstrap ev c s) (core cf our n x f)"
  unfolding bootstrap_def
proof (rule fold_opt_inv [where I = "core cf our n x f"], rule assms(1))
  fix y t assume t: "core cf our n x f t"
  show "ensures (case ev_resolve ev y of None \<Rightarrow> Some t | Some addr \<Rightarrow>
      map_option snd (send_rpc ev c addr None FindNode (cw_our_id t) None False 2 None t)) (core cf our n x f)"
  proof (cases "ev_resolve ev y")
    case (Some addr)
    have "ensures (map_option snd (send_rpc ev c addr None FindNode (cw_our_id t) None False 2 None t)) (core cf our n x f)"
      by (rule core_send [OF t assms(2)]) auto
    then show ?thesis using Some by simp
  qed (use t in simp)
qed


subsection \<open>Answers, errors and timeouts\<close>

lemma core_remove:
  assumes s: "core cf our n None None s" and k: "map_of (cw_pending_rpcs s) k = Some p"
  shows "core cf our n (pr_lookup_id p) None
      (retire c k (s\<lparr>cw_pending_rpcs := AList.delete k (cw_pending_rpcs s)\<rparr>))" "rpc_ok p"
proof -
  have r: "rpcs_ok cf (cw_pending_rpcs s) (cw_retired s)" and l: "lookups_ok None None (cw_lookups s) (cw_pending_rpcs s)"
    using s by (simp_all add: core_def)
  show "core cf our n (pr_lookup_id p) None
      (retire c k (s\<lparr>cw_pending_rpcs := AList.delete k (cw_pending_rpcs s)\<rparr>))"
    using s rpcs_ok_retire [OF r] lookups_remove [OF l rpcs_okD(1) [OF r] k] by (simp add: core_def retire_def)
  show "rpc_ok p" by (rule rpcs_ok_rpc [OF r k])
qed

lemma core_complete:
  assumes s: "core cf our n (Some i) None s"
  shows "core cf our n None None (on_lookups (lookup_respond i found) s)"
    "core cf our n None None (on_lookups (lookup_failure i) s)"
    "core cf our n None None (on_lookups (lookup_timeout i) s)"
proof -
  have g: "core cf our n None None (on_lookups (\<lambda>(t, m). lookup_complete i b (t, g m)) s)"
    if "\<And>m. same_lookup_counts m (g m)" for b g
  proof -
    obtain t' m' where c: "lookup_complete i b (cw_lookups s, g (cw_metrics s)) = (t', m')" by fastforce
    have "balanced None (cw_lookups s) (g (cw_metrics s))"
      using s balanced_same [OF that] by (simp add: core_def)
    then show ?thesis using lookups_complete [OF _ _ c] s c by (auto simp: core_def on_lookups_def)
  qed
  have t: "lookup_respond i found = (\<lambda>(t, m). lookup_complete i found (t, m))"
    "lookup_failure i = (\<lambda>(t, m). lookup_complete i False (t, record_real_lookup_rpc_failure m))"
    "lookup_timeout i = (\<lambda>(t, m). lookup_complete i False (t, record_real_lookup_rpc_timeout m))"
    by (auto simp: fun_eq_iff lookup_respond_def lookup_failure_def lookup_timeout_def)
  show "core cf our n None None (on_lookups (lookup_respond i found) s)"
    "core cf our n None None (on_lookups (lookup_failure i) s)"
    "core cf our n None None (on_lookups (lookup_timeout i) s)"
    unfolding t by (rule g, simp add: same_lookup_counts_def record_real_lookup_rpc_failure_def
        record_real_lookup_rpc_timeout_def)+
qed

lemma core_settle [inv_intros]:
  assumes "core cf our n x None s"
  shows "core cf our n None None (case x of None \<Rightarrow> s | Some i \<Rightarrow> on_lookups (lookup_failure i) s)"
    "core cf our n None None (case x of None \<Rightarrow> s | Some i \<Rightarrow> on_lookups (lookup_timeout i) s)"
    "core cf our n None None (case x of None \<Rightarrow> s | Some i \<Rightarrow> on_lookups (lookup_respond i found) s)"
  using assms core_complete by (auto split: option.split)

lemma core_expire_one:
  assumes s: "core cf our n None None s"
  shows "ensures (expire_one c k s) (core cf our n None None)"
proof (cases "map_of (cw_pending_rpcs s) k")
  case None
  then show ?thesis using s by (simp add: expire_one_def)
next
  case (Some p)
  let ?s = "retire c k (s\<lparr>cw_pending_rpcs := AList.delete k (cw_pending_rpcs s)\<rparr>)"
  have "ensures (fail_contact c (pr_expected_node_id p) ?s)
      (\<lambda>s'. core cf our n (pr_lookup_id p) None s' \<and> (\<exists>t. s' = ?s\<lparr>cw_routing := t\<rparr>))"
    by (rule core_fail_contact [OF core_remove(1) [OF s Some]])
      (use core_remove(2) [OF s Some] in \<open>simp add: rpc_ok_def\<close>)
  then obtain s1 where s1: "fail_contact c (pr_expected_node_id p) ?s = Some s1" "core cf our n (pr_lookup_id p) None s1"
    by (auto simp: ensures_iff)
  define s2 where "s2 = (if pr_is_real_lookup p
      then (case pr_info_hash p of None \<Rightarrow> s1 | Some h \<Rightarrow> snd (queue_hash h s1)) else s1)"
  have "core cf our n (pr_lookup_id p) None s2"
    using s1(2) core_queue_hash by (auto simp: s2_def split: option.split)
  then have "core cf our n None None (case pr_lookup_id p of None \<Rightarrow> s2 | Some i \<Rightarrow> on_lookups (lookup_timeout i) s2)"
    by (rule core_settle)
  moreover have "expire_one c k s = Some (emit_stat RpcTimedOut
      (case pr_lookup_id p of None \<Rightarrow> s2 | Some i \<Rightarrow> on_lookups (lookup_timeout i) s2))"
    using Some s1(1) unfolding expire_one_def Let_def s2_def by simp
  ultimately show ?thesis by simp
qed

lemma core_expire_pending [inv_intros]:
  assumes s: "core cf our n None None s"
  shows "ensures (expire_pending c s) (core cf our n None None)"
proof -
  let ?R = "filter (\<lambda>(k, reusable_at). ck_now c < reusable_at) (cw_retired s)"
  have r: "rpcs_ok cf (cw_pending_rpcs s) (cw_retired s)" using s by (simp add: core_def)
  have "rpcs_ok cf (cw_pending_rpcs s) ?R"
  proof (rule rpcs_okI)
    show "distinct (keys ?R)" by (rule distinct_keys_filter [OF rpcs_okD(2) [OF r]])
    have "set (keys ?R) \<subseteq> set (keys (cw_retired s))" by auto
    then show "set (keys (cw_pending_rpcs s)) \<inter> set (keys ?R) = {}" using rpcs_okD(3) [OF r]
      by (meson disjoint_iff subsetD)
  qed (use rpcs_okD [OF r] in blast)+
  then have "core cf our n None None (s\<lparr>cw_retired := ?R\<rparr>)" using s by (simp add: core_def)
  then show ?thesis
    unfolding expire_pending_def Let_def by (rule fold_opt_inv) (rule core_expire_one)
qed


subsection \<open>Handlers\<close>

lemma core_answer_query:
  assumes s: "core cf our n None None s" and ev: "env_ok ev"
  shows "core cf our n None None (snd (answer_query ev c q a t source s))"
proof -
  have gp: "core cf our n None None (snd (get_peers_response ev c a t source s))"
    using core_expire_cache [OF core_publish [OF s]]
    by (simp add: get_peers_response_def Let_def s split: option.split)
  have "core cf our n None None (snd (announce_peer_response ev c a t source s))"
    using core_publish [OF core_cache_peer [OF s ev]]
    by (simp add: announce_peer_response_def Let_def s split: option.split)
  with gp s show ?thesis by (simp add: answer_query_def Let_def)
qed

lemma core_handle_query:
  assumes s: "core cf our n None None s" and ev: "env_ok ev"
  shows "ensures (handle_query ev c (Query t y q a extra) source s) (core cf our n None None)"
proof (cases "is_public_endpoint source")
  case True
  let ?m = "Query t y q a extra"
  define s1 where "s1 = (case extract_node_id ?m of None \<Rightarrow> s | Some i \<Rightarrow> remember_provisional c source i s)"
  have "core cf our n None None s1" using s core_remember by (auto simp: s1_def split: option.split)
  then have s2: "core cf our n None None (snd (answer_query ev c q a t source s1))" by (rule core_answer_query [OF _ ev])
  obtain response s3 where a: "answer_query ev c q a t source s1 = (response, s3)" by fastforce
  obtain bs where "krpc_to_bytes (ev_enc ev) response = Some bs"
    using env_okD(1) [OF ev] by (auto simp: krpc_to_bytes_def)
  then have "handle_query ev c ?m source s = Some (put_out (Datagram source bs (ev_send ev (cw_out s3))) s3)"
    using True a unfolding handle_query_def Let_def s1_def by simp
  then show ?thesis using s2 a by simp
qed (use s in \<open>simp add: handle_query_def\<close>)

lemma response_nodes_valid: "\<forall>y\<in>set (response_nodes c msg). valid_id (nc_id y)"
  using decoded_node_ok(1)
  by (auto simp: response_nodes_def split: krpc_message.splits option.splits krpc_value.splits)

lemma core_accept_get_peers:
  assumes s: "core cf our n (pr_lookup_id p) None s" and ev: "env_ok ev" and p: "rpc_ok p"
    and m: "pr_method p = GetPeers"
  shows "ensures (accept_get_peers ev c msg p s) (core cf our n None None)"
proof -
  obtain peers nodes where parse: "parse_get_peers_response c msg = (peers, nodes)" by fastforce
  let ?x = "pr_lookup_id p"
  have v: "\<forall>y\<in>set nodes. valid_id (nc_id y)" using get_peers_response_ok(2) [OF parse] by blast
  have "ensures (admit_candidates nodes (on_metrics (record_get_peers_response (peers \<noteq> [])) s)) (core cf our n ?x None)"
    by (rule core_admit) (use s v in simp_all)
  then obtain s1 where s1: "admit_candidates nodes (on_metrics (record_get_peers_response (peers \<noteq> [])) s) = Some s1"
      "core cf our n ?x None s1"
    by (auto simp: ensures_iff)
  have cont: "ensures (continue_get_peers ev c h nodes p s2) (core cf our n ?x None)" if "core cf our n ?x None s2" for h s2
    unfolding continue_get_peers_def using that p m
    by (auto intro!: core_send_all [OF that ev] simp: v rpc_ok_def dest: in_set_takeD)
  have "ensures (case pr_info_hash p of None \<Rightarrow> Some s1
      | Some h \<Rightarrow> continue_get_peers ev c h nodes p
          (if peers \<noteq> [] \<or> pr_is_real_lookup p
           then publish_discovery ev h peers OutboundGetPeers (fold (cache_peer ev c h) peers s1)
           else fold (cache_peer ev c h) peers s1)) (core cf our n ?x None)"
  proof (cases "pr_info_hash p")
    case (Some h)
    have "core cf our n ?x None (fold (cache_peer ev c h) peers s1)"
      by (rule fold_inv [where I = "core cf our n ?x None", OF s1(2)]) (rule core_cache_peer [OF _ ev])
    then have "core cf our n ?x None (if peers \<noteq> [] \<or> pr_is_real_lookup p
        then publish_discovery ev h peers OutboundGetPeers (fold (cache_peer ev c h) peers s1)
        else fold (cache_peer ev c h) peers s1)" by (simp only: core_publish simp_thms split: if_split)
    then show ?thesis unfolding Some option.case by (rule cont)
  qed (use s1 in simp)
  then have "ensures (case pr_info_hash p of None \<Rightarrow> Some s1
      | Some h \<Rightarrow> continue_get_peers ev c h nodes p
          (if peers \<noteq> [] \<or> pr_is_real_lookup p
           then publish_discovery ev h peers OutboundGetPeers (fold (cache_peer ev c h) peers s1)
           else fold (cache_peer ev c h) peers s1))
      (\<lambda>s2. core cf our n None None
        (case ?x of None \<Rightarrow> s2 | Some i \<Rightarrow> on_lookups (lookup_respond i (peers \<noteq> [])) s2))"
    by (rule ensures_mono) (rule core_settle)
  then show ?thesis
    unfolding accept_get_peers_def parse prod.case Let_def s1(1) Option.bind.bind_lunit ensures_bind ensures_simps .
qed

lemma core_accept_samples:
  assumes s: "core cf our n None None s"
  shows "ensures (accept_samples ev c msg source s) (core cf our n None None)"
proof (cases "parse_sample_infohashes_response c msg (dc_max_samples_per_response (cw_config s))")
  case (Inl e)
  then show ?thesis using s by (simp add: accept_samples_def)
next
  case (Inr r)
  have s1: "core cf our n None None (s\<lparr>cw_sample_eligible_at := el\<rparr>)" for el using s by (simp add: core_def)
  have ad: "ensures (admit_candidates (sr_nodes r) (s\<lparr>cw_sample_eligible_at := el\<rparr>)) (core cf our n None None)" for el
    by (rule core_admit [OF s1]) (use sample_response_ok(4) [OF Inr] in blast)
  have "core cf our n None None (fold (\<lambda>h s. emit_stat (SampleObserved h (sr_node_id r) source (cw_sampling_round_id s))
      (publish_discovery ev h [] SampleInfohashes s)) hs s2)" if "core cf our n None None s2" for hs s2
    by (rule fold_inv [where I = "core cf our n None None", OF that]) (simp add: core_publish)
  then have post: "ensures (admit_candidates (sr_nodes r) (s\<lparr>cw_sample_eligible_at := el\<rparr>))
      (\<lambda>s2. core cf our n None None (fold (\<lambda>h s. emit_stat (SampleObserved h (sr_node_id r) source (cw_sampling_round_id s))
        (publish_discovery ev h [] SampleInfohashes s)) (sr_samples r) s2))" for el
    by (rule ensures_mono [OF ad])
  show ?thesis using Inr by (simp add: accept_samples_def Let_def post)
qed


lemma core_accept_response:
  assumes s: "core cf our n (pr_lookup_id p) None s" and ev: "env_ok ev" and p: "rpc_ok p" and i: "valid_id i"
  shows "ensures (accept_response ev c msg source p i s) (core cf our n None None)"
proof -
  let ?x = "pr_lookup_id p"
  have r: "run_inv_of our (dc_max_candidate_nodes cf) (cw_routing s)" using s by (simp add: core_def)
  have "ensures (routing_step (OpValidated c i source) (cw_routing s)) (run_inv_of our (dc_max_candidate_nodes cf))"
    by (rule rtm.step_inv [OF r]) (simp add: i)
  then obtain b t where t: "mark_validated c i source (cw_routing s) = Some (b, t)"
      "run_inv_of our (dc_max_candidate_nodes cf) t"
    by (auto simp: ensures_iff)
  define s1 where "s1 = emit_stat RpcAnswered (emit_stat (DhtNodeSeen i source)
    (s\<lparr>cw_routing := t, cw_provisional := AList.delete source (cw_provisional s)\<rparr>))"
  have "core cf our n ?x None (s\<lparr>cw_routing := t, cw_provisional := AList.delete source (cw_provisional s)\<rparr>)"
    using s t(2) prov_ok_delete [of cf "cw_provisional s" source] by (simp add: core_def)
  then have s1: "core cf our n ?x None s1" by (simp add: s1_def)
  have settled: "core cf our n None None s1" if "pr_method p \<noteq> GetPeers"
    using s1 that p by (auto simp: rpc_ok_def)
  have eq: "accept_response ev c msg source p i s =
    (case pr_method p of
       Ping \<Rightarrow> Some s1
     | FindNode \<Rightarrow> Option.bind (admit_candidates (response_nodes c msg) s1)
         (continue_find_node ev c (response_nodes c msg) p)
     | GetPeers \<Rightarrow> accept_get_peers ev c msg p s1
     | SampleHashes \<Rightarrow> accept_samples ev c msg source s1)"
    using t(1) unfolding accept_response_def s1_def Let_def by simp
  show ?thesis
  proof (cases "pr_method p")
    case Ping
    then show ?thesis using eq settled by simp
  next
    case FindNode
    have "ensures (admit_candidates (response_nodes c msg) s1) (core cf our n None None)"
      by (rule core_admit [OF _ response_nodes_valid]) (use settled FindNode in simp)
    moreover have "ensures (continue_find_node ev c (response_nodes c msg) p s2) (core cf our n None None)"
      if "core cf our n None None s2" for s2
      unfolding continue_find_node_def using that response_nodes_valid
      by (auto intro!: core_send_all [OF that ev] dest: in_set_takeD)
    ultimately show ?thesis using eq FindNode by (auto elim: ensures_mono)
  next
    case GetPeers
    then show ?thesis using eq core_accept_get_peers [OF s1 ev p GetPeers] by simp
  next
    case SampleHashes
    then show ?thesis using eq core_accept_samples settled by simp
  qed
qed

lemma core_handle_response:
  assumes s: "core cf our n None None s" and ev: "env_ok ev"
  shows "ensures (handle_response ev c msg source s) (core cf our n None None)"
proof -
  let ?tx = "transaction_id msg" and ?P = "cw_pending_rpcs s"
  show ?thesis
  proof (cases "map_of ?P ?tx")
    case None
    then show ?thesis using s by (simp add: handle_response_def correlate_response_def Let_def)
  next
    case (Some p)
    let ?s = "retire c ?tx (s\<lparr>cw_pending_rpcs := AList.delete ?tx ?P\<rparr>)"
    note rem = core_remove(1) [OF s Some, of c] core_remove(2) [OF s Some]
    have "correlate_response ?P msg source = (?P, Inl UnexpectedSource) \<or>
      correlate_response ?P msg source = (AList.delete ?tx ?P, Inl Malformed) \<or>
      (\<exists>i. correlate_response ?P msg source = (AList.delete ?tx ?P, Inr (p, i)) \<and> valid_id i)"
      using Some extract_node_id_valid [of msg]
      by (cases "extract_node_id msg") (simp_all add: correlate_response_def Let_def)
    then consider "correlate_response ?P msg source = (?P, Inl UnexpectedSource)"
      | "correlate_response ?P msg source = (AList.delete ?tx ?P, Inl Malformed)"
      | i where "correlate_response ?P msg source = (AList.delete ?tx ?P, Inr (p, i))" "valid_id i"
      by blast
    then show ?thesis
    proof cases
      case 1
      then show ?thesis using s by (simp add: handle_response_def Let_def)
    next
      case 2
      have "core cf our n None None (case pr_lookup_id p of None \<Rightarrow> emit_stat RpcMalformed ?s
          | Some i \<Rightarrow> on_lookups (lookup_failure i) (emit_stat RpcMalformed ?s))"
        by (rule core_settle) (use rem in simp)
      then show ?thesis using 2 Some unfolding handle_response_def Let_def by simp
    next
      case 3
      have "ensures (accept_response ev c msg source p i ?s) (core cf our n None None)"
        by (rule core_accept_response [OF rem(1) ev rem(2) 3(2)])
      then show ?thesis using 3 Some unfolding handle_response_def Let_def by simp
    qed
  qed
qed

lemma core_handle_error:
  assumes s: "core cf our n None None s"
  shows "ensures (handle_error c msg source s) (core cf our n None None)"
proof (cases "map_of (cw_pending_rpcs s) (transaction_id msg)")
  case None
  then show ?thesis using s by (simp add: handle_error_def)
next
  case (Some p)
  let ?s = "retire c (transaction_id msg) (s\<lparr>cw_pending_rpcs := AList.delete (transaction_id msg) (cw_pending_rpcs s)\<rparr>)"
  have "ensures (fail_contact c (pr_expected_node_id p) ?s)
      (\<lambda>s'. core cf our n (pr_lookup_id p) None s' \<and> (\<exists>t. s' = ?s\<lparr>cw_routing := t\<rparr>))"
    by (rule core_fail_contact [OF core_remove(1) [OF s Some]])
      (use core_remove(2) [OF s Some] in \<open>simp add: rpc_ok_def\<close>)
  then have "ensures (fail_contact c (pr_expected_node_id p) ?s) (\<lambda>s1. core cf our n None None
      (case pr_lookup_id p of None \<Rightarrow> s1 | Some i \<Rightarrow> on_lookups (lookup_failure i) s1))"
    by (rule ensures_mono) (rule core_settle, blast)
  then show ?thesis using s Some by (simp add: handle_error_def Let_def)
qed

lemma core_handle_packet:
  assumes "core cf our n None None s" "env_ok ev"
  shows "ensures (handle_packet ev c data source s) (core cf our n None None)"
  using assms core_handle_query core_handle_response core_handle_error
  by (auto simp: handle_packet_def split: sum.split krpc_message.split)


subsection \<open>Ticks and runs\<close>

lemma core_start_lookup:
  assumes s: "core cf our n None None s" and ev: "env_ok ev" and v: "\<forall>y\<in>set nodes. valid_id (nc_id y)"
    and room: "unat n < 2 ^ 64 - 1"
  shows "ensures (start_lookup ev c h real nodes s) (\<lambda>s'. \<exists>n'\<in>{n, n + 1}. core cf our n' None None s')"
proof (cases real)
  case False
  have "ensures (fold_opt (\<lambda>node s. map_option snd
      (send_rpc ev c (nc_addr node) (Some (nc_id node)) GetPeers h (Some h) real 2 None s)) nodes s) (core cf our n None None)"
    by (rule core_send_all [OF s ev v]) (use False in auto)
  then show ?thesis using False by (auto simp: start_lookup_def elim!: ensures_mono)
next
  case True
  obtain i t where b: "lookup_begin (cw_lookups s) = (i, t)" by fastforce
  have l: "lookups_ok None None (cw_lookups s) (cw_pending_rpcs s)" "balanced None (cw_lookups s) (cw_metrics s)"
    "unat (lt_next_id (cw_lookups s)) < 2 ^ 64 - 1" "lt_next_id (cw_lookups s) = n"
    using s room by (simp_all add: core_def)
  note begun = lookups_begin [OF l(1,2) b l(3)]
  have s1: "core cf our (n + 1) None (Some i) (s\<lparr>cw_lookups := t\<rparr>)"
    using s begun l(4) by (simp add: core_def)
  have sent: "ensures (fold_opt (\<lambda>node s. map_option snd
      (send_rpc ev c (nc_addr node) (Some (nc_id node)) GetPeers h (Some h) True 2 (Some i) s)) nodes
      (s\<lparr>cw_lookups := t\<rparr>)) (core cf our (n + 1) None (Some i))"
    by (rule core_send_all [OF s1 ev v]) auto
  have "core cf our (n + 1) None None (on_lookups (lookup_started i) s2)" if "core cf our (n + 1) None (Some i) s2" for s2
  proof -
    obtain t' m' where c: "lookup_started i (cw_lookups s2, cw_metrics s2) = (t', m')" by fastforce
    then show ?thesis using lookups_started [OF _ _ c] that by (auto simp: core_def on_lookups_def)
  qed
  then have "ensures (fold_opt (\<lambda>node s. map_option snd
      (send_rpc ev c (nc_addr node) (Some (nc_id node)) GetPeers h (Some h) True 2 (Some i) s)) nodes
      (s\<lparr>cw_lookups := t\<rparr>)) (\<lambda>s2. \<exists>n'\<in>{n, n + 1}. core cf our n' None None (on_lookups (lookup_started i) s2))"
    by (intro ensures_mono [OF sent]) blast
  then show ?thesis using True b by (simp add: start_lookup_def)
qed

lemma core_look_up:
  assumes s: "core cf our n None None s" and ev: "env_ok ev" and room: "unat n < 2 ^ 64 - 1"
  shows "ensures (look_up ev c h real s) (\<lambda>s'. \<exists>n'\<in>{n, n + 1}. core cf our n' None None s')"
proof -
  let ?s = "on_metrics (set_discovery_queue_depth (length (cw_discovery_queue s))) s"
  have s1: "core cf our n None None ?s" using s by simp
  have "core cf our n None None (if real then snd (queue_hash h ?s) else ?s)"
    using core_queue_hash [OF s1] s1 by simp
  then have "ensures (bootstrap ev c (if real then snd (queue_hash h ?s) else ?s)) (core cf our n None None)"
    by (rule core_bootstrap [OF _ ev])
  moreover have "ensures (start_lookup ev c h real (lookup_nodes h ?s) ?s)
      (\<lambda>s'. \<exists>n'\<in>{n, n + 1}. core cf our n' None None s')"
    by (rule core_start_lookup [OF s1 ev _ room]) (use lookup_nodes_valid [OF s1] in blast)
  ultimately show ?thesis unfolding look_up_def Let_def by (auto elim!: ensures_mono)
qed

lemma core_next_hash:
  assumes s: "core cf our n None None s" and h: "next_hash ev s = (hr, s')"
  shows "core cf our n None None s'"
proof (cases "cw_discovery_queue s")
  case Nil
  then show ?thesis using s h by (simp add: next_hash_def)
next
  case (Cons h queue)
  have q: "queue_ok cf (h # queue) (cw_discovery_set s)" using s Cons by (simp add: core_def)
  have "queue_ok cf queue (cw_discovery_set s - {h})"
    using q by (auto simp: queue_ok_def)
  then show ?thesis using s Cons assms(2) by (auto simp: core_def next_hash_def)
qed

lemma core_discover:
  assumes s: "core cf our n None None s" and ev: "env_ok ev" and room: "unat n < 2 ^ 64 - 1"
  shows "ensures (discover_peers ev c s) (\<lambda>s'. \<exists>n'\<in>{n, n + 1}. core cf our n' None None s')"
proof -
  have "ensures (case next_hash ev s1 of ((h, real), s) \<Rightarrow> look_up ev c h real s)
      (\<lambda>s'. \<exists>n'\<in>{n, n + 1}. core cf our n' None None s')" if s1: "core cf our n None None s1" for s1
  proof -
    obtain h real s2 where h: "next_hash ev s1 = ((h, real), s2)" by (metis surj_pair)
    show ?thesis unfolding h prod.case by (rule core_look_up [OF core_next_hash [OF s1 h] ev room])
  qed
  then show ?thesis unfolding discover_peers_def ensures_bind
    by (rule ensures_mono [OF core_expire_pending [OF s]])
qed

lemma core_sample:
  assumes s: "core cf our n None None s" and ev: "env_ok ev"
  shows "ensures (sample_random_nodes ev c s) (core cf our n None None)"
proof -
  let ?s = "s\<lparr>cw_sampling_round_id := cw_sampling_round_id s + 1\<rparr>"
  have s1: "core cf our n None None ?s" using s by (simp add: core_def)
  have one: "ensures (sample_one ev c node t) (core cf our n None None)"
    if "valid_id (nc_id node)" "core cf our n None None t" for node t
  proof -
    have "core cf our n None None (t\<lparr>cw_sample_eligible_at := a\<rparr>)" for a using that(2) by (simp add: core_def)
    then show ?thesis unfolding sample_one_def Let_def using that(1) by (intro core_send [OF _ ev]) auto
  qed
  have v: "valid_id (nc_id node)" if "node \<in> set (take k (filter P (random_nodes (ev_pick ev) (cw_routing ?s) m)))" for node k P m
  proof -
    have "node \<in> set (random_nodes (ev_pick ev) (cw_routing ?s) m)" using that by (auto dest: in_set_takeD)
    then have "node \<in> set (live_contacts (cw_routing ?s))"
      using env_okD(2) [OF ev] by (auto simp: random_nodes_def Let_def)
    then show ?thesis by (rule core_live(1) [OF s1])
  qed
  show ?thesis unfolding sample_random_nodes_def Let_def
    by (rule fold_opt_inv [where I = "core cf our n None None", OF s1]) (rule one [OF v])
qed

definition crawler_ok :: "dht_config \<Rightarrow> node_id \<Rightarrow> crawler \<Rightarrow> bool" where
  "crawler_ok cf our s \<longleftrightarrow> (\<exists>n. core cf our n None None s)"

definition lookups_begun :: "crawler \<Rightarrow> nat" where
  "lookups_begun s = unat (lt_next_id (cw_lookups s))"

lemma core_crawler_step:
  assumes s: "core cf our n None None s" and ev: "env_ok ev" and room: "unat n < 2 ^ 64 - 1"
  shows "ensures (crawler_step ev e s) (\<lambda>s'. \<exists>n'\<in>{n, n + 1}. core cf our n' None None s')"
proof -
  have w: "ensures m (core cf our n None None) \<Longrightarrow>
      ensures m (\<lambda>s'. \<exists>n'\<in>{n, n + 1}. core cf our n' None None s')" for m
    by (erule ensures_mono) blast
  show ?thesis
  proof (cases e)
    case (Received c data source)
    then show ?thesis using w core_handle_packet [OF s ev] s by auto
  next
    case (DiscoveryTick c)
    then show ?thesis using core_discover [OF s ev room] by simp
  next
    case (SamplingTick c)
    then show ?thesis using w core_sample [OF s ev] s by auto
  next
    case (RefreshTick c)
    have "ensures (map_option (expire_peer_cache c) (expire_pending c s)) (core cf our n None None)"
      using core_expire_pending [OF s, of c] core_expire_cache by (auto simp: ensures_iff)
    then show ?thesis using RefreshTick w by simp
  next
    case StatsTick
    then show ?thesis using s by auto
  qed
qed

interpretation crm: counted_machine "crawler_step ev" "\<lambda>s. env_ok ev \<and> crawler_ok cf our s" "\<lambda>_. True"
    lookups_begun "2 ^ 64 - 1" for ev cf our
proof
  fix s e
  assume inv: "env_ok ev \<and> crawler_ok cf our s" and room: "lookups_begun s < 2 ^ 64 - 1"
  then obtain n where s: "core cf our n None None s" by (auto simp: crawler_ok_def)
  have n: "lookups_begun s = unat n" using s by (simp add: lookups_begun_def core_def)
  have "ensures (crawler_step ev e s) (\<lambda>s'. \<exists>n'\<in>{n, n + 1}. core cf our n' None None s')"
    by (rule core_crawler_step [OF s]) (use inv room n in simp_all)
  then show "ensures (crawler_step ev e s)
      (\<lambda>s'. (env_ok ev \<and> crawler_ok cf our s') \<and> lookups_begun s' \<le> Suc (lookups_begun s))"
  proof (rule ensures_mono)
    fix s' assume "\<exists>n'\<in>{n, n + 1}. core cf our n' None None s'"
    then obtain n' where n': "n' = n \<or> n' = n + 1" "core cf our n' None None s'" by auto
    have "unat (n + 1) \<le> Suc (unat n)" by (simp add: unat_word_ariths)
    then have "unat n' \<le> Suc (unat n)" using n'(1) by auto
    moreover have "lookups_begun s' = unat n'" using n'(2) by (simp add: lookups_begun_def core_def)
    ultimately show "(env_ok ev \<and> crawler_ok cf our s') \<and> lookups_begun s' \<le> Suc (lookups_begun s)"
      using inv n n'(2) by (auto simp: crawler_ok_def)
  qed
qed

lemma core_with_config:
  assumes "valid_id our" "same_lookup_counts (default_crawler_metrics c') m"
  shows "core cf our 0 None None (with_config c our secret nodes cf m)"
proof -
  have "balanced None new_tracker (set_discovery_queue_capacity k m)" for k
    using assms(2) by (simp add: balanced_def new_tracker_def set_discovery_queue_capacity_def
        same_lookup_counts_def default_crawler_metrics_def load_def store_def)
  then show ?thesis using rt_inv_init [OF assms(1)]
    by (simp add: core_def with_config_def run_inv_of_def new_tracker_def queue_ok_def rpcs_ok_def
        cache_ok_def prov_ok_def lookups_ok_def progress_ok_def inflight_def with_candidate_capacity_def)
qed

subsection \<open>The seeds\<close>

lemma core_seed_hash:
  assumes "core cf our n x f (snd ns)"
  shows "core cf our n x f (snd (seed_hash ev h ns))"
proof -
  obtain a s where ns: "ns = (a, s)" by fastforce
  obtain q s1 where q: "queue_hash h s = (q, s1)" by fastforce
  have "core cf our n x f s1" using core_queue_hash [of cf our n x f s h] assms q by (simp add: ns)
  then show ?thesis by (simp add: seed_hash_def ns q Let_def split: queue_admission.split)
qed

lemma core_seed_nodes:
  assumes "core cf our n x f (snd ks)" "\<forall>y\<in>set nodes. valid_id (nc_id y)"
  shows "ensures (fold_opt (\<lambda>node (n, s). do {
         (added, t) \<leftarrow> add_node c (nc_id node) (nc_addr node) (cw_routing s);
         Some (if added then n + 1 else n, s\<lparr>cw_routing := t\<rparr>)
       }) nodes ks) (\<lambda>ks. core cf our n x f (snd ks))"
  using assms
proof (induction nodes arbitrary: ks)
  case (Cons y nodes)
  obtain k s where ks: "ks = (k, s)" by fastforce
  have r: "run_inv_of our (dc_max_candidate_nodes cf) (cw_routing s)" using Cons.prems(1) by (simp add: core_def ks)
  have "ensures (routing_step (OpValidated c (nc_id y) (nc_addr y)) (cw_routing s)) (run_inv_of our (dc_max_candidate_nodes cf))"
    by (rule rtm.step_inv [OF r]) (use Cons.prems(2) in simp)
  then obtain b t where t: "add_node c (nc_id y) (nc_addr y) (cw_routing s) = Some (b, t)"
      "run_inv_of our (dc_max_candidate_nodes cf) t"
    by (auto simp: ensures_iff add_node_def)
  have "core cf our n x f (s\<lparr>cw_routing := t\<rparr>)" using core_routing [OF _ t(2)] Cons.prems(1) by (simp add: ks)
  then show ?case using Cons.IH [of "(if b then k + 1 else k, s\<lparr>cw_routing := t\<rparr>)"] Cons.prems(2) by (simp add: ks t(1))
qed (simp add: ensures_iff)

lemma core_seed:
  assumes "core cf our n x f s" "\<forall>y\<in>set nodes. valid_id (nc_id y)"
  shows "ensures (seed_crawler ev c hashes nodes s) (core cf our n x f)"
proof -
  have "core cf our n x f (snd (seed_info_hashes ev hashes s))"
    unfolding seed_info_hashes_def
    by (rule fold_inv [where I = "\<lambda>ns. core cf our n x f (snd ns)"]) (simp_all add: assms(1) core_seed_hash)
  then have "ensures (seed_nodes c nodes (snd (seed_info_hashes ev hashes s))) (\<lambda>ks. core cf our n x f (snd ks))"
    unfolding seed_nodes_def by (intro core_seed_nodes [OF _ assms(2)]) simp
  then obtain ks where "seed_nodes c nodes (snd (seed_info_hashes ev hashes s)) = Some ks" "core cf our n x f (snd ks)"
    unfolding ensures_iff by blast
  then show ?thesis by (simp add: seed_crawler_def)
qed

end
