(* ===== verification/Crawler_Frame.thy ===== *)
theory Crawler_Frame
  imports Crawler_Safety
begin

text \<open>
  A property of the crawler's state that its elementary updates keep is kept by whole
  handlers: the interface \<open>quiet_frame\<close> for those that leave the cache of announced peers
  alone, and \<open>cache_frame\<close> for all of them.  Two instances: every published discovery is well
  formed and public, and the lookup queue is only extended at its end, so that hashes are
  looked up in the order of their arrival.
\<close>

subsection \<open>Keeping a property when the code does not panic\<close>

definition keeps :: "'a option \<Rightarrow> ('a \<Rightarrow> bool) \<Rightarrow> bool" where
  "keeps m Q = (case m of None \<Rightarrow> True | Some x \<Rightarrow> Q x)"

lemma keeps_simps [simp]: "keeps (Some x) Q = Q x" "keeps None Q"
  by (simp_all add: keeps_def)

lemma keeps_bind: "keeps m P \<Longrightarrow> (\<And>x. P x \<Longrightarrow> keeps (f x) Q) \<Longrightarrow> keeps (Option.bind m f) Q"
  by (cases m) auto

lemma keeps_map: "keeps m (\<lambda>x. Q (f x)) \<Longrightarrow> keeps (map_option f m) Q"
  by (cases m) auto

lemma keeps_SomeD: "keeps m Q \<Longrightarrow> m = Some x \<Longrightarrow> Q x"
  by simp

lemma keeps_fold: "I s \<Longrightarrow> (\<And>x s. I s \<Longrightarrow> keeps (f x s) I) \<Longrightarrow> keeps (fold_opt f xs s) I"
proof (induction xs arbitrary: s)
  case (Cons x xs)
  have "keeps (Option.bind (f x s) (fold_opt f xs)) I"
    by (rule keeps_bind [where P = I]) (rule Cons.prems(2) [OF Cons.prems(1)], rule Cons.IH [OF _ Cons.prems(2)])
  then show ?case by simp
qed simp

lemma keeps_weaken: "keeps m P \<Longrightarrow> (\<And>x. P x \<Longrightarrow> Q x) \<Longrightarrow> keeps m Q"
  by (cases m) auto

text \<open>The clock of an event.\<close>

fun event_at :: "(clock \<Rightarrow> bool) \<Rightarrow> crawler_event \<Rightarrow> bool" where
  "event_at now (Received c data source) = now c"
| "event_at now (DiscoveryTick c) = now c"
| "event_at now (SamplingTick c) = now c"
| "event_at now (RefreshTick c) = now c"
| "event_at now StatsTick = True"

lemma event_at_any [simp]: "event_at (\<lambda>_. True) e"
  by (cases e) simp_all

subsection \<open>The frame\<close>

definition disc_ok :: "dht_config \<Rightarrow> hash_discovery \<Rightarrow> bool" where
  "disc_ok cf d \<longleftrightarrow> hd_info_hash d \<noteq> zero_hash \<and> length (hd_peers d) \<le> dc_max_peers_per_hash cf \<and>
     sorted_wrt (<) (map pc_addr (hd_peers d)) \<and> list_all (\<lambda>p. is_public_endpoint (pc_addr p)) (hd_peers d)"

lemma addr_of_peer_inj: "pc_addr p = pc_addr q \<Longrightarrow> p = (q :: peer_contact)"
  by simp

lemma distinct_remdups_adj_sorted: "sorted xs \<Longrightarrow> distinct (remdups_adj (xs :: 'a::linorder list))"
proof (induction xs rule: remdups_adj.induct)
  case (3 x y xs)
  then show ?case by (cases "x = y") (auto dest: antisym)
qed simp_all

lemma published_peers_ok:
  assumes "list_all (\<lambda>p. is_public_endpoint (pc_addr p)) peers" "h \<noteq> zero_hash"
  shows "disc_ok cf \<lparr>hd_info_hash = h, hd_peers = take (dc_max_peers_per_hash cf) (remdups_adj (sort_key pc_addr peers)),
    hd_source = source\<rparr>"
proof -
  let ?s = "sort_key pc_addr peers"
  have r: "map pc_addr (remdups_adj ?s) = remdups_adj (map pc_addr ?s)"
    by (rule remdups_adj_map_injective [symmetric]) (rule injI, simp)
  have "sorted_wrt (<) (remdups_adj (map pc_addr ?s))"
    by (simp add: strict_sorted_iff sorted_remdups_adj distinct_remdups_adj_sorted)
  then have "sorted_wrt (<) (map pc_addr (take (dc_max_peers_per_hash cf) (remdups_adj ?s)))"
    unfolding take_map [symmetric] r by (rule sorted_wrt_take)
  then show ?thesis using assms by (auto simp: disc_ok_def list_all_iff dest: in_set_takeD)
qed

lemma announced_public:
  assumes "is_public_endpoint source" "announce_port a source = Some port"
  shows "is_public_endpoint (SocketAddrV4 (sa_ip source) port)"
proof -
  have "(ucast (k :: 64 word) :: u16) \<noteq> 0" if "1 \<le> sint k" "sint k \<le> 65535" for k
  proof
    assume "(ucast k :: u16) = 0"
    then have "uint (ucast k :: u16) = 0" by simp
    then have "uint k mod 65536 = 0" by (simp add: unsigned_ucast_eq take_bit_eq_mod)
    moreover have "uint k = sint k" using that by (simp add: uint_sint take_bit_int_eq_self)
    ultimately have "sint k mod 65536 = 0" by simp
    moreover have "sint k mod 65536 = sint k" using that by (intro mod_pos_pos_trivial) linarith+
    ultimately show False using that by simp
  qed
  then show ?thesis using assms
    by (auto simp: is_public_endpoint_def announce_port_def Let_def split: if_splits option.splits krpc_value.splits)
qed

locale quiet_frame =
  fixes I :: "crawler \<Rightarrow> bool"
  assumes quiet: "I s \<Longrightarrow> (\<And>d b. x \<noteq> Discovery d b) \<Longrightarrow> I (put_out x s)"
    and published: "I s \<Longrightarrow> disc_ok (cw_config s) d \<Longrightarrow> I (put_out (Discovery d b) s)"
    and enqueued: "I s \<Longrightarrow> I (s\<lparr>cw_discovery_queue := cw_discovery_queue s @ [h],
        cw_discovery_set := insert h (cw_discovery_set s)\<rparr>)"
    and metrics: "I (s\<lparr>cw_metrics := a0\<rparr>) = I s"
    and lookups: "I (s\<lparr>cw_lookups := a1\<rparr>) = I s"
    and routing: "I (s\<lparr>cw_routing := a2\<rparr>) = I s"
    and provisional: "I (s\<lparr>cw_provisional := a3\<rparr>) = I s"
    and pending: "I (s\<lparr>cw_pending_rpcs := a4\<rparr>) = I s"
    and retired: "I (s\<lparr>cw_retired := a5\<rparr>) = I s"
    and eligible: "I (s\<lparr>cw_sample_eligible_at := a6\<rparr>) = I s"
    and sent: "I (s\<lparr>cw_queries_sent := a8\<rparr>) = I s"
    and found: "I (s\<lparr>cw_info_hashes_found := a9\<rparr>) = I s"
    and round: "I (s\<lparr>cw_sampling_round_id := a10\<rparr>) = I s"
    and counter: "I (s\<lparr>cw_next_tx := a11\<rparr>) = I s"
begin

lemmas fields [simp] = metrics lookups routing provisional pending retired eligible sent found round counter

lemma f_metrics [simp]: "I (on_metrics g s) = I s"
  by (simp add: on_metrics_def)

lemma f_emit [intro]: "I s \<Longrightarrow> I (emit_stat e s)"
  by (simp add: emit_stat_def quiet)

lemma f_on_lookups [simp]: "I (on_lookups g s) = I s"
proof -
  have "s\<lparr>cw_lookups := a, cw_metrics := b\<rparr> = s\<lparr>cw_lookups := a\<rparr>\<lparr>cw_metrics := b\<rparr>" for a b by simp
  then have "I (s\<lparr>cw_lookups := a, cw_metrics := b\<rparr>) = I s" for a b by (metis lookups metrics)
  then show ?thesis by (simp add: on_lookups_def split: prod.split)
qed

lemma f_unsent [simp]: "I (unsent l s) = I s"
  by (simp add: unsent_def)

lemma f_queue_hash [intro]: "I s \<Longrightarrow> I (snd (queue_hash h s))"
  by (simp add: queue_hash_def Let_def enqueued)

lemma f_publish [intro]:
  assumes "I s" "list_all (\<lambda>p. is_public_endpoint (pc_addr p)) peers"
  shows "I (publish_discovery ev h peers source s)"
proof (cases "h = zero_hash")
  case True
  then show ?thesis using assms(1) by (simp add: publish_discovery_def record_hash_observation_def)
next
  case False
  define s1 where "s1 = s\<lparr>cw_info_hashes_found := min (cw_info_hashes_found s + 1) USIZE_MAX\<rparr>"
  define d where "d = \<lparr>hd_info_hash = h, hd_peers = take (dc_max_peers_per_hash (cw_config s))
    (remdups_adj (sort_key pc_addr peers)), hd_source = source\<rparr>"
  have c: "cw_config (snd (queue_hash h s1)) = cw_config s"
    by (simp add: queue_hash_def Let_def on_metrics_def s1_def)
  have "I (snd (queue_hash h s1))" using assms(1) by (intro f_queue_hash) (simp add: s1_def)
  then have p: "I (put_out (Discovery d b) (snd (queue_hash h s1)))" for b
    by (rule published) (simp add: c d_def published_peers_ok [OF assms(2) False])
  have dp: "hd_peers d = take (dc_max_peers_per_hash (cw_config s)) (remdups_adj (sort_key pc_addr peers))"
    by (simp add: d_def)
  have cs: "cw_config s1 = cw_config s" by (simp add: s1_def)
  have "publish_discovery ev h peers source s =
    (let s2 = snd (queue_hash h s1); b = ev_accept ev (cw_out s2);
         s3 = emit_stat (HashObserved h source (hd_peers d \<noteq> []) b (length (hd_peers d))) (put_out (Discovery d b) s2)
     in if \<not> b then emit_stat DiscoveryBackpressure s3 else s3)"
    using False unfolding publish_discovery_def record_hash_observation_def enqueue_discovery_def Let_def
    by (simp only: if_False prod.case bool.case s1_def [symmetric] cs d_def [symmetric] hash_discovery.simps dp simp_thms)
  then show ?thesis using p by (auto simp: Let_def)
qed

lemma f_remember [simp]: "I (remember_provisional c source i s) = I s"
  by (simp add: remember_provisional_def Let_def)

lemma f_retire [simp]: "I (retire c k s) = I s"
  by (simp add: retire_def)

lemma f_fail [intro]: "I s \<Longrightarrow> keeps (fail_contact c e s) I"
  by (auto simp: fail_contact_def intro!: keeps_map split: option.split) (simp add: keeps_def split: option.split)

lemma f_admit [intro]: "I s \<Longrightarrow> keeps (admit_candidates nodes s) I"
  by (simp add: admit_candidates_def keeps_def split: option.split)

lemma f_send [intro]:
  assumes "I s"
  shows "keeps (map_option snd (send_rpc ev c addr e m target h real budget l s)) I"
proof -
  obtain r s1 where a: "allocate_transaction s = (r, s1)" by fastforce
  have s1: "I s1" using assms a by (auto simp: allocate_transaction_def split: if_splits prod.splits)
  show ?thesis
  proof (cases r)
    case None
    then show ?thesis using a s1 by (auto simp: send_rpc_def)
  next
    case (Some tx)
    let ?k = "transaction_id_bytes tx"
    show ?thesis
    proof (cases "krpc_to_bytes (ev_enc ev) (query_message m (cw_our_id s1) target tx)")
      case (Some bs)
      have "I (put_out (Datagram addr bs b) (s1\<lparr>cw_pending_rpcs := P\<rparr>))" for b P
        by (rule quiet) (simp_all add: s1)
      then show ?thesis using a \<open>r = Some tx\<close> Some unfolding send_rpc_def Let_def by (simp add: Let_def)
    qed (use a Some in \<open>simp add: send_rpc_def Let_def\<close>)
  qed
qed

lemma f_send_all [intro]:
  "I s \<Longrightarrow> keeps (fold_opt (\<lambda>node s. map_option snd (send_rpc ev c (nc_addr node) (Some (nc_id node)) m
    target h real budget l s)) nodes s) I"
  by (rule keeps_fold) (auto intro: f_send)

lemma f_bootstrap [intro]: "I s \<Longrightarrow> keeps (bootstrap ev c s) I"
  unfolding bootstrap_def by (rule keeps_fold) (auto split: option.split intro: f_send)

lemma f_expire_one [intro]: "I s \<Longrightarrow> keeps (expire_one c k s) I"
proof (cases "map_of (cw_pending_rpcs s) k")
  case (Some p)
  assume s: "I s"
  have "keeps (fail_contact c (pr_expected_node_id p)
      (retire c k (s\<lparr>cw_pending_rpcs := AList.delete k (cw_pending_rpcs s)\<rparr>))) I"
    by (rule f_fail) (simp add: s)
  then show ?thesis unfolding expire_one_def Some option.case Let_def
    by (rule keeps_bind) (auto intro!: f_emit f_queue_hash split: option.split)
qed (simp add: expire_one_def)

lemma f_expire_pending [intro]: "I s \<Longrightarrow> keeps (expire_pending c s) I"
  unfolding expire_pending_def Let_def by (rule keeps_fold) auto

lemma f_continue [intro]:
  "I s \<Longrightarrow> keeps (continue_find_node ev c nodes p s) I"
  "I s \<Longrightarrow> keeps (continue_get_peers ev c h nodes p s) I"
  by (auto simp: continue_find_node_def continue_get_peers_def)

lemma f_accept_samples [intro]:
  assumes "I s"
  shows "keeps (accept_samples ev c msg source s) I"
proof (cases "parse_sample_infohashes_response c msg (dc_max_samples_per_response (cw_config s))")
  case (Inl e)
  then show ?thesis using assms by (auto simp: accept_samples_def)
next
  case (Inr r)
  have "I (fold (\<lambda>h s. emit_stat (SampleObserved h (sr_node_id r) source (cw_sampling_round_id s))
      (publish_discovery ev h [] SampleInfohashes s)) hs s2)" if "I s2" for hs s2
    by (rule fold_inv [where I = I, OF that]) (intro f_emit f_publish, simp_all)
  then show ?thesis unfolding accept_samples_def Inr sum.case Let_def
    by (intro keeps_bind [OF f_admit]) (auto simp: assms)
qed

lemma f_handle_error [intro]:
  assumes "I s"
  shows "keeps (handle_error c msg source s) I"
proof (cases "map_of (cw_pending_rpcs s) (transaction_id msg)")
  case (Some p)
  have "keeps (fail_contact c (pr_expected_node_id p) (retire c (transaction_id msg)
      (s\<lparr>cw_pending_rpcs := AList.delete (transaction_id msg) (cw_pending_rpcs s)\<rparr>))) I"
    by (rule f_fail) (simp add: assms)
  then have "keeps (Option.bind (fail_contact c (pr_expected_node_id p) (retire c (transaction_id msg)
      (s\<lparr>cw_pending_rpcs := AList.delete (transaction_id msg) (cw_pending_rpcs s)\<rparr>)))
      (\<lambda>s. Some (emit_stat RpcAnswered (case pr_lookup_id p of None \<Rightarrow> s | Some i \<Rightarrow> on_lookups (lookup_failure i) s)))) I"
    by (rule keeps_bind) (auto intro!: f_emit split: option.split)
  then show ?thesis using assms f_emit [OF assms] unfolding handle_error_def Let_def Some option.case by simp
qed (use assms in \<open>auto simp: handle_error_def\<close>)

lemma f_start_lookup [intro]:
  assumes "I s"
  shows "keeps (start_lookup ev c h real nodes s) I"
proof -
  obtain l s1 where b: "(if real then map_prod Some (\<lambda>t. s\<lparr>cw_lookups := t\<rparr>) (lookup_begin (cw_lookups s))
      else (None, s)) = (l, s1)" by fastforce
  have "I s1" using b assms by (cases "lookup_begin (cw_lookups s)") (auto split: if_splits)
  then show ?thesis unfolding start_lookup_def b prod.case
    by (intro keeps_bind [OF f_send_all]) (auto split: option.split)
qed

lemma f_look_up [intro]: "I s \<Longrightarrow> keeps (look_up ev c h real s) I"
  by (auto simp: look_up_def Let_def intro!: f_bootstrap f_start_lookup f_queue_hash)

lemma f_sample [intro]: "I s \<Longrightarrow> keeps (sample_random_nodes ev c s) I"
  unfolding sample_random_nodes_def Let_def by (rule keeps_fold) (auto simp: sample_one_def Let_def)

end

text \<open>
  The handlers that touch the cache of announced peers lead from one property to another: \<open>I\<close>
  holds until the cache is written, \<open>I'\<close> afterwards.  \<open>now\<close> says at which clocks events occur.
\<close>

locale cache_frame = before: quiet_frame I + after: quiet_frame I' for I I' :: "crawler \<Rightarrow> bool" +
  fixes ev :: crawler_env and now :: "clock \<Rightarrow> bool"
  assumes still: "I s \<Longrightarrow> I' s"
    and cached: "now c \<Longrightarrow> I' s \<Longrightarrow> I' (cache_peer ev c h peer s)"
    and expired: "now c \<Longrightarrow> I s \<Longrightarrow> I' (expire_peer_cache c s)"
begin

lemma f_answer_query [intro]:
  assumes "I s" "is_public_endpoint source" "now c"
  shows "I' (snd (answer_query ev c q a t source s))"
proof -
  have g: "I' (snd (get_peers_response ev c a t source s))"
    using assms still by (auto simp: get_peers_response_def Let_def intro!: expired before.f_publish split: option.split)
  have "I' (snd (announce_peer_response ev c a t source s))"
    using assms announced_public still
    by (auto simp: announce_peer_response_def Let_def intro!: after.f_publish cached split: option.split)
  with g still [OF assms(1)] show ?thesis by (simp add: answer_query_def Let_def)
qed

lemma f_handle_query [intro]:
  assumes "I s" "now c"
  shows "keeps (handle_query ev c (Query t y q a extra) source s) I'"
proof (cases "is_public_endpoint source")
  case True
  let ?m = "Query t y q a extra"
  define s1 where "s1 = (case extract_node_id ?m of None \<Rightarrow> s | Some i \<Rightarrow> remember_provisional c source i s)"
  have "I s1" using assms(1) by (auto simp: s1_def split: option.split)
  obtain response s3 where a: "answer_query ev c q a t source s1 = (response, s3)" by fastforce
  have "I' s3" using f_answer_query [OF \<open>I s1\<close> True assms(2), of q a t] a by simp
  then have "I' (put_out (Datagram source bs b) s3)" for bs b by (rule after.quiet) simp
  then show ?thesis using True a unfolding handle_query_def krpc_message.case Let_def s1_def [symmetric]
    by (cases "krpc_to_bytes (ev_enc ev) response") simp_all
qed (use assms still in \<open>simp add: handle_query_def\<close>)

lemma f_accept_get_peers [intro]:
  assumes "I s" "now c"
  shows "keeps (accept_get_peers ev c msg p s) I'"
proof -
  obtain peers nodes where parse: "parse_get_peers_response c msg = (peers, nodes)" by fastforce
  have pub: "list_all (\<lambda>p. is_public_endpoint (pc_addr p)) peers"
    using get_peers_response_ok(1) [OF parse] by (simp add: list_all_iff)
  have fold: "I' (fold (cache_peer ev c h) ps s1)" if "I' s1" for h ps s1
    by (rule fold_inv [where I = I', OF that]) (rule cached [OF assms(2)])
  have mid: "keeps (case pr_info_hash p of None \<Rightarrow> Some s1
      | Some h \<Rightarrow> continue_get_peers ev c h nodes p
          (if peers \<noteq> [] \<or> pr_is_real_lookup p
           then publish_discovery ev h peers OutboundGetPeers (fold (cache_peer ev c h) peers s1)
           else fold (cache_peer ev c h) peers s1)) I'" if "I' s1" for s1
  proof (cases "pr_info_hash p")
    case (Some h)
    have "I' (if peers \<noteq> [] \<or> pr_is_real_lookup p
           then publish_discovery ev h peers OutboundGetPeers (fold (cache_peer ev c h) peers s1)
           else fold (cache_peer ev c h) peers s1)"
      using after.f_publish [OF fold [OF that] pub] fold [OF that] by (simp only: simp_thms split: if_split)
    then show ?thesis unfolding Some option.case by (rule after.f_continue)
  qed (use that in simp)
  show ?thesis unfolding accept_get_peers_def parse prod.case Let_def
  proof (rule keeps_bind [where P = I])
    show "keeps (admit_candidates nodes (on_metrics (record_get_peers_response (peers \<noteq> [])) s)) I"
      by (rule before.f_admit) (simp add: assms)
    fix s1 assume "I s1"
    then have "I' s1" by (rule still)
    then show "keeps (Option.bind (case pr_info_hash p of None \<Rightarrow> Some s1
        | Some h \<Rightarrow> continue_get_peers ev c h nodes p
            (if peers \<noteq> [] \<or> pr_is_real_lookup p
             then publish_discovery ev h peers OutboundGetPeers (fold (cache_peer ev c h) peers s1)
             else fold (cache_peer ev c h) peers s1))
        (\<lambda>s. Some (case pr_lookup_id p of None \<Rightarrow> s | Some i \<Rightarrow> on_lookups (lookup_respond i (peers \<noteq> [])) s))) I'"
      by (rule keeps_bind [OF mid]) (simp split: option.split)
  qed
qed

lemma f_accept_response [intro]:
  assumes "I s" "now c"
  shows "keeps (accept_response ev c msg source p i s) I'"
  unfolding accept_response_def
proof (rule keeps_bind [where P = "\<lambda>_. True"])
  show "keeps (mark_validated c i source (cw_routing s)) (\<lambda>_. True)" by (simp add: keeps_def split: option.split)
  fix bt :: "bool \<times> routing_table"
  obtain b t where bt: "bt = (b, t)" by (cases bt)
  define s1 where "s1 = emit_stat RpcAnswered (emit_stat (DhtNodeSeen i source)
    (s\<lparr>cw_routing := t, cw_provisional := AList.delete source (cw_provisional s)\<rparr>))"
  have "I s1" unfolding s1_def by (intro before.f_emit) (simp add: assms)
  then show "keeps (case bt of (uu_, t) \<Rightarrow>
      let s = s\<lparr>cw_routing := t, cw_provisional := AList.delete source (cw_provisional s)\<rparr>;
          s = emit_stat (DhtNodeSeen i source) s; s = emit_stat RpcAnswered s
      in case pr_method p of Ping \<Rightarrow> Some s
         | FindNode \<Rightarrow> (let nodes = response_nodes c msg in do {
                s \<leftarrow> admit_candidates nodes s; continue_find_node ev c nodes p s })
         | GetPeers \<Rightarrow> accept_get_peers ev c msg p s
         | SampleHashes \<Rightarrow> accept_samples ev c msg source s) I'"
    unfolding bt prod.case Let_def s1_def [symmetric]
    using still assms(2)
    by (cases "pr_method p")
      (auto intro!: keeps_bind [OF before.f_admit] keeps_weaken [OF before.f_continue(1)] keeps_weaken [OF before.f_accept_samples])
qed

lemma f_handle_response [intro]:
  assumes "I s" "now c"
  shows "keeps (handle_response ev c msg source s) I'"
proof -
  obtain P r where corr: "correlate_response (cw_pending_rpcs s) msg source = (P, r)" by fastforce
  have "I (s\<lparr>cw_pending_rpcs := P\<rparr>)" using assms by simp
  moreover have "I (emit_stat RpcMalformed (retire c k (s\<lparr>cw_pending_rpcs := P\<rparr>)))" for k
    by (rule before.f_emit) (simp add: assms)
  ultimately show ?thesis unfolding handle_response_def Let_def corr prod.case
    using still assms by (auto intro!: still before.f_emit f_accept_response split: sum.split correlation_error.split option.split)
qed

lemma f_handle_packet [intro]: "I s \<Longrightarrow> now c \<Longrightarrow> keeps (handle_packet ev c data source s) I'"
  using still
  by (auto simp: handle_packet_def intro!: still before.f_emit keeps_weaken [OF before.f_handle_error]
      split: sum.split krpc_message.split)

lemma f_step:
  assumes "I s" "event_at now e" "\<And>c. e \<noteq> DiscoveryTick c"
  shows "keeps (crawler_step ev e s) I'"
proof (cases e)
  case (RefreshTick c)
  have "keeps (map_option (expire_peer_cache c) (expire_pending c s)) I'"
    by (rule keeps_map, rule keeps_weaken [OF before.f_expire_pending [OF assms(1)]])
      (use assms(2) RefreshTick expired in auto)
  then show ?thesis using RefreshTick by simp
qed (use assms still in \<open>auto intro!: still before.f_emit keeps_weaken [OF before.f_sample]\<close>)

end


subsection \<open>What is published\<close>

definition outputs_ok :: "dht_config \<Rightarrow> crawler \<Rightarrow> bool" where
  "outputs_ok cf s \<longleftrightarrow> cw_config s = cf \<and> (\<forall>d b. Discovery d b \<in> set (cw_out s) \<longrightarrow> disc_ok cf d)"

interpretation pub: cache_frame "outputs_ok cf" "outputs_ok cf" ev "\<lambda>_. True" for cf ev
  by unfold_locales (auto simp: outputs_ok_def put_out_def cache_peer_def expire_peer_cache_def Let_def)

lemma outputs_ok_next_hash: "outputs_ok cf s \<Longrightarrow> outputs_ok cf (snd (next_hash ev s))"
  by (auto simp: outputs_ok_def next_hash_def split: list.split)

lemma outputs_ok_step: "outputs_ok cf s \<Longrightarrow> keeps (crawler_step ev e s) (outputs_ok cf)"
proof (cases e)
  case (DiscoveryTick c)
  assume s: "outputs_ok cf s"
  have "keeps (case next_hash ev s1 of ((h, real), s2) \<Rightarrow> look_up ev c h real s2) (outputs_ok cf)"
    if "outputs_ok cf s1" for s1
    using pub.before.f_look_up [of cf "snd (next_hash ev s1)"] outputs_ok_next_hash [OF that, of ev]
    by (auto split: prod.split)
  then have "keeps (discover_peers ev c s) (outputs_ok cf)"
    unfolding discover_peers_def by (rule keeps_bind [OF pub.before.f_expire_pending [OF s]])
  then show ?thesis using DiscoveryTick by simp
qed (rule pub.f_step, assumption, rule event_at_any, simp)+

lemma outputs_ok_seed: "outputs_ok cf s \<Longrightarrow> keeps (seed_crawler ev c hashes nodes s) (outputs_ok cf)"
proof -
  assume s: "outputs_ok cf s"
  have hash: "outputs_ok cf (snd (seed_hash ev h ns))" if "outputs_ok cf (snd ns)" for h ns
  proof -
    obtain a u where ns: "ns = (a, u)" by fastforce
    obtain q u1 where q: "queue_hash h u = (q, u1)" by fastforce
    have u1: "outputs_ok cf u1" using pub.before.f_queue_hash [of cf u h] that q by (simp add: ns)
    have "h \<noteq> zero_hash" if "q = Accepted"
      using q that by (auto simp: queue_hash_def Let_def split: if_splits)
    then have "disc_ok cf \<lparr>hd_info_hash = h, hd_peers = [], hd_source = Resume\<rparr>" if "q = Accepted"
      using that by (simp add: disc_ok_def)
    then have "outputs_ok cf (put_out (Discovery \<lparr>hd_info_hash = h, hd_peers = [], hd_source = Resume\<rparr> b) u1)" if "q = Accepted" for b
      using u1 that by (auto simp: outputs_ok_def put_out_def)
    then show ?thesis using u1
      by (simp add: seed_hash_def ns q Let_def pub.before.f_emit split: queue_admission.split)
  qed
  have "outputs_ok cf (snd (seed_info_hashes ev hashes s))"
    unfolding seed_info_hashes_def
    by (rule fold_inv [where I = "\<lambda>ns. outputs_ok cf (snd ns)"]) (simp_all add: s hash)
  moreover have "keeps (seed_nodes c nodes u) (\<lambda>r. outputs_ok cf (snd r))" if "outputs_ok cf u" for u
    unfolding seed_nodes_def
    by (rule keeps_fold) (use that in \<open>auto simp: keeps_def split: option.split prod.split bind_split\<close>)
  ultimately show ?thesis unfolding seed_crawler_def by (intro keeps_map) simp
qed

subsection \<open>The order of the queue\<close>

definition extends :: "info_hash list \<Rightarrow> crawler \<Rightarrow> bool" where
  "extends q s \<longleftrightarrow> (\<exists>more. cw_discovery_queue s = q @ more)"

interpretation ext: cache_frame "extends q" "extends q" ev "\<lambda>_. True" for q ev
  by unfold_locales (auto simp: extends_def put_out_def cache_peer_def expire_peer_cache_def Let_def)

lemma extends_refl [simp]: "extends (cw_discovery_queue s) s"
  by (simp add: extends_def)

lemma discover_expires:
  "discover_peers ev c s = Some s' \<Longrightarrow> \<exists>s1. expire_pending c s = Some s1 \<and> extends (cw_discovery_queue s) s1 \<and>
     extends (tl (cw_discovery_queue s1)) s'"
proof -
  assume d: "discover_peers ev c s = Some s'"
  then obtain s1 where s1: "expire_pending c s = Some s1"
      "(case next_hash ev s1 of ((h, real), s2) \<Rightarrow> look_up ev c h real s2) = Some s'"
    by (auto simp: discover_peers_def bind_eq_Some_conv)
  have e: "extends (cw_discovery_queue s) s1"
    by (rule keeps_SomeD [OF ext.before.f_expire_pending s1(1)]) simp
  obtain h real s2 where h: "next_hash ev s1 = ((h, real), s2)" by (metis surj_pair)
  have q: "cw_discovery_queue s2 = tl (cw_discovery_queue s1)"
    using h by (auto simp: next_hash_def split: list.splits)
  have "extends (cw_discovery_queue s2) s'"
    by (rule keeps_SomeD [OF ext.before.f_look_up]) (use s1(2) h in auto)
  then show ?thesis using s1(1) e q by auto
qed

lemma extends_step: "crawler_step ev e s = Some s' \<Longrightarrow> (\<And>c. e \<noteq> DiscoveryTick c) \<Longrightarrow> extends (cw_discovery_queue s) s'"
  by (rule keeps_SomeD [OF ext.f_step]) auto

end
