(* ===== verification/Crawler_Serving.thy ===== *)
theory Crawler_Serving
  imports Crawler_Frame
begin

text \<open>
  The life of an announced peer in the cache: every event keeps it until its time to live is
  over, unless room had to be made for other peers.
\<close>

subsection \<open>Room in the cache\<close>

definition cache_full :: "dht_config \<Rightarrow> info_hash \<Rightarrow> (info_hash \<times> cached_peer list) list \<Rightarrow> bool" where
  "cache_full cf h C \<longleftrightarrow> dc_announced_peer_hash_capacity cf \<le> length C \<or>
     (\<exists>ps. map_of C h = Some ps \<and> dc_announced_peers_per_hash cf \<le> length ps)"

definition has_room :: "dht_config \<Rightarrow> info_hash \<Rightarrow> crawler \<Rightarrow> bool" where
  "has_room cf h s \<longleftrightarrow> \<not> cache_full cf h (cw_peer_cache s)"

definition holds_until :: "instant \<Rightarrow> info_hash \<Rightarrow> peer_contact \<Rightarrow> (info_hash \<times> cached_peer list) list \<Rightarrow> bool" where
  "holds_until t h peer C \<longleftrightarrow> (\<exists>ps. map_of C h = Some ps \<and> (\<exists>p\<in>set ps. cp_peer p = peer \<and> t \<le> cp_expires_at p))"

lemma map_of_expired:
  assumes "distinct (keys m)" "map_of m h = Some ps" "filter f ps \<noteq> []"
  shows "map_of (filter (\<lambda>(h, peers). peers \<noteq> []) (map (\<lambda>(h, peers). (h, filter f peers)) m)) h = Some (filter f ps)"
  using assms by (induction m) auto

lemma holds_expire:
  assumes "cache_ok cf (cw_peer_cache s)" "holds_until t h peer (cw_peer_cache s)" "ck_now c < t"
  shows "holds_until t h peer (cw_peer_cache (expire_peer_cache c s))"
proof -
  let ?f = "\<lambda>p. ck_now c < cp_expires_at p"
  obtain ps p where p: "map_of (cw_peer_cache s) h = Some ps" "p \<in> set ps" "cp_peer p = peer" "t \<le> cp_expires_at p"
    using assms(2) by (auto simp: holds_until_def)
  have f: "p \<in> set (filter ?f ps)" using p assms(3) by simp
  then have "filter ?f ps \<noteq> []" by (metis empty_iff list.set(1))
  from map_of_expired [OF _ p(1) this] assms(1)
  have "map_of (cw_peer_cache (expire_peer_cache c s)) h = Some (filter ?f ps)"
    by (simp add: expire_peer_cache_def cache_ok_def)
  then show ?thesis using f p(3,4) unfolding holds_until_def by blast
qed

text \<open>The cache entry of one hash and the room made for a new one, as \<open>cache_peer\<close> writes them.\<close>

definition peer_put :: "dht_config \<Rightarrow> clock \<Rightarrow> peer_contact \<Rightarrow> cached_peer list \<Rightarrow> cached_peer list" where
  "peer_put cf c peer ps =
     (let ps = filter (\<lambda>cached. cp_peer cached \<noteq> peer) ps
      in (if dc_announced_peers_per_hash cf \<le> length ps then tl ps else ps) @
         [\<lparr>cp_peer = peer, cp_expires_at = ck_now c + dc_announced_peer_ttl cf\<rparr>])"

definition room_made :: "crawler_env \<Rightarrow> dht_config \<Rightarrow> info_hash \<Rightarrow> (info_hash \<times> cached_peer list) list \<Rightarrow>
    (info_hash \<times> cached_peer list) list" where
  "room_made ev cf h C =
     (if map_of C h = None \<and> dc_announced_peer_hash_capacity cf \<le> length C
      then (if C = [] then C else AList.delete (ev_any_key ev (keys C)) C) else C)"

lemma cache_peer_writes:
  assumes "cw_config s = cf"
  shows "cw_peer_cache (cache_peer ev c h peer s) =
    (if dc_announced_peer_hash_capacity cf = 0 \<or> dc_announced_peers_per_hash cf = 0 then cw_peer_cache s
     else AList.update h (peer_put cf c peer
       (case map_of (room_made ev cf h (cw_peer_cache s)) h of None \<Rightarrow> [] | Some ps \<Rightarrow> ps))
       (room_made ev cf h (cw_peer_cache s)))"
proof (cases "dc_announced_peer_hash_capacity cf = 0 \<or> dc_announced_peers_per_hash cf = 0")
  case True
  then show ?thesis using assms by (simp add: cache_peer_def)
next
  case False
  show ?thesis unfolding cache_peer_def Let_def assms if_not_P [OF False] room_made_def [symmetric]
    by (simp add: peer_put_def Let_def)
qed

lemma length_filter_one:
  "distinct (map g xs) \<Longrightarrow> length xs \<le> Suc (length (filter (\<lambda>x. g x \<noteq> a) xs))"
proof (induction xs)
  case (Cons x xs)
  show ?case
  proof (cases "g x = a")
    case True
    then have "filter (\<lambda>x. g x \<noteq> a) xs = xs" using Cons.prems by (auto simp: filter_id_conv image_iff)
    then show ?thesis using True by simp
  qed (use Cons in simp)
qed simp

lemma length_delete_one: "distinct (keys C) \<Longrightarrow> length C \<le> Suc (length (AList.delete k C))"
  using length_filter_one [of fst C k] by (simp add: AList.delete_eq case_prod_unfold eq_commute)

lemma full_table_stays:
  assumes "distinct (keys C)" "dc_announced_peer_hash_capacity cf \<le> length C"
  shows "dc_announced_peer_hash_capacity cf \<le> length (AList.update h X (room_made ev cf h C))"
proof (cases "map_of C h = None")
  case True
  let ?D = "room_made ev cf h C"
  have "set ?D \<subseteq> set C" by (auto simp: room_made_def AList.delete_eq)
  then have "h \<notin> set (keys ?D)" using True by (auto simp: map_of_eq_None_iff)
  moreover have "length C \<le> Suc (length ?D)"
    using length_delete_one [OF assms(1)] by (simp add: room_made_def)
  ultimately show ?thesis using assms(2) by (simp add: length_update)
next
  case False
  then show ?thesis using assms(2) by (auto simp: room_made_def length_update)
qed

lemma peer_put_full:
  assumes "distinct (map cp_peer ps)" "dc_announced_peers_per_hash cf \<le> length ps" "dc_announced_peers_per_hash cf \<noteq> 0"
  shows "dc_announced_peers_per_hash cf \<le> length (peer_put cf c peer ps)"
  using length_filter_one [OF assms(1), of peer] assms(2,3) by (simp add: peer_put_def Let_def) linarith

lemma peer_put_holds:
  assumes "p \<in> set ps" "cp_peer p = peer" "t \<le> cp_expires_at p" "t \<le> ck_now c + dc_announced_peer_ttl cf"
  shows "(\<exists>q\<in>set (peer_put cf c peer' ps). cp_peer q = peer \<and> t \<le> cp_expires_at q) \<or>
    dc_announced_peers_per_hash cf \<le> length (peer_put cf c peer' ps)"
proof (cases "peer' = peer")
  case True
  then show ?thesis using assms(4) by (simp add: peer_put_def Let_def)
next
  case False
  let ?ps = "filter (\<lambda>cached. cp_peer cached \<noteq> peer') ps"
  have p: "p \<in> set ?ps" using assms(1,2) False by auto
  show ?thesis
  proof (cases "dc_announced_peers_per_hash cf \<le> length ?ps")
    case True
    moreover have "length (tl ?ps @ [x]) = length ?ps" for x using p by (cases ?ps) auto
    ultimately show ?thesis by (simp add: peer_put_def Let_def)
  next
    case not_full: False
    then show ?thesis using p assms(2,3) by (auto simp: peer_put_def Let_def)
  qed
qed

text \<open>Caching any peer keeps the announced one, or leaves no room.\<close>

lemma cache_peer_holds:
  assumes ok: "cache_ok cf (cw_peer_cache s)" and cfg: "cw_config s = cf"
    and t: "t \<le> ck_now c + dc_announced_peer_ttl cf"
    and h: "holds_until t h peer (cw_peer_cache s) \<or> cache_full cf h (cw_peer_cache s)"
  shows "holds_until t h peer (cw_peer_cache (cache_peer ev c h' peer' s)) \<or>
    cache_full cf h (cw_peer_cache (cache_peer ev c h' peer' s))"
proof (cases "dc_announced_peer_hash_capacity cf = 0 \<or> dc_announced_peers_per_hash cf = 0")
  case True
  then show ?thesis using h by (simp add: cache_peer_writes [OF cfg])
next
  case False
  let ?C = "cw_peer_cache s" and ?P = "dc_announced_peers_per_hash cf" and ?cap = "dc_announced_peer_hash_capacity cf"
  have d: "distinct (keys ?C)" using ok by (simp add: cache_ok_def)
  note w = cache_peer_writes [OF cfg, of ev c h' peer', unfolded if_not_P [OF False]]
  show ?thesis
  proof (cases "?cap \<le> length ?C")
    case True
    then show ?thesis unfolding w cache_full_def using full_table_stays [OF d] by blast
  next
    case room: False
    then have D: "room_made ev cf h' ?C = ?C" by (simp add: room_made_def)
    show ?thesis
    proof (cases "h = h'")
      case False
      then show ?thesis using h room unfolding w D holds_until_def cache_full_def by (auto simp: update_conv')
    next
      case True
      obtain ps where ps: "map_of ?C h = Some ps"
        "(\<exists>p\<in>set ps. cp_peer p = peer \<and> t \<le> cp_expires_at p) \<or> ?P \<le> length ps"
        using h room unfolding holds_until_def cache_full_def by blast
      have new: "map_of (AList.update h' (peer_put cf c peer' ps) ?C) h = Some (peer_put cf c peer' ps)"
        using True by (simp add: update_conv')
      have "distinct (map cp_peer ps)" using ok map_of_SomeD [OF ps(1)] by (auto simp: cache_ok_def)
      then have "(\<exists>q\<in>set (peer_put cf c peer' ps). cp_peer q = peer \<and> t \<le> cp_expires_at q) \<or>
          ?P \<le> length (peer_put cf c peer' ps)"
        using ps(2) peer_put_holds [OF _ _ _ t] peer_put_full [of ps cf c peer'] \<open>\<not> (?cap = 0 \<or> ?P = 0)\<close> by blast
      then show ?thesis unfolding w D using new ps(1) True
        unfolding holds_until_def cache_full_def by auto
    qed
  qed
qed

subsection \<open>Every event keeps the peer\<close>

definition serving :: "dht_config \<Rightarrow> node_id \<Rightarrow> bytes \<Rightarrow> crawler \<Rightarrow> bool" where
  "serving cf our secret s \<longleftrightarrow> cw_config s = cf \<and> cw_our_id s = our \<and> cw_token_secret s = secret \<and>
     cache_ok cf (cw_peer_cache s)"

definition peer_kept :: "dht_config \<Rightarrow> node_id \<Rightarrow> bytes \<Rightarrow> instant \<Rightarrow> info_hash \<Rightarrow> peer_contact \<Rightarrow> crawler \<Rightarrow> bool" where
  "peer_kept cf our secret t h peer s \<longleftrightarrow> serving cf our secret s \<and> holds_until t h peer (cw_peer_cache s)"

definition peer_displaced :: "dht_config \<Rightarrow> node_id \<Rightarrow> bytes \<Rightarrow> instant \<Rightarrow> info_hash \<Rightarrow> peer_contact \<Rightarrow> crawler \<Rightarrow> bool" where
  "peer_displaced cf our secret t h peer s \<longleftrightarrow> serving cf our secret s \<and>
     (holds_until t h peer (cw_peer_cache s) \<or> cache_full cf h (cw_peer_cache s))"

lemma cache_peer_frame:
  "cw_config (cache_peer ev c h peer s) = cw_config s" "cw_our_id (cache_peer ev c h peer s) = cw_our_id s"
  "cw_token_secret (cache_peer ev c h peer s) = cw_token_secret s"
  by (simp_all add: cache_peer_def Let_def)

definition alive :: "dht_config \<Rightarrow> instant \<Rightarrow> crawler_env \<Rightarrow> clock \<Rightarrow> bool" where
  "alive cf t ev c \<longleftrightarrow> env_ok ev \<and> ck_now c < t \<and> t \<le> ck_now c + dc_announced_peer_ttl cf"

interpretation kept: cache_frame "peer_kept cf our secret t h peer" "peer_displaced cf our secret t h peer" ev
    "alive cf t ev" for cf our secret t h peer ev
proof unfold_locales
  fix c h' peer' s
  assume a: "alive cf t ev c" and s: "peer_displaced cf our secret t h peer s"
  have sv: "cw_config s = cf" "cache_ok cf (cw_peer_cache s)" "serving cf our secret s"
    using s by (simp_all add: peer_displaced_def serving_def)
  have "serving cf our secret (cache_peer ev c h' peer' s)"
    using sv a cache_ok_peer [OF sv(2,1)] by (simp add: serving_def cache_peer_frame alive_def)
  then show "peer_displaced cf our secret t h peer (cache_peer ev c h' peer' s)"
    using cache_peer_holds [OF sv(2,1)] s a by (simp add: peer_displaced_def alive_def)
next
  fix c s
  assume a: "alive cf t ev c" and s: "peer_kept cf our secret t h peer s"
  have ok: "cache_ok cf (cw_peer_cache s)" and hold: "holds_until t h peer (cw_peer_cache s)"
    using s by (simp_all add: peer_kept_def serving_def)
  have e: "cw_config (expire_peer_cache c s) = cw_config s" "cw_our_id (expire_peer_cache c s) = cw_our_id s"
    "cw_token_secret (expire_peer_cache c s) = cw_token_secret s" by (simp_all add: expire_peer_cache_def)
  show "peer_displaced cf our secret t h peer (expire_peer_cache c s)"
    using s cache_ok_expire [OF ok] holds_expire [OF ok hold] a
    by (simp add: peer_displaced_def peer_kept_def serving_def e alive_def)
qed (auto simp: peer_kept_def peer_displaced_def serving_def put_out_def)

lemma kept_next_hash: "peer_kept cf our secret t h peer s \<Longrightarrow> peer_kept cf our secret t h peer (snd (next_hash ev s))"
  by (auto simp: peer_kept_def serving_def next_hash_def split: list.split)

lemma kept_step:
  assumes "peer_kept cf our secret t h peer s" "event_at (alive cf t ev) e" "crawler_step ev e s = Some s'"
  shows "peer_displaced cf our secret t h peer s'"
proof (cases e)
  case (DiscoveryTick c)
  have "keeps (case next_hash ev s1 of ((h', real), s2) \<Rightarrow> look_up ev c h' real s2) (peer_kept cf our secret t h peer)"
    if "peer_kept cf our secret t h peer s1" for s1
  proof -
    obtain h' real s2 where n: "next_hash ev s1 = ((h', real), s2)" by (metis surj_pair)
    then have "peer_kept cf our secret t h peer s2" using kept_next_hash [OF that, of ev] by simp
    then show ?thesis unfolding n prod.case by (rule kept.before.f_look_up)
  qed
  then have "keeps (discover_peers ev c s) (peer_kept cf our secret t h peer)"
    unfolding discover_peers_def by (rule keeps_bind [OF kept.before.f_expire_pending [OF assms(1)]])
  then show ?thesis using assms(3) DiscoveryTick kept.still by auto
qed (rule keeps_SomeD [OF kept.f_step [OF assms(1,2)] assms(3)]; simp)+

lemma kept_run:
  assumes "peer_kept cf our secret t h peer s" "list_all (event_at (alive cf t ev)) events"
    and "\<forall>k s'. 0 < k \<and> k \<le> length events \<and> fold_opt (crawler_step ev) (take k events) s = Some s' \<longrightarrow> has_room cf h s'"
    and "fold_opt (crawler_step ev) events s = Some s'"
  shows "peer_kept cf our secret t h peer s'"
  using assms
proof (induction events arbitrary: s)
  case (Cons e events)
  obtain s1 where s1: "crawler_step ev e s = Some s1" "fold_opt (crawler_step ev) events s1 = Some s'"
    using Cons.prems(4) by (auto simp: bind_eq_Some_conv)
  have "has_room cf h s1" using Cons.prems(3) [rule_format, of 1 s1] s1(1) by simp
  moreover have "peer_displaced cf our secret t h peer s1"
    by (rule kept_step [OF Cons.prems(1) _ s1(1)]) (use Cons.prems(2) in simp)
  ultimately have k: "peer_kept cf our secret t h peer s1"
    by (simp add: peer_displaced_def peer_kept_def has_room_def)
  show ?case
  proof (rule Cons.IH [OF k _ _ s1(2)])
    show "\<forall>k s'. 0 < k \<and> k \<le> length events \<and> fold_opt (crawler_step ev) (take k events) s1 = Some s' \<longrightarrow> has_room cf h s'"
    proof (intro allI impI)
      fix k s2 assume "0 < k \<and> k \<le> length events \<and> fold_opt (crawler_step ev) (take k events) s1 = Some s2"
      then show "has_room cf h s2" using Cons.prems(3) [rule_format, of "Suc k" s2] s1(1) by simp
    qed
  qed (use Cons.prems(2) in simp)
qed simp

subsection \<open>The announcement and the answer\<close>

lemma peer_cache_frame [simp]:
  "cw_peer_cache (emit_stat e s) = cw_peer_cache s" "cw_peer_cache (put_out x s) = cw_peer_cache s"
  "cw_peer_cache (on_metrics g s) = cw_peer_cache s" "cw_peer_cache (snd (queue_hash h s)) = cw_peer_cache s"
  by (simp_all add: emit_stat_def put_out_def on_metrics_def queue_hash_def Let_def)

lemma peer_cache_publish [simp]: "cw_peer_cache (publish_discovery ev h peers source s) = cw_peer_cache s"
  by (cases "record_hash_observation (cw_info_hashes_found s) h")
    (simp add: publish_discovery_def enqueue_discovery_def Let_def split: bool.split)

lemma cache_peer_last:
  assumes "dc_announced_peer_hash_capacity (cw_config s) \<noteq> 0" "dc_announced_peers_per_hash (cw_config s) \<noteq> 0"
  shows "\<exists>ps. map_of (cw_peer_cache (cache_peer ev c h peer s)) h =
    Some (ps @ [\<lparr>cp_peer = peer, cp_expires_at = ck_now c + dc_announced_peer_ttl (cw_config s)\<rparr>])"
  using assms by (auto simp: cache_peer_def Let_def update_conv')

lemma announce_caches:
  assumes s: "serving cf our secret s" and ev: "env_ok ev" and pub: "is_public_endpoint source"
    and cap: "dc_announced_peer_hash_capacity cf \<noteq> 0" "dc_announced_peers_per_hash cf \<noteq> 0"
    and a: "field_id a (str ''info_hash'') = Some h" "announce_token_ok ev c a source s" "announce_port a source = Some port"
    and ann: "announce_peer_response ev c a t source s = (r, s1)"
  shows "r = response_message our t fmempty"
    "peer_kept cf our secret (ck_now c + dc_announced_peer_ttl cf) h \<lparr>pc_addr = SocketAddrV4 (sa_ip source) port\<rparr> s1"
proof -
  define peer where "peer = \<lparr>pc_addr = SocketAddrV4 (sa_ip source) port\<rparr>"
  let ?kept = "peer_kept cf our secret (ck_now c + dc_announced_peer_ttl cf) h peer"
  let ?s = "cache_peer ev c h peer s"
  have cfg: "cw_config s = cf" and ok: "cache_ok cf (cw_peer_cache s)" using s by (simp_all add: serving_def)
  obtain ps where "map_of (cw_peer_cache ?s) h =
      Some (ps @ [\<lparr>cp_peer = peer, cp_expires_at = ck_now c + dc_announced_peer_ttl cf\<rparr>])"
    using cache_peer_last [of s ev c h peer] cap cfg by auto
  then have "holds_until (ck_now c + dc_announced_peer_ttl cf) h peer (cw_peer_cache ?s)"
    by (simp add: holds_until_def)
  moreover have "serving cf our secret ?s"
    using s cache_ok_peer [OF ok cfg ev] by (simp add: serving_def cache_peer_frame)
  ultimately have "?kept ?s" by (simp add: peer_kept_def)
  moreover have "list_all (\<lambda>p. is_public_endpoint (pc_addr p)) [peer]"
    using announced_public [OF pub a(3)] by (simp add: peer_def)
  ultimately have k: "?kept (publish_discovery ev h [peer] AnnouncePeer ?s)" by (rule kept.before.f_publish)
  then have "cw_our_id (publish_discovery ev h [peer] AnnouncePeer ?s) = our" by (simp add: peer_kept_def serving_def)
  then have "s1 = publish_discovery ev h [peer] AnnouncePeer ?s" "r = response_message our t fmempty"
    using a ann unfolding announce_peer_response_def by (simp_all add: Let_def peer_def [symmetric])
  then show "r = response_message our t fmempty" "peer_kept cf our secret (ck_now c + dc_announced_peer_ttl cf) h
      \<lparr>pc_addr = SocketAddrV4 (sa_ip source) port\<rparr> s1"
    using k by (simp_all add: peer_def)
qed

lemma kept_peer_answered:
  assumes k: "peer_kept cf our secret t h peer s" and c: "ck_now c < t"
    and a: "field_id a (str ''info_hash'') = Some h"
    and g: "get_peers_response ev c a tr source s = (r, s')"
  shows "\<exists>values vs. r = response_message our tr values \<and>
    fmlookup values (str ''values'') = Some (KList vs) \<and> KBytes (encode_compact_peer peer) \<in> set vs \<and>
    fmlookup values (str ''token'') = Some (KBytes (make_token (ev_sha1 ev) c secret (sa_ip source)))"
proof -
  define u where "u = publish_discovery ev h [] InboundGetPeers s"
  have u: "peer_kept cf our secret t h peer u" unfolding u_def by (rule kept.before.f_publish [OF k]) simp
  have ok: "cache_ok cf (cw_peer_cache u)" and hold: "holds_until t h peer (cw_peer_cache u)"
    using u by (simp_all add: peer_kept_def serving_def)
  obtain ps where ps: "map_of (cw_peer_cache (expire_peer_cache c u)) h = Some ps" "peer \<in> cp_peer ` set ps"
    using holds_expire [OF ok hold c] unfolding holds_until_def by blast
  have "cw_our_id (expire_peer_cache c u) = our" "cw_token_secret (expire_peer_cache c u) = secret"
    using u by (simp_all add: expire_peer_cache_def peer_kept_def serving_def)
  then have "r = response_message our tr (fmupd (str ''values'')
      (KList (map (\<lambda>cached. KBytes (encode_compact_peer (cp_peer cached))) ps))
      (fmupd (str ''token'') (KBytes (make_token (ev_sha1 ev) c secret (sa_ip source))) fmempty))"
    using a g ps(1) unfolding get_peers_response_def by (simp add: Let_def u_def [symmetric])
  then show ?thesis using ps(2) by (force simp del: fmlookup_of_list)
qed

text \<open>A query is answered by one datagram, on the state with the sender remembered.\<close>

lemma handle_query_answers:
  assumes "is_public_endpoint source" "handle_query ev c (Query t y q a extra) source s = Some s'"
  obtains prov r s1 bs where "answer_query ev c q a t source (s\<lparr>cw_provisional := prov\<rparr>) = (r, s1)"
    "krpc_to_bytes (ev_enc ev) r = Some bs" "s' = put_out (Datagram source bs (ev_send ev (cw_out s1))) s1"
proof -
  let ?m = "Query t y q a extra"
  define s0 where "s0 = (case extract_node_id ?m of None \<Rightarrow> s | Some i \<Rightarrow> remember_provisional c source i s)"
  obtain prov where prov: "s0 = s\<lparr>cw_provisional := prov\<rparr>"
    by (cases "extract_node_id ?m")
      (auto simp: s0_def remember_provisional_def Let_def intro: that [of "cw_provisional s"] that)
  obtain r s1 where a: "answer_query ev c q a t source s0 = (r, s1)" by fastforce
  obtain bs where bs: "krpc_to_bytes (ev_enc ev) r = Some bs" "s' = put_out (Datagram source bs (ev_send ev (cw_out s1))) s1"
    using assms unfolding handle_query_def krpc_message.case s0_def [symmetric] Let_def a prod.case
    by (auto simp: bind_eq_Some_conv)
  show thesis by (rule that [OF a [unfolded prov] bs])
qed

end
