(* ===== verification/Crawler_Properties.thy ===== *)
theory Crawler_Properties
  imports Crawler_Serving
begin

text \<open>
  The properties of the crawler's runs: no panic and bounded state, the accounts of the
  lookups, fresh transaction identifiers, answers only to what was asked, announcements only
  with a token, and announced peers served until they expire.
\<close>

subsection \<open>Transaction identifiers\<close>

lemma alloc_loop_None: "fst (alloc_loop k tx used) = None \<longleftrightarrow> (\<forall>i<k. used (tx + of_nat i))"
proof (induction k tx used rule: alloc_loop.induct)
  case (1 k tx used)
  show ?case
  proof (cases "k = 0 \<or> \<not> used tx")
    case True
    then show ?thesis by (subst alloc_loop.simps) (auto intro: exI [of _ 0])
  next
    case False
    then obtain k' where k: "k = Suc k'" by (cases k) auto
    have "(\<forall>i<Suc k'. used (tx + of_nat i)) \<longleftrightarrow> used tx \<and> (\<forall>i<k'. used (tx + 1 + of_nat i))"
      by (auto simp: less_Suc_eq_0_disj add.assoc)
    then show ?thesis using 1 False k by (subst alloc_loop.simps) simp
  qed
qed

lemma all_u16: "(\<forall>i<65536. P (tx + of_nat i)) \<longleftrightarrow> (\<forall>i::u16. P i)"
proof
  assume a: "\<forall>i<65536. P (tx + of_nat i)"
  show "\<forall>i::u16. P i"
  proof
    fix i :: u16
    have "unat (i - tx) < 65536" using unat_lt2p_nat [of "i - tx"] by simp
    then have "P (tx + of_nat (unat (i - tx)))" using a by blast
    then show "P i" by simp
  qed
qed simp

lemma transaction_id_bytes_inj: "inj transaction_id_bytes"
  by (rule injI) (simp add: transaction_id_bytes_def u16_be_inj)

lemma all_used_count:
  assumes "\<forall>i. tx_used s i"
  shows "2 ^ 16 \<le> length (cw_pending_rpcs s) + length (cw_retired s)"
proof -
  have "range transaction_id_bytes \<subseteq> set (keys (cw_pending_rpcs s) @ keys (cw_retired s))"
    using assms by (auto simp: tx_used_def map_of_eq_None_iff)
  then have "card (range transaction_id_bytes) \<le> length (keys (cw_pending_rpcs s) @ keys (cw_retired s))"
    using card_mono card_length List.finite_set le_trans by metis
  moreover have "card (range transaction_id_bytes) = 2 ^ 16"
    using card_image [OF transaction_id_bytes_inj] by (simp add: card_word)
  ultimately show ?thesis by simp
qed

subsection \<open>An example crawler\<close>

definition ex_answer :: krpc_message where
  "ex_answer = response_message (ex_id 2) [0, 9] fmempty"

definition ex_env :: crawler_env where
  "ex_env = \<lparr>ev_enc = (\<lambda>_. Some [100, 101]), ev_dec = (\<lambda>_. Inr (BDict (message_dict ex_answer))),
     ev_sha1 = id, ev_send = (\<lambda>_. True), ev_accept = (\<lambda>_. True), ev_resolve = (\<lambda>_. Some (ex_addr 9)),
     ev_random_id = (\<lambda>_. ex_id 3), ev_pick = take, ev_any_key = hd\<rparr>"

definition ex_crawler :: crawler where
  "ex_crawler = with_config ex_clock (ex_id 1) (replicate 16 7) [str ''router.example:6881''] default_dht_config
     (default_crawler_metrics ex_clock)"

lemma env_ok_ex_env [simp]: "env_ok ex_env"
  by (simp add: env_ok_def ex_env_def set_take_subset)

lemma core_ex_crawler: "core default_dht_config (ex_id 1) 0 None None ex_crawler"
  unfolding ex_crawler_def by (rule core_with_config) (simp_all add: same_lookup_counts_def)

lemma crawler_ok_ex_crawler [simp]: "crawler_ok default_dht_config (ex_id 1) ex_crawler"
  using core_ex_crawler by (auto simp: crawler_ok_def)

lemma crawler_life_ok:
  assumes "env_ok ev" "valid_id our" "length events < 2 ^ 64" "\<forall>y\<in>set seeds. valid_id (nc_id y)"
  shows "ensures (crawler_life ev c hashes seeds events (with_config c our secret nodes cf (default_crawler_metrics c)))
    (crawler_ok cf our)"
proof -
  let ?s = "with_config c our secret nodes cf (default_crawler_metrics c)"
  have s: "core cf our 0 None None ?s"
    by (rule core_with_config [OF assms(2), of c]) (simp add: same_lookup_counts_def)
  have events: "ensures (fold_opt (crawler_step ev) events s1) (\<lambda>s. env_ok ev \<and> crawler_ok cf our s)"
    if "core cf our 0 None None s1" for s1
  proof (rule crm.run_inv)
    show "env_ok ev \<and> crawler_ok cf our s1" using that assms(1) by (auto simp: crawler_ok_def)
    show "lookups_begun s1 + length events \<le> 2 ^ 64 - 1"
      using that assms(3) by (simp add: lookups_begun_def core_def)
  qed (simp add: list_all_iff)
  have "ensures (crawler_run ev c events s1) (crawler_ok cf our)" if "core cf our 0 None None s1" for s1
  proof -
    have "ensures (bootstrap ev c s1) (\<lambda>s1. ensures (fold_opt (crawler_step ev) events s1)
        (\<lambda>s. env_ok ev \<and> crawler_ok cf our s))"
      by (rule ensures_mono [OF core_bootstrap [OF that assms(1)]]) (rule events)
    then show ?thesis unfolding crawler_run_def ensures_bind by (auto elim!: ensures_mono)
  qed
  then show ?thesis unfolding crawler_life_def ensures_bind
    by (rule ensures_mono [OF core_seed [OF s assms(4)]])
qed

lemma crawler_life_ex:
  assumes "env_ok ev" "valid_id our" "length events < 2 ^ 64" "\<forall>y\<in>set seeds. valid_id (nc_id y)"
  shows "\<exists>s. crawler_life ev c hashes seeds events (with_config c our secret nodes cf (default_crawler_metrics c)) = Some s \<and>
    crawler_ok cf our s"
  using crawler_life_ok [OF assms] unfolding ensures_iff .

lemma crawler_okD:
  assumes "crawler_ok cf our s"
  shows "rt_inv (cw_routing s)" "rt_our_id (cw_routing s) = our"
    "queue_ok cf (cw_discovery_queue s) (cw_discovery_set s)" "rpcs_ok cf (cw_pending_rpcs s) (cw_retired s)"
    "cache_ok cf (cw_peer_cache s)" "prov_ok cf (cw_provisional s)"
    "lookups_ok None None (cw_lookups s) (cw_pending_rpcs s)" "balanced None (cw_lookups s) (cw_metrics s)"
    "cw_config s = cf" "cw_our_id s = our"
  using assms by (auto simp: crawler_ok_def core_def run_inv_of_def)

lemma token_accepted_window_now:
  "validate_token sha1 c secret ip (make_token sha1 c secret ip)"
  by (simp add: validate_token_def make_token_def constant_time_eq_iff Let_def)

subsection \<open>Properties of the crawler\<close>

text \<open>
  C1: the crawler never panics, whatever hashes and nodes it is seeded with, whatever packets arrive from whatever sources in whatever
  order with the ticks, and its state stays bounded by the configuration: the table keeps its
  invariant, the lookup queue holds no hash twice, agrees with its set and stays below its
  limit, the outstanding queries, the peer cache and the provisional nodes too, and no
  transaction is both outstanding and retired.
\<close>

theorem crawler_run_safe:
  assumes "env_ok ev" "valid_id our" "length events < 2 ^ 64" "\<forall>y\<in>set seeds. valid_id (nc_id y)"
  shows "\<exists>s. crawler_life ev c hashes seeds events (with_config c our secret nodes cf (default_crawler_metrics c)) = Some s \<and>
    rt_inv (cw_routing s) \<and>
    distinct (cw_discovery_queue s) \<and> set (cw_discovery_queue s) = cw_discovery_set s \<and>
    zero_hash \<notin> cw_discovery_set s \<and> length (cw_discovery_queue s) \<le> dc_max_discovery_hashes cf \<and>
    length (cw_pending_rpcs s) \<le> dc_max_pending_rpcs cf \<and>
    distinct (keys (cw_pending_rpcs s)) \<and> set (keys (cw_pending_rpcs s)) \<inter> set (keys (cw_retired s)) = {} \<and>
    length (cw_provisional s) \<le> max 1 (dc_max_candidate_nodes cf) \<and>
    length (cw_peer_cache s) \<le> dc_announced_peer_hash_capacity cf \<and>
    list_all (\<lambda>(h, ps). ps \<noteq> [] \<and> length ps \<le> dc_announced_peers_per_hash cf \<and> distinct (map cp_peer ps)) (cw_peer_cache s)"
proof -
  obtain s where s: "crawler_life ev c hashes seeds events (with_config c our secret nodes cf (default_crawler_metrics c)) = Some s"
      "crawler_ok cf our s"
    using crawler_life_ex [OF assms] by blast
  show ?thesis using s(1) crawler_okD(1,3-6) [OF s(2)]
    by (auto simp: queue_ok_def rpcs_ok_def cache_ok_def prov_ok_def list_all_iff)
qed

definition ex_seed :: node_contact where
  "ex_seed = \<lparr>nc_id = ex_id 4, nc_addr = ex_addr 4, nc_last_seen = 5, nc_last_seen_unix = 1700000000\<rparr>"

lemma crawler_run_safe_witness:
  "\<exists>s. crawler_life ex_env ex_clock [ex_id 7] [ex_seed]
      [DiscoveryTick ex_clock, Received ex_clock [100] (ex_addr 9), StatsTick] ex_crawler = Some s \<and>
    length (cw_pending_rpcs s) \<le> 4096"
  using crawler_run_safe [of ex_env "ex_id 1" "[DiscoveryTick ex_clock, Received ex_clock [100] (ex_addr 9), StatsTick]"
      "[ex_seed]" ex_clock "[ex_id 7]" "replicate 16 7" "[str ''router.example:6881'']" default_dht_config]
  by (auto simp: ex_crawler_def default_dht_config_def ex_seed_def)

text \<open>
  C2: the accounts of the real lookups balance at every moment of a run: those initiated are
  those that succeeded, those that failed and those in progress; each one in progress waits
  for exactly its outstanding queries, of which it has at least one, so no lookup is forgotten
  while it waits and none is kept after its last answer.
\<close>

theorem lookup_accounts_balance:
  assumes "env_ok ev" "valid_id our" "length events < 2 ^ 64" "\<forall>y\<in>set seeds. valid_id (nc_id y)"
    and "crawler_life ev c hashes seeds events (with_config c our secret nodes cf (default_crawler_metrics c)) = Some s"
  shows "load C_real_lookups_initiated (cw_metrics s) =
      load C_real_lookups_succeeded (cw_metrics s) + load C_real_lookups_failed (cw_metrics s) +
      of_nat (length (lt_active (cw_lookups s))) \<and>
    (\<forall>i. (case map_of (lt_active (cw_lookups s)) i of None \<Rightarrow> 0 | Some progress \<Rightarrow> rp_outstanding progress) =
        length (filter (\<lambda>(k, p). pr_lookup_id p = Some i) (cw_pending_rpcs s))) \<and>
    list_all (\<lambda>(i, progress). 0 < rp_outstanding progress) (lt_active (cw_lookups s))"
proof -
  have ok: "crawler_ok cf our s" using crawler_life_ex [OF assms(1-4), of c hashes secret nodes cf] assms(5) by simp
  note l = crawler_okD(7) [OF ok] and b = crawler_okD(8) [OF ok]
  have "(case map_of (lt_active (cw_lookups s)) i of None \<Rightarrow> 0 | Some progress \<Rightarrow> rp_outstanding progress) =
      length (filter (\<lambda>(k, p). pr_lookup_id p = Some i) (cw_pending_rpcs s))" for i
    using lookups_okD(3) [OF l, of i] by (auto simp: progress_ok_def inflight_def split: option.splits)
  moreover have "0 < rp_outstanding progress" if "(i, progress) \<in> set (lt_active (cw_lookups s))" for i progress
    using lookups_okD(3) [OF l, of i] map_of_SomeI [OF lookups_okD(1) [OF l] that] by (simp add: progress_ok_def)
  ultimately show ?thesis using b by (auto simp: balanced_def list_all_iff)
qed

lemma lookup_accounts_balance_witness:
  "\<exists>s. crawler_life ex_env ex_clock [ex_id 7] [ex_seed] [DiscoveryTick ex_clock, StatsTick] ex_crawler = Some s \<and>
    load C_real_lookups_initiated (cw_metrics s) = load C_real_lookups_succeeded (cw_metrics s) +
      load C_real_lookups_failed (cw_metrics s) + of_nat (length (lt_active (cw_lookups s)))"
proof -
  have e: "length [DiscoveryTick ex_clock, StatsTick] < 2 ^ 64" by simp
  have v: "\<forall>y\<in>set [ex_seed]. valid_id (nc_id y)" by (simp add: ex_seed_def)
  obtain s where s: "crawler_life ex_env ex_clock [ex_id 7] [ex_seed] [DiscoveryTick ex_clock, StatsTick] ex_crawler = Some s"
    using crawler_life_ex [OF env_ok_ex_env valid_ex_id [of 1] e v] unfolding ex_crawler_def by blast
  show ?thesis
    using lookup_accounts_balance [OF env_ok_ex_env valid_ex_id [of 1] e v s [unfolded ex_crawler_def]] s by blast
qed


text \<open>
  C3: a new query gets a transaction identifier that is neither outstanding nor retired; it is
  refused one only when the limit of outstanding queries is reached or all 65536 identifiers
  are taken.
\<close>

theorem transaction_ids_fresh:
  assumes "allocate_transaction s = (r, s')"
  shows "(case r of
      Some i \<Rightarrow> length (cw_pending_rpcs s) < dc_max_pending_rpcs (cw_config s) \<and>
        transaction_id_bytes i \<notin> set (keys (cw_pending_rpcs s)) \<union> set (keys (cw_retired s))
    | None \<Rightarrow> dc_max_pending_rpcs (cw_config s) \<le> length (cw_pending_rpcs s) \<or>
        2 ^ 16 \<le> length (cw_pending_rpcs s) + length (cw_retired s)) \<and>
    s' = s\<lparr>cw_next_tx := cw_next_tx s'\<rparr>"
proof (cases "dc_max_pending_rpcs (cw_config s) \<le> length (cw_pending_rpcs s)")
  case True
  then show ?thesis using assms by (auto simp: allocate_transaction_def)
next
  case False
  obtain r' j where l: "alloc_loop 65536 (cw_next_tx s) (tx_used s) = (r', j)" by fastforce
  then have r: "r' = r" "s' = s\<lparr>cw_next_tx := j\<rparr>"
    using assms False by (simp_all add: allocate_transaction_def)
  show ?thesis
  proof (cases r)
    case None
    then have "\<forall>i. tx_used s i"
      using alloc_loop_None [of 65536 "cw_next_tx s" "tx_used s"] l r(1) all_u16 [of "tx_used s" "cw_next_tx s"] by simp
    then show ?thesis using None all_used_count r(2) by simp
  next
    case (Some i)
    then have "\<not> tx_used s i" using alloc_loop_Some l r(1) by blast
    then show ?thesis using Some False r(2) by (simp add: tx_used_def map_of_None_iff del: set_map)
  qed
qed

lemma transaction_ids_fresh_witness:
  "transaction_id_bytes 1 \<notin> set (keys (cw_pending_rpcs ex_crawler))"
proof -
  have "allocate_transaction ex_crawler = (Some 1, ex_crawler\<lparr>cw_next_tx := 2\<rparr>)"
    by (simp add: allocate_transaction_def ex_crawler_def with_config_def default_dht_config_def tx_used_def
        alloc_loop.simps [of 65536])
  from transaction_ids_fresh [OF this] show ?thesis by simp
qed

text \<open>
  C4: a response or an error that answers no outstanding query, or comes from another address
  than the query went to, is counted and reported and changes nothing else: no contact, no
  peer, no lookup, no queue, and nothing is sent.
\<close>

theorem unsolicited_answers_change_nothing:
  assumes "krpc_from_bytes (ev_dec ev) (take MAX_PACKET_SIZE data) = Inr msg" "data \<noteq> []"
    and "\<not> is_query msg"
    and "\<forall>p. map_of (cw_pending_rpcs s) (transaction_id msg) = Some p \<longrightarrow> pr_expected_addr p \<noteq> source"
  shows "\<exists>e\<in>{RpcUnsolicited, RpcUnexpectedSource}. crawler_step ev (Received c data source) s =
    Some (s\<lparr>cw_metrics := metrics_apply e (cw_metrics s), cw_out := Stat e # cw_out s\<rparr>)"
proof -
  have em: "emit_stat e s = s\<lparr>cw_metrics := metrics_apply e (cw_metrics s), cw_out := Stat e # cw_out s\<rparr>" for e
    by (simp add: emit_stat_def put_out_def on_metrics_def)
  have same: "s\<lparr>cw_pending_rpcs := cw_pending_rpcs s\<rparr> = s" by simp
  have "\<exists>e\<in>{RpcUnsolicited, RpcUnexpectedSource}. handle_packet ev c (take MAX_PACKET_SIZE data) source s = Some (emit_stat e s)"
  proof (cases msg)
    case (Response t y r extra)
    then show ?thesis using assms(1,4)
      by (cases "map_of (cw_pending_rpcs s) (transaction_id msg)")
        (simp_all add: handle_packet_def handle_response_def correlate_response_def Let_def same)
  next
    case (Error t y e extra)
    then show ?thesis using assms(1,4)
      by (cases "map_of (cw_pending_rpcs s) (transaction_id msg)")
        (simp_all add: handle_packet_def handle_error_def Let_def)
  qed (use assms(3) in \<open>simp add: is_query_def\<close>)
  then show ?thesis using assms(2) by (auto simp: em)
qed

lemma ex_answer_decoded: "krpc_from_bytes (ev_dec ex_env) bs = Inr (message_norm ex_answer)"
proof -
  have "utf8_valid (str ''id'')" by code_simp
  then have "message_ok ex_answer" by (simp add: ex_answer_def response_message_def dict_ok_def fmpred_upd)
  then show ?thesis using parse_message_dict by (simp add: krpc_from_bytes_def ex_env_def)
qed

lemma unsolicited_answers_change_nothing_witness:
  "\<exists>e\<in>{RpcUnsolicited, RpcUnexpectedSource}. crawler_step ex_env (Received ex_clock [100] (ex_addr 2)) ex_crawler =
    Some (ex_crawler\<lparr>cw_metrics := metrics_apply e (cw_metrics ex_crawler), cw_out := Stat e # cw_out ex_crawler\<rparr>)"
  by (rule unsolicited_answers_change_nothing [OF ex_answer_decoded])
    (simp_all add: ex_answer_def response_message_def is_query_def ex_crawler_def with_config_def)

text \<open>
  C5: an announcement without a token that was handed to its sender's address caches no peer,
  queues no hash and publishes nothing; the sender gets error 203.
\<close>

theorem announce_needs_token:
  assumes "is_public_endpoint source" "\<not> announce_token_ok ev c a source s"
    and "handle_query ev c (Query t y (str ''announce_peer'') a extra) source s = Some s'"
  shows "\<exists>prov bs reason. s' = s\<lparr>cw_provisional := prov, cw_out := Datagram source bs (ev_send ev (cw_out s)) # cw_out s\<rparr> \<and>
    krpc_to_bytes (ev_enc ev) (error_message t reason) = Some bs \<and>
    reason \<in> {str ''invalid info_hash'', str ''invalid token''}"
proof -
  let ?m = "Query t y (str ''announce_peer'') a extra"
  define s1 where "s1 = (case extract_node_id ?m of None \<Rightarrow> s | Some i \<Rightarrow> remember_provisional c source i s)"
  have s1: "\<exists>prov. s1 = s\<lparr>cw_provisional := prov\<rparr>"
    by (cases "extract_node_id ?m") (auto simp: s1_def remember_provisional_def Let_def intro: exI [of _ "cw_provisional s"])
  then have secret: "cw_token_secret s1 = cw_token_secret s" and out: "cw_out s1 = cw_out s" by auto
  have tok: "\<not> announce_token_ok ev c a source s1"
    using assms(2) unfolding announce_token_ok_def secret .
  define reason where "reason = (case field_id a (str ''info_hash'') of
    None \<Rightarrow> str ''invalid info_hash'' | Some h \<Rightarrow> str ''invalid token'')"
  have ans: "answer_query ev c (str ''announce_peer'') a t source s1 = (error_message t reason, s1)"
    using tok by (simp add: answer_query_def announce_peer_response_def reason_def split: option.split)
  obtain bs where bs: "krpc_to_bytes (ev_enc ev) (error_message t reason) = Some bs"
      "s' = put_out (Datagram source bs (ev_send ev (cw_out s1))) s1"
    using assms(1,3) unfolding handle_query_def krpc_message.case s1_def [symmetric] Let_def ans prod.case
    by (auto simp: bind_eq_Some_conv)
  have "reason \<in> {str ''invalid info_hash'', str ''invalid token''}" by (simp add: reason_def split: option.split)
  moreover have "\<exists>prov. s' = s\<lparr>cw_provisional := prov, cw_out := Datagram source bs (ev_send ev (cw_out s)) # cw_out s\<rparr>"
    using bs(2) s1 out by (auto simp: put_out_def)
  ultimately show ?thesis using bs(1) by blast
qed

lemma announce_needs_token_witness:
  "\<exists>prov bs reason s'. handle_query ex_env ex_clock (Query [1] (str ''q'') (str ''announce_peer'') fmempty fmempty)
     (ex_addr 2) ex_crawler = Some s' \<and> krpc_to_bytes (ev_enc ex_env) (error_message [1] reason) = Some bs \<and>
     s' = ex_crawler\<lparr>cw_provisional := prov, cw_out := Datagram (ex_addr 2) bs True # cw_out ex_crawler\<rparr>"
proof -
  let ?m = "Query [1] (str ''q'') (str ''announce_peer'') fmempty fmempty"
  have p: "is_public_endpoint (ex_addr 2)" by code_simp
  obtain s' where s': "handle_query ex_env ex_clock ?m (ex_addr 2) ex_crawler = Some s'"
    using core_handle_query [OF _ env_ok_ex_env] crawler_ok_ex_crawler unfolding crawler_ok_def ensures_iff by blast
  have t: "\<not> announce_token_ok ex_env ex_clock fmempty (ex_addr 2) ex_crawler" by (simp add: announce_token_ok_def)
  have e: "ev_send ex_env out = True" for out by (simp add: ex_env_def)
  from announce_needs_token [OF p t s'] s' show ?thesis unfolding e by blast
qed


text \<open>
  C6: a peer that announced itself with a valid token is acknowledged, and handed out to
  whoever asks for the hash until its time to live is over, together with a token for the
  asker: whatever packets and ticks are handled in between, as long as after each of them the
  cache has room left, both for another hash and in the list of this one (a full cache drops
  entries for new ones). Asked at once, it is handed out without that condition.
\<close>

theorem announced_peer_is_served:
  assumes "crawler_ok cf our s" "env_ok ev"
    and "dc_announced_peer_hash_capacity cf \<noteq> 0" "dc_announced_peers_per_hash cf \<noteq> 0"
    and "is_public_endpoint source" "field_id a (str ''info_hash'') = Some h"
    and "announce_token_ok ev c a source s" "announce_port a source = Some port"
    and "handle_query ev c (Query t y (str ''announce_peer'') a extra) source s = Some s1"
    and "fold_opt (crawler_step ev) events s1 = Some s2"
    and "list_all (event_at (\<lambda>k. ck_now c \<le> ck_now k \<and> ck_now k < ck_now c + dc_announced_peer_ttl cf)) events"
    and "\<forall>k s'. 0 < k \<and> k \<le> length events \<and> fold_opt (crawler_step ev) (take k events) s1 = Some s' \<longrightarrow> has_room cf h s'"
    and "is_public_endpoint source'" "field_id a' (str ''info_hash'') = Some h"
    and "ck_now c' < ck_now c + dc_announced_peer_ttl cf"
    and "handle_query ev c' (Query t' y' (str ''get_peers'') a' extra') source' s2 = Some s3"
  shows "\<exists>bs sent bs' sent' values vs.
    hd (cw_out s1) = Datagram source bs sent \<and> krpc_to_bytes (ev_enc ev) (response_message our t fmempty) = Some bs \<and>
    hd (cw_out s3) = Datagram source' bs' sent' \<and> krpc_to_bytes (ev_enc ev) (response_message our t' values) = Some bs' \<and>
    fmlookup values (str ''values'') = Some (KList vs) \<and>
    KBytes (encode_compact_peer \<lparr>pc_addr = SocketAddrV4 (sa_ip source) port\<rparr>) \<in> set vs \<and>
    fmlookup values (str ''token'') = Some (KBytes (make_token (ev_sha1 ev) c' (cw_token_secret s) (sa_ip source')))"
proof -
  define peer where "peer = \<lparr>pc_addr = SocketAddrV4 (sa_ip source) port\<rparr>"
  let ?t = "ck_now c + dc_announced_peer_ttl cf"
  let ?kept = "peer_kept cf our (cw_token_secret s) ?t h peer"
  obtain n where "core cf our n None None s" using assms(1) by (auto simp: crawler_ok_def)
  then have sv: "serving cf our (cw_token_secret s) (s\<lparr>cw_provisional := prov\<rparr>)" for prov
    by (simp add: serving_def core_def)
  obtain prov r u bs where ann: "answer_query ev c (str ''announce_peer'') a t source (s\<lparr>cw_provisional := prov\<rparr>) = (r, u)"
    "krpc_to_bytes (ev_enc ev) r = Some bs" "s1 = put_out (Datagram source bs (ev_send ev (cw_out u))) u"
    by (rule handle_query_answers [OF assms(5,9)])
  have "announce_peer_response ev c a t source (s\<lparr>cw_provisional := prov\<rparr>) = (r, u)"
    using ann(1) by (simp add: answer_query_def)
  moreover have "cw_token_secret (s\<lparr>cw_provisional := prov\<rparr>) = cw_token_secret s" by simp
  then have "announce_token_ok ev c a source (s\<lparr>cw_provisional := prov\<rparr>)"
    using assms(7) unfolding announce_token_ok_def by (simp only:)
  ultimately have r: "r = response_message our t fmempty" and u: "?kept u"
    using announce_caches [OF sv assms(2,5,3,4,6) _ assms(8)] unfolding peer_def by blast+
  have k1: "?kept s1" unfolding ann(3) by (rule kept.before.quiet [OF u]) simp
  have "list_all (event_at (alive cf ?t ev)) events"
    by (rule list.pred_mono_strong [OF assms(11)]) (auto simp: alive_def assms(2) elim!: event_at.elims)
  from kept_run [OF k1 this assms(12,10)] have k2: "?kept s2" .
  obtain prov' r' u' bs' where get: "answer_query ev c' (str ''get_peers'') a' t' source' (s2\<lparr>cw_provisional := prov'\<rparr>) = (r', u')"
    "krpc_to_bytes (ev_enc ev) r' = Some bs'" "s3 = put_out (Datagram source' bs' (ev_send ev (cw_out u'))) u'"
    by (rule handle_query_answers [OF assms(13,16)])
  have "get_peers_response ev c' a' t' source' (s2\<lparr>cw_provisional := prov'\<rparr>) = (r', u')"
    using get(1) by (simp add: answer_query_def)
  moreover have "?kept (s2\<lparr>cw_provisional := prov'\<rparr>)" using k2 by simp
  ultimately obtain vals vs where "r' = response_message our t' vals"
    "fmlookup vals (str ''values'') = Some (KList vs)" "KBytes (encode_compact_peer peer) \<in> set vs"
    "fmlookup vals (str ''token'') = Some (KBytes (make_token (ev_sha1 ev) c' (cw_token_secret s) (sa_ip source')))"
    using kept_peer_answered [OF _ assms(15,14)] by blast
  then show ?thesis using ann(2,3) r get(2,3) by (auto simp: put_out_def peer_def)
qed

definition ex_announce :: krpc_dict where
  "ex_announce = fmupd (str ''info_hash'') (KBytes (ex_id 5)) (fmupd (str ''implied_port'') (KInt 1)
     (fmupd (str ''token'') (KBytes (make_token id ex_clock (replicate 16 7) (Ipv4Addr 8 8 8 2))) fmempty))"

lemma ex_announce_ok:
  "field_id ex_announce (str ''info_hash'') = Some (ex_id 5)"
  "announce_token_ok ex_env ex_clock ex_announce (ex_addr 2) ex_crawler"
  "announce_port ex_announce (ex_addr 2) = Some 6881" "is_public_endpoint (ex_addr 2)" "is_public_endpoint (ex_addr 3)"
proof -
  have secret: "cw_token_secret ex_crawler = replicate 16 7" by (simp add: ex_crawler_def with_config_def)
  show "field_id ex_announce (str ''info_hash'') = Some (ex_id 5)"
    by (simp add: field_id_def ex_announce_def NODE_ID_LEN_def ex_id_def)
  show "announce_token_ok ex_env ex_clock ex_announce (ex_addr 2) ex_crawler"
    by (simp add: token_accepted_window_now announce_token_ok_def ex_announce_def secret ex_env_def ex_addr_def)
  show "announce_port ex_announce (ex_addr 2) = Some 6881"
    by (simp add: announce_port_def ex_announce_def ex_addr_def)
  show "is_public_endpoint (ex_addr 2)" "is_public_endpoint (ex_addr 3)" by code_simp+
qed

text \<open>What the announcement leaves in the cache, and that ticks at the same time keep it.\<close>

lemma ex_cache_after:
  assumes "handle_query ex_env ex_clock (Query [1] (str ''q'') (str ''announce_peer'') ex_announce fmempty)
    (ex_addr 2) ex_crawler = Some s"
  shows "cw_peer_cache s = [(ex_id 5, [\<lparr>cp_peer = \<lparr>pc_addr = ex_addr 2\<rparr>, cp_expires_at = 5 + secs 1800\<rparr>])]"
proof -
  obtain prov r u bs where a: "answer_query ex_env ex_clock (str ''announce_peer'') ex_announce [1] (ex_addr 2)
      (ex_crawler\<lparr>cw_provisional := prov\<rparr>) = (r, u)"
    and s: "s = put_out (Datagram (ex_addr 2) bs (ev_send ex_env (cw_out u))) u"
    by (rule handle_query_answers [OF ex_announce_ok(4) assms])
  have secret: "cw_token_secret (ex_crawler\<lparr>cw_provisional := prov\<rparr>) = cw_token_secret ex_crawler" by simp
  have tok: "announce_token_ok ex_env ex_clock ex_announce (ex_addr 2) (ex_crawler\<lparr>cw_provisional := prov\<rparr>)"
    using ex_announce_ok(2) unfolding announce_token_ok_def
    by (simp only: secret)
  have "SocketAddrV4 (sa_ip (ex_addr 2)) 6881 = ex_addr 2" by (simp add: ex_addr_def)
  then have "snd (answer_query ex_env ex_clock (str ''announce_peer'') ex_announce [1] (ex_addr 2)
      (ex_crawler\<lparr>cw_provisional := prov\<rparr>)) =
    publish_discovery ex_env (ex_id 5) [\<lparr>pc_addr = ex_addr 2\<rparr>] AnnouncePeer
      (cache_peer ex_env ex_clock (ex_id 5) \<lparr>pc_addr = ex_addr 2\<rparr> (ex_crawler\<lparr>cw_provisional := prov\<rparr>))"
    using tok ex_announce_ok(1,3) by (simp add: answer_query_def announce_peer_response_def Let_def)
  then have "cw_peer_cache u = cw_peer_cache
      (cache_peer ex_env ex_clock (ex_id 5) \<lparr>pc_addr = ex_addr 2\<rparr> (ex_crawler\<lparr>cw_provisional := prov\<rparr>))"
    by (simp add: a)
  then show ?thesis
    by (simp add: s cache_peer_def ex_crawler_def with_config_def default_dht_config_def ex_clock_def)
qed

interpretation same_cache: quiet_frame "\<lambda>s. cw_peer_cache s = C" for C
  by unfold_locales (auto simp: put_out_def)

lemma announced_peer_is_served_witness:
  "\<exists>s1 s2 s3 bs sent values vs.
    handle_query ex_env ex_clock (Query [1] (str ''q'') (str ''announce_peer'') ex_announce fmempty) (ex_addr 2) ex_crawler = Some s1 \<and>
    fold_opt (crawler_step ex_env) [RefreshTick ex_clock, StatsTick] s1 = Some s2 \<and>
    handle_query ex_env ex_clock (Query [2] (str ''q'') (str ''get_peers'') ex_announce fmempty) (ex_addr 3) s2 = Some s3 \<and>
    hd (cw_out s3) = Datagram (ex_addr 3) bs sent \<and>
    krpc_to_bytes (ev_enc ex_env) (response_message (ex_id 1) [2] values) = Some bs \<and>
    fmlookup values (str ''values'') = Some (KList vs) \<and> KBytes (encode_compact_peer \<lparr>pc_addr = ex_addr 2\<rparr>) \<in> set vs"
proof -
  let ?step = "crawler_step ex_env"
  let ?C = "[(ex_id 5, [\<lparr>cp_peer = \<lparr>pc_addr = ex_addr 2\<rparr>, cp_expires_at = 5 + secs 1800\<rparr>])]"
  obtain s1 where s1: "handle_query ex_env ex_clock (Query [1] (str ''q'') (str ''announce_peer'') ex_announce fmempty)
      (ex_addr 2) ex_crawler = Some s1" "core default_dht_config (ex_id 1) 0 None None s1"
    using core_handle_query [OF core_ex_crawler env_ok_ex_env] unfolding ensures_iff by blast
  obtain s' where s': "expire_pending ex_clock s1 = Some s'"
    using core_expire_pending [OF s1(2), of ex_clock] unfolding ensures_iff by blast
  have c': "cw_peer_cache s' = ?C"
    by (rule keeps_SomeD [OF same_cache.f_expire_pending s']) (rule ex_cache_after [OF s1(1)])
  define r where "r = expire_peer_cache ex_clock s'"
  have r: "?step (RefreshTick ex_clock) s1 = Some r" "cw_peer_cache r = ?C"
    by (simp_all add: s' r_def) (simp add: expire_peer_cache_def c' ex_clock_def secs_def)
  define s2 where "s2 = emit_stat (DhtSnapshot (node_count (cw_routing r)) (cw_queries_sent r) (cw_info_hashes_found r)) r"
  have s2: "?step StatsTick r = Some s2" "cw_peer_cache s2 = ?C" by (simp_all add: s2_def r(2))
  have run: "fold_opt ?step [RefreshTick ex_clock, StatsTick] s1 = Some s2"
    using r(1) s2(1) by (simp del: crawler_step.simps)
  have room: "has_room default_dht_config (ex_id 5) s" if "cw_peer_cache s = ?C" for s
    using that by (simp add: has_room_def cache_full_def default_dht_config_def)
  have "crawler_ok default_dht_config (ex_id 1) s2"
    using crm.run_inv [of ex_env default_dht_config "ex_id 1" s1 "[RefreshTick ex_clock, StatsTick]"] s1(2) run
    by (auto simp: crawler_ok_def lookups_begun_def core_def ensures_iff)
  then obtain s3 where s3: "handle_query ex_env ex_clock (Query [2] (str ''q'') (str ''get_peers'') ex_announce fmempty)
      (ex_addr 3) s2 = Some s3"
    using core_handle_query [OF _ env_ok_ex_env] unfolding crawler_ok_def ensures_iff by blast
  have rooms: "\<forall>k s'. 0 < k \<and> k \<le> length [RefreshTick ex_clock, StatsTick] \<and>
      fold_opt ?step (take k [RefreshTick ex_clock, StatsTick]) s1 = Some s' \<longrightarrow> has_room default_dht_config (ex_id 5) s'"
  proof (intro allI impI)
    fix k s' assume "0 < k \<and> k \<le> length [RefreshTick ex_clock, StatsTick] \<and>
      fold_opt ?step (take k [RefreshTick ex_clock, StatsTick]) s1 = Some s'"
    then have "s' = r \<or> s' = s2" using r(1) s2(1) by (cases k) (auto simp: take_Cons' simp del: crawler_step.simps split: if_splits)
    then show "has_room default_dht_config (ex_id 5) s'" using room r(2) s2(2) by blast
  qed
  have "SocketAddrV4 (sa_ip (ex_addr 2)) 6881 = ex_addr 2" by (simp add: ex_addr_def)
  then show ?thesis
    using announced_peer_is_served [OF crawler_ok_ex_crawler env_ok_ex_env _ _ ex_announce_ok(4,1,2,3) s1(1) run _ rooms
      ex_announce_ok(5,1) _ s3] s1(1) run s3
    by (simp add: default_dht_config_def secs_def) blast
qed

text \<open>
  C7: everything the crawler hands to the metadata fetcher in a run is well formed: a hash that
  is not zero, with at most the configured number of peers, in strictly increasing order, so
  without repetitions, and all with public addresses.
\<close>

theorem published_discoveries_ok:
  assumes "crawler_life ev c hashes seeds events (with_config c our secret nodes cf m) = Some s" "Discovery d accepted \<in> set (cw_out s)"
  shows "hd_info_hash d \<noteq> zero_hash \<and> length (hd_peers d) \<le> dc_max_peers_per_hash cf \<and>
    sorted_wrt (<) (map pc_addr (hd_peers d)) \<and> list_all (\<lambda>p. is_public_endpoint (pc_addr p)) (hd_peers d)"
proof -
  have "outputs_ok cf (with_config c our secret nodes cf m)" by (simp add: outputs_ok_def with_config_def)
  then have "keeps (seed_crawler ev c hashes seeds (with_config c our secret nodes cf m)) (outputs_ok cf)"
    by (rule outputs_ok_seed)
  then have "keeps (crawler_life ev c hashes seeds events (with_config c our secret nodes cf m)) (outputs_ok cf)"
    unfolding crawler_life_def crawler_run_def
    by (rule keeps_bind, intro keeps_bind [OF pub.before.f_bootstrap])
      (assumption, rule keeps_fold, simp_all add: outputs_ok_step)
  then have "outputs_ok cf s" using assms(1) by simp
  then show ?thesis using assms(2) by (auto simp: outputs_ok_def disc_ok_def)
qed

definition is_discovery_tick :: "crawler_event \<Rightarrow> bool" where
  "is_discovery_tick e = (case e of DiscoveryTick c \<Rightarrow> True | _ \<Rightarrow> False)"

definition tick_takes ::
  "crawler_env \<Rightarrow> crawler \<Rightarrow> crawler_event list \<Rightarrow> nat \<Rightarrow> info_hash \<Rightarrow> bool" where
  "tick_takes ev s es k h \<longleftrightarrow> (\<exists>es1 c es2 s1 s2. es = es1 @ DiscoveryTick c # es2 \<and>
     length (filter is_discovery_tick es1) \<le> k \<and> fold_opt (crawler_step ev) es1 s = Some s1 \<and>
     expire_pending c s1 = Some s2 \<and> fst (next_hash ev s2) = (h, True))"

lemma tick_takes_later:
  assumes "crawler_step ev e s = Some t" "tick_takes ev t es k h"
  shows "tick_takes ev s (e # es) (if is_discovery_tick e then Suc k else k) h"
proof -
  obtain es1 c es2 s1 s2 where r: "es = es1 @ DiscoveryTick c # es2" "length (filter is_discovery_tick es1) \<le> k"
      "fold_opt (crawler_step ev) es1 t = Some s1" "expire_pending c s1 = Some s2" "fst (next_hash ev s2) = (h, True)"
    using assms(2) unfolding tick_takes_def by blast
  then have "fold_opt (crawler_step ev) (e # es1) s = Some s1" using assms(1) by simp
  then show ?thesis unfolding tick_takes_def using r by (intro exI [of _ "e # es1"] exI) auto
qed

lemma tick_takes_now:
  assumes "expire_pending c s = Some s1" "cw_discovery_queue s1 = h # q"
  shows "tick_takes ev s (DiscoveryTick c # es) k h"
  unfolding tick_takes_def using assms
  by (intro exI [of _ "[]"] exI [of _ c] exI [of _ es] exI [of _ s] exI [of _ s1]) (simp add: next_hash_def)

lemma queue_position_taken:
  assumes "fold_opt (crawler_step ev) es s = Some s'"
    and "k < length (cw_discovery_queue s)" "k < length (filter is_discovery_tick es)"
  shows "tick_takes ev s es k (cw_discovery_queue s ! k)"
  using assms
proof (induction es arbitrary: s k)
  case (Cons e es)
  obtain t where t: "crawler_step ev e s = Some t" "fold_opt (crawler_step ev) es t = Some s'"
    using Cons.prems(1) by (auto simp: bind_eq_Some_conv)
  let ?q = "cw_discovery_queue s"
  show ?case
  proof (cases "is_discovery_tick e")
    case False
    then have n: "e \<noteq> DiscoveryTick c" for c by (auto simp: is_discovery_tick_def)
    obtain more where q: "cw_discovery_queue t = ?q @ more" using extends_step [OF t(1) n] by (auto simp: extends_def)
    have "tick_takes ev t es k (cw_discovery_queue t ! k)" by (rule Cons.IH [OF t(2)]) (use Cons.prems q False in simp_all)
    then show ?thesis using tick_takes_later [OF t(1)] q Cons.prems(2) False by (fastforce simp: nth_append)
  next
    case True
    then obtain c where e: "e = DiscoveryTick c" by (auto simp: is_discovery_tick_def split: crawler_event.splits)
    obtain s1 more more' where s1: "expire_pending c s = Some s1" "cw_discovery_queue s1 = ?q @ more"
        "cw_discovery_queue t = tl (cw_discovery_queue s1) @ more'"
      using discover_expires [of ev c s t] t(1) e by (auto simp: extends_def)
    show ?thesis
    proof (cases k)
      case 0
      then obtain h q where "?q = h # q" using Cons.prems(2) by (cases ?q) auto
      then show ?thesis using tick_takes_now [OF s1(1), of h] s1(2) 0 e by simp
    next
      case (Suc k')
      have q: "cw_discovery_queue t = tl ?q @ more @ more'" using s1(2,3) Cons.prems(2) by (cases ?q) simp_all
      have "tick_takes ev t es k' (cw_discovery_queue t ! k')"
        by (rule Cons.IH [OF t(2)]) (use Cons.prems q True Suc in simp_all)
      moreover have "cw_discovery_queue t ! k' = ?q ! k"
        using q Cons.prems(2) Suc by (cases ?q) (simp_all add: nth_append)
      ultimately show ?thesis using tick_takes_later [OF t(1), of es k'] True Suc by simp
    qed
  qed
qed simp

text \<open>
  C8: the hashes of the lookup queue are looked up in the order they were queued: the one at
  position \<open>k\<close> is taken by a discovery tick before \<open>k + 1\<close> of them have passed, whatever
  packets arrive in between.
\<close>

theorem queued_hash_is_looked_up:
  assumes "fold_opt (crawler_step ev) es s = Some s'"
    and "k < length (cw_discovery_queue s)" "k < length (filter is_discovery_tick es)"
  shows "\<exists>es1 c es2 s1 s2. es = es1 @ DiscoveryTick c # es2 \<and> length (filter is_discovery_tick es1) \<le> k \<and>
    fold_opt (crawler_step ev) es1 s = Some s1 \<and> expire_pending c s1 = Some s2 \<and>
    fst (next_hash ev s2) = (cw_discovery_queue s ! k, True)"
  using queue_position_taken [OF assms] by (simp only: tick_takes_def)

definition ex_queued :: crawler where
  "ex_queued = snd (queue_hash (ex_id 7) ex_crawler)"

lemma queued_hash_is_looked_up_witness:
  "\<exists>c s1 s2. expire_pending c s1 = Some s2 \<and> fst (next_hash ex_env s2) = (ex_id 7, True)"
proof -
  have q: "core default_dht_config (ex_id 1) 0 None None ex_queued"
    unfolding ex_queued_def by (rule core_queue_hash [OF core_ex_crawler])
  obtain s' where s': "fold_opt (crawler_step ex_env) [DiscoveryTick ex_clock] ex_queued = Some s'"
    using core_crawler_step [OF q env_ok_ex_env, of "DiscoveryTick ex_clock"] by (auto simp: ensures_iff)
  have l: "cw_discovery_queue ex_queued = [ex_id 7]"
    by (simp add: ex_queued_def queue_hash_def ex_crawler_def with_config_def default_dht_config_def
        zero_hash_def ex_id_def on_metrics_def INFO_HASH_LEN_def)
  show ?thesis using queued_hash_is_looked_up [OF s', of 0] by (auto simp: l is_discovery_tick_def)
qed

definition ex_get_peers :: krpc_message where
  "ex_get_peers = Query [1] (str ''q'') (str ''get_peers'') (fmupd (str ''info_hash'') (KBytes (ex_id 7)) fmempty) fmempty"

definition ex_source :: crawler where
  "ex_source = with_config ex_clock (ex_id 1) (replicate 16 7) [] default_dht_config (default_crawler_metrics ex_clock)"

lemma published_discoveries_ok_witness:
  "\<exists>s d. crawler_life (ex_env\<lparr>ev_dec := (\<lambda>_. Inr (BDict (message_dict ex_get_peers)))\<rparr>) ex_clock [] []
     [Received ex_clock [100] (ex_addr 2)] ex_source = Some s \<and> Discovery d True \<in> set (cw_out s) \<and> hd_info_hash d \<noteq> zero_hash"
proof -
  let ?ev = "ex_env\<lparr>ev_dec := (\<lambda>_. Inr (BDict (message_dict ex_get_peers)))\<rparr>"
  have "utf8_valid (str ''info_hash'')" "utf8_valid (str ''get_peers'')" by code_simp+
  then have "message_ok ex_get_peers" by (simp add: ex_get_peers_def dict_ok_def fmpred_upd)
  then have "krpc_from_bytes (ev_dec ?ev) bs = Inr (message_norm ex_get_peers)" for bs
    using parse_message_dict [of ex_get_peers] by (simp add: krpc_from_bytes_def)
  moreover have "message_norm ex_get_peers = ex_get_peers" by (simp add: ex_get_peers_def)
  ultimately have dec: "krpc_from_bytes (ev_dec ?ev) bs = Inr (Query [1] (str ''q'') (str ''get_peers'')
      (fmupd (str ''info_hash'') (KBytes (ex_id 7)) fmempty) fmempty)" for bs by (simp add: ex_get_peers_def)
  have pub: "is_public_endpoint (ex_addr 2)" by code_simp
  let ?d = "\<lparr>hd_info_hash = ex_id 7, hd_peers = [], hd_source = InboundGetPeers\<rparr>"
  have b: "bootstrap ?ev ex_clock ex_source = Some ex_source" by (simp add: bootstrap_def ex_source_def with_config_def)
  have p: "handle_packet ?ev ex_clock bs (ex_addr 2) ex_source =
      handle_query ?ev ex_clock (Query [1] (str ''q'') (str ''get_peers'')
        (fmupd (str ''info_hash'') (KBytes (ex_id 7)) fmempty) fmempty) (ex_addr 2) ex_source" for bs
    unfolding handle_packet_def dec sum.case krpc_message.case ..
  have nz: "ex_id 7 \<noteq> zero_hash" by (simp add: zero_hash_def ex_id_def INFO_HASH_LEN_def)
  have f: "field_id (fmupd (str ''info_hash'') (KBytes (ex_id 7)) fmempty) (str ''info_hash'') = Some (ex_id 7)"
    by (simp add: field_id_def ex_id_def NODE_ID_LEN_def)
  have o: "Discovery ?d True \<in> set (cw_out (publish_discovery ?ev (ex_id 7) [] InboundGetPeers ex_source))"
    using nz by (simp add: publish_discovery_def record_hash_observation_def enqueue_discovery_def Let_def emit_stat_def
        put_out_def on_metrics_def queue_hash_def ex_source_def with_config_def ex_env_def default_dht_config_def)
  obtain s where s: "handle_query ?ev ex_clock (Query [1] (str ''q'') (str ''get_peers'')
        (fmupd (str ''info_hash'') (KBytes (ex_id 7)) fmempty) fmempty) (ex_addr 2) ex_source = Some s"
      "Discovery ?d True \<in> set (cw_out s)"
    using pub o f
    by (auto simp: handle_query_def extract_node_id_def answer_query_def get_peers_response_def Let_def
        krpc_to_bytes_def put_out_def expire_peer_cache_def ex_env_def)
  have "crawler_life ?ev ex_clock [] [] [Received ex_clock [100] (ex_addr 2)] ex_source = Some s"
    using b s(1) by (simp add: crawler_life_def seed_crawler_def seed_info_hashes_def seed_nodes_def crawler_run_def p)
  then show ?thesis
    using s(2) published_discoveries_ok [of ?ev ex_clock "[]" "[]" "[Received ex_clock [100] (ex_addr 2)]" "ex_id 1" "replicate 16 7" "[]"
        default_dht_config "default_crawler_metrics ex_clock" s ?d True, folded ex_source_def] by blast
qed

end
