(* ===== verification/Metadata_Fetch.thy ===== *)
theory Metadata_Fetch
  imports Wire
begin

text \<open>
  Fetching the metadata of a torrent from one peer, and reading it (\<^verbatim>\<open>src/src/metadata.rs\<close>,
  first half).  A connection is the bytes the peer will send, the bytes written to it and the
  number of input, output and clock operations so far; the environment says how each operation
  ends and what the clock shows.  A loop that waits for the peer carries fuel; \<open>None\<close> is a
  panic or fuel that has run out, and \<open>fetch_terminates\<close> gives the fuel that is enough.
\<close>

subsection \<open>Errors\<close>

datatype io_stage =
  AtConnect | HandshakeRead | HandshakeWrite | ExtensionRead | ExtensionWrite | MetadataRead | MetadataWrite

datatype extension_unavailable =
  ExtensionsUnsupported | MetadataUnsupported | MetadataDisabled | MetadataSizeMissing

datatype metadata_fetch_error =
  FE_Io io_stage rstring
| FE_Timeout io_stage
| FE_InvalidHandshake
| FE_ExtensionUnavailable extension_unavailable
| FE_MetadataTooLarge u32 u32
| FE_MetadataRejected
| FE_Protocol io_stage rstring

fun fetch_error_reason :: "metadata_fetch_error \<Rightarrow> metadata_failure_reason" where
  "fetch_error_reason (FE_Io stage source) =
     (case stage of
        AtConnect \<Rightarrow> FR_Connect
      | HandshakeRead \<Rightarrow> FR_HandshakeIo | HandshakeWrite \<Rightarrow> FR_HandshakeIo
      | ExtensionRead \<Rightarrow> FR_ExtensionIo | ExtensionWrite \<Rightarrow> FR_ExtensionIo
      | MetadataRead \<Rightarrow> FR_MetadataIo | MetadataWrite \<Rightarrow> FR_MetadataIo)"
| "fetch_error_reason (FE_Timeout stage) =
     (case stage of
        AtConnect \<Rightarrow> FR_ConnectTimeout
      | HandshakeRead \<Rightarrow> FR_HandshakeTimeout | HandshakeWrite \<Rightarrow> FR_HandshakeTimeout
      | ExtensionRead \<Rightarrow> FR_ExtensionTimeout | ExtensionWrite \<Rightarrow> FR_ExtensionTimeout
      | MetadataRead \<Rightarrow> FR_MetadataTimeout | MetadataWrite \<Rightarrow> FR_MetadataTimeout)"
| "fetch_error_reason FE_InvalidHandshake = FR_Handshake"
| "fetch_error_reason (FE_ExtensionUnavailable reason) =
     (case reason of
        ExtensionsUnsupported \<Rightarrow> FR_ExtensionsUnsupported
      | MetadataUnsupported \<Rightarrow> FR_MetadataUnsupported
      | MetadataDisabled \<Rightarrow> FR_MetadataDisabled
      | MetadataSizeMissing \<Rightarrow> FR_MetadataSizeMissing)"
| "fetch_error_reason (FE_MetadataTooLarge sz limit) = FR_MetadataTooLarge"
| "fetch_error_reason FE_MetadataRejected = FR_Rejected"
| "fetch_error_reason (FE_Protocol stage msg) =
     (if stage = ExtensionRead \<or> stage = ExtensionWrite then FR_ExtensionProtocol else FR_Protocol)"

fun long_backoff :: "metadata_fetch_error \<Rightarrow> bool" where
  "long_backoff (FE_ExtensionUnavailable reason) = True"
| "long_backoff (FE_MetadataTooLarge sz limit) = True"
| "long_backoff FE_MetadataRejected = True"
| "long_backoff (FE_Io stage source) = False"
| "long_backoff (FE_Timeout stage) = False"
| "long_backoff FE_InvalidHandshake = False"
| "long_backoff (FE_Protocol stage msg) = False"

fun stage_text :: "io_stage \<Rightarrow> rstring" where
  "stage_text AtConnect = str ''Connect''"
| "stage_text HandshakeRead = str ''HandshakeRead''"
| "stage_text HandshakeWrite = str ''HandshakeWrite''"
| "stage_text ExtensionRead = str ''ExtensionRead''"
| "stage_text ExtensionWrite = str ''ExtensionWrite''"
| "stage_text MetadataRead = str ''MetadataRead''"
| "stage_text MetadataWrite = str ''MetadataWrite''"

fun fetch_error_text :: "metadata_fetch_error \<Rightarrow> rstring" where
  "fetch_error_text (FE_Io stage source) = str ''I/O during '' @ stage_text stage @ str '': '' @ source"
| "fetch_error_text (FE_Timeout stage) = str ''timeout during '' @ stage_text stage"
| "fetch_error_text FE_InvalidHandshake = str ''invalid handshake or info_hash mismatch''"
| "fetch_error_text (FE_ExtensionUnavailable reason) =
     (case reason of
        ExtensionsUnsupported \<Rightarrow> str ''peer does not support extensions''
      | MetadataUnsupported \<Rightarrow> str ''peer does not advertise ut_metadata''
      | MetadataDisabled \<Rightarrow> str ''peer disabled ut_metadata''
      | MetadataSizeMissing \<Rightarrow> str ''peer did not advertise metadata_size'')"
| "fetch_error_text (FE_MetadataTooLarge sz limit) =
     str ''metadata size '' @ nat_text (unat sz) @ str '' exceeds limit '' @ nat_text (unat limit)"
| "fetch_error_text FE_MetadataRejected = str ''metadata rejected''"
| "fetch_error_text (FE_Protocol stage msg) = str ''protocol error during '' @ stage_text stage @ str '': '' @ msg"

subsection \<open>Pieces\<close>

definition METADATA_PIECE :: u32 where "METADATA_PIECE = 16384"

text \<open>\<open>div_ceil\<close> of unsigned integers.\<close>

definition metadata_piece_count :: "u32 \<Rightarrow> u32" where
  "metadata_piece_count total_size =
     (if total_size mod METADATA_PIECE = 0 then total_size div METADATA_PIECE
      else total_size div METADATA_PIECE + 1)"

definition metadata_piece_len :: "u32 \<Rightarrow> u32 \<Rightarrow> u32 \<Rightarrow> nat" where
  "metadata_piece_len total_size total_pieces piece_idx =
     (if piece_idx + 1 = total_pieces then unat (total_size - piece_idx * 16384) else 16384)"

subsection \<open>The connection\<close>

datatype io_outcome = IoDone | IoFailed rstring | IoTimedOut

record peer_env =
  pe_io :: "nat \<Rightarrow> duration \<Rightarrow> io_outcome"
  pe_clock :: "nat \<Rightarrow> instant"
  pe_peer_id :: bytes
  pe_enc :: benc
  pe_enc_error :: rstring
  pe_dec :: bdec

record peer_conn =
  pc_in :: bytes
  pc_ops :: nat
  pc_written :: "bytes list"

type_synonym 'a io = "peer_conn \<Rightarrow> ((metadata_fetch_error + 'a) \<times> peer_conn) option"

definition returns :: "'a \<Rightarrow> 'a io" where
  "returns x c = Some (Inr x, c)"

definition fails :: "metadata_fetch_error \<Rightarrow> 'a io" where
  "fails e c = Some (Inl e, c)"

text \<open>The operator \<open>?\<close>: an error ends the function.\<close>

definition and_then :: "'a io \<Rightarrow> ('a \<Rightarrow> 'b io) \<Rightarrow> 'b io" where
  "and_then m f c =
     (case m c of
        None \<Rightarrow> None
      | Some (Inl e, c') \<Rightarrow> Some (Inl e, c')
      | Some (Inr x, c') \<Rightarrow> f x c')"

definition read_clock :: "peer_env \<Rightarrow> instant io" where
  "read_clock ev c = Some (Inr (pe_clock ev (pc_ops c)), c\<lparr>pc_ops := pc_ops c + 1\<rparr>)"

definition connect_timeout_io :: "peer_env \<Rightarrow> duration \<Rightarrow> unit io" where
  "connect_timeout_io ev timeout_dur c =
     (let c' = c\<lparr>pc_ops := pc_ops c + 1\<rparr> in
      case pe_io ev (pc_ops c) timeout_dur of
        IoTimedOut \<Rightarrow> Some (Inl (FE_Timeout AtConnect), c')
      | IoFailed source \<Rightarrow> Some (Inl (FE_Io AtConnect source), c')
      | IoDone \<Rightarrow> Some (Inr (), c'))"

definition write_all_timeout :: "peer_env \<Rightarrow> bytes \<Rightarrow> duration \<Rightarrow> io_stage \<Rightarrow> unit io" where
  "write_all_timeout ev bytes timeout_dur stage c =
     (let c' = c\<lparr>pc_ops := pc_ops c + 1\<rparr> in
      case pe_io ev (pc_ops c) timeout_dur of
        IoTimedOut \<Rightarrow> Some (Inl (FE_Timeout stage), c')
      | IoFailed source \<Rightarrow> Some (Inl (FE_Io stage source), c')
      | IoDone \<Rightarrow> Some (Inr (), c'\<lparr>pc_written := bytes # pc_written c\<rparr>))"

definition read_exact_timeout :: "peer_env \<Rightarrow> nat \<Rightarrow> duration \<Rightarrow> io_stage \<Rightarrow> bytes io" where
  "read_exact_timeout ev n timeout_dur stage c =
     (let c' = c\<lparr>pc_ops := pc_ops c + 1\<rparr> in
      case pe_io ev (pc_ops c) timeout_dur of
        IoTimedOut \<Rightarrow> Some (Inl (FE_Timeout stage), c')
      | IoFailed source \<Rightarrow> Some (Inl (FE_Io stage source), c')
      | IoDone \<Rightarrow>
          if n \<le> length (pc_in c)
          then Some (Inr (take n (pc_in c)), c'\<lparr>pc_in := drop n (pc_in c)\<rparr>)
          else Some (Inl (FE_Io stage (str ''early eof'')), c'\<lparr>pc_in := []\<rparr>))"

definition read_next_frame :: "peer_env \<Rightarrow> duration \<Rightarrow> io_stage \<Rightarrow> wire_message option io" where
  "read_next_frame ev timeout_dur stage =
     and_then (read_exact_timeout ev 4 timeout_dur stage) (\<lambda>header.
       let len = u32_of_be header in
       if len = 0 then returns (Some KeepAlive)
       else if 262144 < len
       then fails (FE_Protocol stage (str ''frame too large: '' @ nat_text (unat len) @ str '' bytes''))
       else and_then (read_exact_timeout ev (unat len) timeout_dur stage) (\<lambda>buf.
         returns (from_bytes_frame len buf)))"

subsection \<open>The extension handshake\<close>

fun read_extended_loop :: "peer_env \<Rightarrow> duration \<Rightarrow> instant \<Rightarrow> nat \<Rightarrow> extended_handshake io" where
  "read_extended_loop ev peer_timeout start 0 c = None"
| "read_extended_loop ev peer_timeout start (Suc fuel) c =
     and_then (read_clock ev) (\<lambda>now.
       let remaining = peer_timeout - (now - start) in
       if remaining = 0 then fails (FE_Timeout ExtensionRead)
       else and_then (read_next_frame ev remaining ExtensionRead) (\<lambda>frame.
         case frame of
           None \<Rightarrow> fails (FE_Protocol ExtensionRead (str ''invalid frame during extended handshake''))
         | Some msg \<Rightarrow>
             (case msg of
                Extended i payload \<Rightarrow>
                  if i = 0 then
                    (case extended_from_bytes (pe_dec ev) payload of
                       None \<Rightarrow> fails (FE_Protocol ExtensionRead (str ''invalid extended handshake''))
                     | Some h \<Rightarrow> returns h)
                  else read_extended_loop ev peer_timeout start fuel
              | _ \<Rightarrow> read_extended_loop ev peer_timeout start fuel))) c"

definition read_extended_handshake :: "peer_env \<Rightarrow> duration \<Rightarrow> nat \<Rightarrow> extended_handshake io" where
  "read_extended_handshake ev peer_timeout fuel =
     and_then (read_clock ev) (\<lambda>start. read_extended_loop ev peer_timeout start fuel)"

definition LOCAL_METADATA_ID :: u8 where "LOCAL_METADATA_ID = 1"

definition our_extended_handshake :: extended_handshake where
  "our_extended_handshake =
     \<lparr>eh_m = fmupd (str ''ut_metadata'') (ucast LOCAL_METADATA_ID) fmempty, eh_metadata_size = None,
      eh_v = Some (str ''btfind 0.1''), eh_your_ip = None, eh_reqq = None\<rparr>"

text \<open>The handshake, up to the peer's answer that names our hash and supports extensions.\<close>

definition exchange_handshakes :: "peer_env \<Rightarrow> info_hash \<Rightarrow> duration \<Rightarrow> unit io" where
  "exchange_handshakes ev h peer_timeout =
     and_then (write_all_timeout ev (handshake_to_bytes (new_handshake h (pe_peer_id ev))) peer_timeout HandshakeWrite)
     (\<lambda>_. and_then (read_exact_timeout ev HANDSHAKE_LEN peer_timeout HandshakeRead) (\<lambda>buf.
       case handshake_from_bytes buf of
         None \<Rightarrow> fails FE_InvalidHandshake
       | Some hs_resp \<Rightarrow>
           if h_info_hash hs_resp \<noteq> h then fails FE_InvalidHandshake
           else if \<not> supports_extensions hs_resp
           then fails (FE_ExtensionUnavailable ExtensionsUnsupported)
           else returns ()))"

text \<open>The extension handshake: the peer's message id, the size of the metadata, the queue.\<close>

definition check_extensions :: "u32 \<Rightarrow> extended_handshake \<Rightarrow> metadata_fetch_error + u8 \<times> u32 \<times> u32" where
  "check_extensions max_metadata_size h =
     (case fmlookup (eh_m h) (str ''ut_metadata'') of
        None \<Rightarrow> Inl (FE_ExtensionUnavailable MetadataUnsupported)
      | Some i \<Rightarrow>
          if i = 0 then Inl (FE_ExtensionUnavailable MetadataDisabled)
          else if 255 < i
          then Inl (FE_Protocol ExtensionRead (str ''invalid ut_metadata id: '' @ nat_text (unat i)))
          else (case eh_metadata_size h of
             None \<Rightarrow> Inl (FE_ExtensionUnavailable MetadataSizeMissing)
           | Some sz \<Rightarrow>
               if sz = 0 then Inl (FE_Protocol ExtensionRead (str ''metadata_size is zero''))
               else if max_metadata_size < sz then Inl (FE_MetadataTooLarge sz max_metadata_size)
               else Inr (ucast i, sz,
                         min (max (case eh_reqq h of None \<Rightarrow> 1 | Some n \<Rightarrow> n) 1) 64)))"

definition exchange_extensions :: "peer_env \<Rightarrow> duration \<Rightarrow> u32 \<Rightarrow> nat \<Rightarrow> (u8 \<times> u32 \<times> u32) io" where
  "exchange_extensions ev peer_timeout max_metadata_size fuel =
     (case pe_enc ev (BDict (extended_to_dict our_extended_handshake)) of
        None \<Rightarrow> fails (FE_Protocol ExtensionWrite (str ''encode extended handshake: '' @ pe_enc_error ev))
      | Some payload \<Rightarrow>
          and_then (write_all_timeout ev (message_to_bytes (Extended 0 payload)) peer_timeout ExtensionWrite) (\<lambda>_.
          and_then (read_extended_handshake ev peer_timeout fuel) (\<lambda>h.
            case check_extensions max_metadata_size h of
              Inl e \<Rightarrow> fails e
            | Inr plan \<Rightarrow> returns plan)))"


subsection \<open>Asking for the pieces\<close>

record fetch_plan =
  fp_peer_id :: u8
  fp_size :: u32
  fp_total :: u32
  fp_max_outstanding :: u32
  fp_peer_timeout :: duration

record requests =
  rq_next :: u32
  rq_in_flight :: u32
  rq_requested :: "u32 set"

lemma unat_next: "(n :: u32) < m \<Longrightarrow> unat (n + 1) = unat n + 1"
proof -
  assume "n < m"
  then have l: "unat n < unat m" by (simp add: word_less_nat_alt)
  then have "unat n + 1 < 2 ^ 32" using unat_lt2p_nat [of m] by simp
  then show ?thesis by (simp add: unat_word_ariths)
qed

lemma next_request_less: "(n :: u32) < m \<Longrightarrow> unat m - unat (n + 1) < unat m - unat n"
  using unat_next [of n m] by (simp add: word_less_nat_alt)

function request_more :: "peer_env \<Rightarrow> fetch_plan \<Rightarrow> requests \<Rightarrow> requests io" where
  "request_more ev plan r c =
     (if rq_next r < fp_total plan \<and> rq_in_flight r < fp_max_outstanding plan then
        (case build_metadata_request (pe_enc ev) (rq_next r) of
           None \<Rightarrow> None
         | Some req \<Rightarrow>
             (case write_all_timeout ev (message_to_bytes (Extended (fp_peer_id plan) req))
                     (fp_peer_timeout plan) MetadataWrite c of
                None \<Rightarrow> None
              | Some (Inl e, c') \<Rightarrow> Some (Inl e, c')
              | Some (Inr _, c') \<Rightarrow>
                  request_more ev plan
                    \<lparr>rq_next = rq_next r + 1, rq_in_flight = rq_in_flight r + 1,
                     rq_requested = insert (rq_next r) (rq_requested r)\<rparr> c'))
      else Some (Inr r, c))"
  by pat_completeness auto

termination
  by (relation "measure (\<lambda>(ev, plan, r, c). unat (fp_total plan) - unat (rq_next r))")
    (auto simp: next_request_less)

declare request_more.simps [simp del]

subsection \<open>Collecting the pieces\<close>

record progress =
  pg_pieces :: "bytes option list"
  pg_received :: u32
  pg_requests :: requests

text \<open>What one data message does: the request is settled first, then the message is checked.\<close>

definition settle_request :: "u32 \<Rightarrow> requests \<Rightarrow> requests" where
  "settle_request piece_idx r =
     (if piece_idx \<in> rq_requested r
      then r\<lparr>rq_requested := rq_requested r - {piece_idx}, rq_in_flight := rq_in_flight r - 1\<rparr>
      else r)"

definition accept_piece ::
  "fetch_plan \<Rightarrow> u32 \<Rightarrow> u32 \<Rightarrow> bytes \<Rightarrow> progress \<Rightarrow> metadata_fetch_error + progress" where
  "accept_piece plan piece_idx total_size data p =
     (let p = p\<lparr>pg_requests := settle_request piece_idx (pg_requests p)\<rparr>;
          expected_len = metadata_piece_len (fp_size plan) (fp_total plan) piece_idx
      in if total_size \<noteq> fp_size plan
         then Inl (FE_Protocol MetadataRead (str ''metadata total_size mismatch''))
         else if fp_total plan \<le> piece_idx
         then Inl (FE_Protocol MetadataRead (str ''metadata piece out of range''))
         else if length data \<noteq> expected_len
         then Inl (FE_Protocol MetadataRead (str ''invalid metadata piece length: got '' @
                nat_text (length data) @ str '', expected '' @ nat_text expected_len))
         else if pg_pieces p ! unat piece_idx = None
         then Inr (p\<lparr>pg_pieces := (pg_pieces p)[unat piece_idx := Some data], pg_received := pg_received p + 1\<rparr>)
         else Inr p)"

text \<open>\<open>None\<close>: the connection gave a frame that is no message, and the loop ends.\<close>

definition accept_frame ::
  "peer_env \<Rightarrow> fetch_plan \<Rightarrow> wire_message option \<Rightarrow> progress \<Rightarrow> (metadata_fetch_error + progress) option" where
  "accept_frame ev plan frame p =
     (case frame of
        None \<Rightarrow> None
      | Some msg \<Rightarrow> Some
          (case msg of
             Extended i payload \<Rightarrow>
               if i = LOCAL_METADATA_ID then
                 (case parse_metadata_response (pe_dec ev) payload of
                    Some (Inr (piece_idx, total_size, data)) \<Rightarrow> accept_piece plan piece_idx total_size data p
                  | Some (Inl _) \<Rightarrow> Inl FE_MetadataRejected
                  | None \<Rightarrow> Inr p)
               else Inr p
           | _ \<Rightarrow> Inr p))"

fun read_pieces :: "peer_env \<Rightarrow> fetch_plan \<Rightarrow> instant \<Rightarrow> nat \<Rightarrow> progress \<Rightarrow> progress io" where
  "read_pieces ev plan start 0 p c =
     (if pg_received p < fp_total plan then None else returns p c)"
| "read_pieces ev plan start (Suc fuel) p c =
     (if pg_received p < fp_total plan then
        and_then (read_clock ev) (\<lambda>now.
          let remaining = fp_peer_timeout plan * 2 - (now - start) in
          if remaining = 0 then fails (FE_Timeout MetadataRead)
          else and_then (read_next_frame ev remaining MetadataRead) (\<lambda>frame.
            case accept_frame ev plan frame p of
              None \<Rightarrow> returns p
            | Some (Inl e) \<Rightarrow> fails e
            | Some (Inr p) \<Rightarrow>
                and_then (request_more ev plan (pg_requests p)) (\<lambda>r.
                  read_pieces ev plan start fuel (p\<lparr>pg_requests := r\<rparr>)))) c
      else returns p c)"

definition assemble :: "u32 \<Rightarrow> bytes option list \<Rightarrow> metadata_fetch_error + bytes" where
  "assemble metadata_size pieces =
     (if list_ex (\<lambda>piece. piece = None) pieces
      then Inl (FE_Protocol MetadataRead (str ''missing metadata piece''))
      else (let all_data = concat (map the pieces) in
        if all_data = [] then Inl (FE_Protocol MetadataRead (str ''empty metadata''))
        else if length all_data \<noteq> unat metadata_size
        then Inl (FE_Protocol MetadataRead (str ''metadata size mismatch: got '' @
               nat_text (length all_data) @ str '', expected '' @ nat_text (unat metadata_size)))
        else Inr all_data))"

definition fetch_pieces :: "peer_env \<Rightarrow> fetch_plan \<Rightarrow> nat \<Rightarrow> bytes io" where
  "fetch_pieces ev plan fuel =
     and_then (request_more ev plan \<lparr>rq_next = 0, rq_in_flight = 0, rq_requested = {}\<rparr>) (\<lambda>r.
     and_then (read_clock ev) (\<lambda>start.
     and_then (read_pieces ev plan start fuel
        \<lparr>pg_pieces = replicate (unat (fp_total plan)) None, pg_received = 0, pg_requests = r\<rparr>) (\<lambda>p.
       case assemble (fp_size plan) (pg_pieces p) of
         Inl e \<Rightarrow> fails e
       | Inr all_data \<Rightarrow> returns all_data)))"

definition fetch_from_stream_with_limit ::
  "peer_env \<Rightarrow> info_hash \<Rightarrow> duration \<Rightarrow> u32 \<Rightarrow> nat \<Rightarrow> bytes io" where
  "fetch_from_stream_with_limit ev h peer_timeout max_metadata_size fuel =
     and_then (exchange_handshakes ev h peer_timeout) (\<lambda>_.
     and_then (exchange_extensions ev peer_timeout max_metadata_size fuel) (\<lambda>(i, sz, queue).
       fetch_pieces ev \<lparr>fp_peer_id = i, fp_size = sz, fp_total = metadata_piece_count sz,
         fp_max_outstanding = queue, fp_peer_timeout = peer_timeout\<rparr> fuel))"

definition fetch_with_connection ::
  "peer_env \<Rightarrow> info_hash \<Rightarrow> duration \<Rightarrow> duration \<Rightarrow> u32 \<Rightarrow> nat \<Rightarrow> bytes io" where
  "fetch_with_connection ev h connect_timeout peer_timeout max_metadata_size fuel =
     and_then (connect_timeout_io ev connect_timeout) (\<lambda>_.
       fetch_from_stream_with_limit ev h peer_timeout max_metadata_size fuel)"

definition fetch_from_stream :: "peer_env \<Rightarrow> info_hash \<Rightarrow> duration \<Rightarrow> nat \<Rightarrow> bytes io" where
  "fetch_from_stream ev h peer_timeout fuel =
     fetch_from_stream_with_limit ev h peer_timeout (8 * 1024 * 1024) fuel"

text \<open>The connection to a peer's address: \<open>dial\<close> gives the environment behind it.\<close>

definition fetch_from_peer_with_limit ::
  "(peer_contact \<Rightarrow> peer_env \<times> bytes) \<Rightarrow> info_hash \<Rightarrow> peer_contact \<Rightarrow> duration \<Rightarrow> duration \<Rightarrow> u32 \<Rightarrow> nat \<Rightarrow>
   (metadata_fetch_error + bytes) option" where
  "fetch_from_peer_with_limit dial h peer connect_timeout peer_timeout max_metadata_size fuel =
     (case dial peer of (ev, stream) \<Rightarrow>
        map_option fst (fetch_with_connection ev h connect_timeout peer_timeout max_metadata_size fuel
          \<lparr>pc_in = stream, pc_ops = 0, pc_written = []\<rparr>))"

definition fetch_from_peer ::
  "(peer_contact \<Rightarrow> peer_env \<times> bytes) \<Rightarrow> info_hash \<Rightarrow> peer_contact \<Rightarrow> duration \<Rightarrow> duration \<Rightarrow> nat \<Rightarrow>
   (metadata_fetch_error + bytes) option" where
  "fetch_from_peer dial h peer connect_timeout peer_timeout fuel =
     fetch_from_peer_with_limit dial h peer connect_timeout peer_timeout (8 * 1024 * 1024) fuel"

subsection \<open>Reading the info dictionary\<close>

record torrent_info =
  ti_name :: rstring
  ti_piece_length :: i64
  ti_total_size :: i64
  ti_file_count :: i64
  ti_files :: "(rstring \<times> i64) list"

definition MAX_FILE_COUNT :: nat where "MAX_FILE_COUNT = 100000"
definition MAX_PATH_COMPONENTS :: nat where "MAX_PATH_COMPONENTS = 64"
definition MAX_PATH_COMPONENT_BYTES :: nat where "MAX_PATH_COMPONENT_BYTES = 1024"
definition MAX_NAME_BYTES :: nat where "MAX_NAME_BYTES = 4096"
definition MAX_PIECE_LENGTH :: i64 where "MAX_PIECE_LENGTH = 64 * 1024 * 1024"

definition verify_metadata_hash :: "(bytes \<Rightarrow> bytes) \<Rightarrow> info_hash \<Rightarrow> bytes \<Rightarrow> bool" where
  "verify_metadata_hash sha1 h data \<longleftrightarrow> sha1 data = h"

definition get_bencode_str :: "bdict \<Rightarrow> rstring \<Rightarrow> rstring option" where
  "get_bencode_str dict key =
     (case fmlookup dict key of Some (BBytes b) \<Rightarrow> Some (from_utf8_lossy b) | _ \<Rightarrow> None)"

definition get_bencode_int :: "bdict \<Rightarrow> rstring \<Rightarrow> i64 option" where
  "get_bencode_int dict key = (case fmlookup dict key of Some (BInt i) \<Rightarrow> Some i | _ \<Rightarrow> None)"

definition or_else :: "'a option \<Rightarrow> 'a option \<Rightarrow> 'a option" where
  "or_else a b = (case a of None \<Rightarrow> b | Some x \<Rightarrow> Some x)"

definition get_bencode_preferred_str :: "bdict \<Rightarrow> rstring \<Rightarrow> rstring \<Rightarrow> rstring option" where
  "get_bencode_preferred_str dict preferred fallback =
     or_else (get_bencode_str dict preferred) (get_bencode_str dict fallback)"

text \<open>\<open>i64::checked_add\<close>.\<close>

definition checked_add_i64 :: "i64 \<Rightarrow> i64 \<Rightarrow> i64 option" where
  "checked_add_i64 a b =
     (if - (2 ^ 63) \<le> sint a + sint b \<and> sint a + sint b < 2 ^ 63 then Some (a + b) else None)"

fun join_slash :: "rstring list \<Rightarrow> rstring" where
  "join_slash [] = []"
| "join_slash [p] = p"
| "join_slash (p # q # ps) = p @ str ''/'' @ join_slash (q # ps)"

definition path_component :: "bvalue \<Rightarrow> rstring + rstring" where
  "path_component part =
     (case part of
        BBytes bytes \<Rightarrow>
          if bytes = [] \<or> MAX_PATH_COMPONENT_BYTES < length bytes
          then Inl (str ''invalid file path component length'')
          else (let component = from_utf8_lossy bytes in
            if component = str ''.'' \<or> component = str ''..'' \<or> 0x2F \<in> set component
            then Inl (str ''invalid file path component'')
            else Inr component)
      | _ \<Rightarrow> Inl (str ''invalid file path component''))"

fun path_components :: "bvalue list \<Rightarrow> rstring + rstring list" where
  "path_components [] = Inr []"
| "path_components (part # parts) =
     (case path_component part of
        Inl e \<Rightarrow> Inl e
      | Inr component \<Rightarrow>
          (case path_components parts of Inl e \<Rightarrow> Inl e | Inr cs \<Rightarrow> Inr (component # cs)))"

text \<open>One entry of the file list, given the total of those before it.\<close>

definition file_entry :: "i64 \<Rightarrow> bvalue \<Rightarrow> rstring + i64 \<times> (rstring \<times> i64)" where
  "file_entry tot file_val =
     (case file_val of
        BDict file_dict \<Rightarrow>
          (case get_bencode_int file_dict (str ''length'') of
             None \<Rightarrow> Inl (str ''missing file length'')
           | Some file_size \<Rightarrow>
               if sint file_size < 0 then Inl (str ''negative file length'')
               else (case checked_add_i64 tot file_size of
                  None \<Rightarrow> Inl (str ''torrent total size overflow'')
                | Some tot \<Rightarrow>
                    (case or_else (fmlookup file_dict (str ''path.utf-8'')) (fmlookup file_dict (str ''path'')) of
                       Some (BList parts) \<Rightarrow>
                         if parts = [] \<or> MAX_PATH_COMPONENTS < length parts
                         then Inl (str ''invalid file path component count'')
                         else (case path_components parts of
                            Inl e \<Rightarrow> Inl e
                          | Inr cs \<Rightarrow> Inr (tot, (join_slash cs, file_size)))
                     | _ \<Rightarrow> Inl (str ''missing file path''))))
      | _ \<Rightarrow> Inl (str ''invalid file entry''))"

fun file_entries :: "i64 \<Rightarrow> bvalue list \<Rightarrow> rstring + i64 \<times> (rstring \<times> i64) list" where
  "file_entries tot [] = Inr (tot, [])"
| "file_entries tot (v # vs) =
     (case file_entry tot v of
        Inl e \<Rightarrow> Inl e
      | Inr (tot, entry) \<Rightarrow>
          (case file_entries tot vs of
             Inl e \<Rightarrow> Inl e
           | Inr (tot, entries) \<Rightarrow> Inr (tot, entry # entries)))"

definition torrent_files :: "bdict \<Rightarrow> rstring \<Rightarrow> rstring + i64 \<times> (rstring \<times> i64) list" where
  "torrent_files dict name =
     (case fmlookup dict (str ''files'') of
        Some (BList file_list) \<Rightarrow>
          if file_list = [] \<or> MAX_FILE_COUNT < length file_list then Inl (str ''invalid file count'')
          else file_entries 0 file_list
      | _ \<Rightarrow>
          (case get_bencode_int dict (str ''length'') of
             Some len \<Rightarrow>
               if sint len < 0 then Inl (str ''negative torrent length'')
               else Inr (len, [(name, len)])
           | None \<Rightarrow> Inl (str ''no files or length in info dict'')))"

definition parse_torrent_info :: "bdec \<Rightarrow> bytes \<Rightarrow> rstring + torrent_info" where
  "parse_torrent_info dec data =
     (case dec data of
        Inl e \<Rightarrow> Inl (str ''bencode error: '' @ e)
      | Inr (BDict dict) \<Rightarrow>
          (let name = (case get_bencode_preferred_str dict (str ''name.utf-8'') (str ''name'') of
                 None \<Rightarrow> str ''unknown'' | Some name \<Rightarrow> name)
           in if MAX_NAME_BYTES < length name then Inl (str ''torrent name exceeds limit'')
              else (case get_bencode_int dict (str ''piece length'') of
                 None \<Rightarrow> Inl (str ''missing piece length'')
               | Some piece_length \<Rightarrow>
                   if \<not> (1 \<le> sint piece_length \<and> sint piece_length \<le> sint MAX_PIECE_LENGTH)
                   then Inl (str ''invalid piece length'')
                   else if (case get_bencode_int dict (str ''meta version'') of None \<Rightarrow> False | Some v \<Rightarrow> v \<noteq> 2)
                   then Inl (str ''unsupported torrent meta version'')
                   else if get_bencode_int dict (str ''meta version'') = Some 2 \<and> fmlookup dict (str ''pieces'') = None
                   then Inl (str ''pure v2 torrents are unsupported'')
                   else (case torrent_files dict name of
                      Inl e \<Rightarrow> Inl e
                    | Inr (total_size, files) \<Rightarrow>
                        Inr \<lparr>ti_name = name, ti_piece_length = piece_length, ti_total_size = total_size,
                             ti_file_count = of_nat (length files), ti_files = files\<rparr>)))
      | Inr _ \<Rightarrow> Inl (str ''not a dict''))"

end
