(* ===== verification/Metadata_Jobs.thy ===== *)
theory Metadata_Jobs
  imports Metadata_Fetch Metrics "HOL-Library.Sublist"
begin

text \<open>
  The jobs of the metadata fetcher (\<^verbatim>\<open>src/src/metadata.rs\<close>, second half): the queue of
  hashes and the peers known for each, one round of attempts over the peers of a hash, and the
  loop that hands rounds to workers.  The store, the clock, the statistics channel and the
  connections are an environment that answers the n-th operation; every call of the store is
  logged with its number, under which the environment has its answer.  A worker's round takes effect when it is joined.
\<close>

subsection \<open>The store as the fetcher sees it\<close>

text \<open>\<open>sqlx::Error\<close>: its text, and whether it carries a \<open>SearchDocumentTooLarge\<close>.\<close>

datatype db_error = TooLargeDocument rstring | OtherError rstring

fun db_error_text :: "db_error \<Rightarrow> rstring" where
  "db_error_text (TooLargeDocument t) = t"
| "db_error_text (OtherError t) = t"

fun is_unsupported_search_document :: "db_error \<Rightarrow> bool" where
  "is_unsupported_search_document (TooLargeDocument t) = True"
| "is_unsupported_search_document (OtherError t) = False"

datatype peer_retry_eligibility = Eligible | RetryAt int | Rejected

record discovery_persistence =
  dp_torrent_inserted :: bool
  dp_hash_job_created :: bool
  dp_peerless_job_skipped :: bool
  dp_peers_inserted :: u64
  dp_peers_updated :: u64
  dp_peers_deleted :: u64

record hash_job_record =
  hr_info_hash :: info_hash
  hr_status :: rstring
  hr_attempt_count :: u32
  hr_next_attempt_at :: int
  hr_last_failure :: "rstring option"

datatype store_call =
  HashJobIsTerminal info_hash
| PeerRetryEligibility info_hash rstring u32
| SetPeerAttempt info_hash rstring "rstring option"
| CommitMetadata info_hash rstring i64 i64 "(rstring \<times> i64) list"
| UpdateHashJobFailure info_hash rstring u32 int rstring
| PersistHashDiscovery info_hash rstring "peer_contact list" nat
| DueHashJobs nat
| HashJobPeers info_hash nat

record job_env =
  je_terminal :: "nat \<Rightarrow> db_error + bool"
  je_retry :: "nat \<Rightarrow> db_error + peer_retry_eligibility"
  je_attempt :: "nat \<Rightarrow> db_error + unit"
  je_commit :: "nat \<Rightarrow> db_error + unit"
  je_rows :: "nat \<Rightarrow> db_error + u64"
  je_persist :: "nat \<Rightarrow> db_error + discovery_persistence"
  je_due :: "nat \<Rightarrow> db_error + hash_job_record list"
  je_job_peers :: "nat \<Rightarrow> db_error + peer_contact list"
  je_now :: "nat \<Rightarrow> int"
  je_random :: "nat \<Rightarrow> nat"
  je_stats_ok :: "nat \<Rightarrow> bool"
  je_addr_text :: "socket_addr_v4 \<Rightarrow> rstring"
  je_sha1 :: "bytes \<Rightarrow> bytes"
  je_dec :: bdec

record job_world =
  jw_calls :: nat
  jw_log :: "(nat \<times> store_call) list"
  jw_stats :: "crawl_stats_event list"
  jw_metrics :: crawler_metrics

definition tick :: "job_world \<Rightarrow> job_world" where
  "tick w = w\<lparr>jw_calls := jw_calls w + 1\<rparr>"

definition call :: "store_call \<Rightarrow> job_world \<Rightarrow> job_world" where
  "call c w = w\<lparr>jw_calls := jw_calls w + 1, jw_log := (jw_calls w, c) # jw_log w\<rparr>"

definition count :: "(crawler_metrics \<Rightarrow> crawler_metrics) \<Rightarrow> job_world \<Rightarrow> job_world" where
  "count f w = w\<lparr>jw_metrics := f (jw_metrics w)\<rparr>"

definition sat_add_i64 :: "int \<Rightarrow> int \<Rightarrow> int" where
  "sat_add_i64 a b = max (- (2 ^ 63)) (min (2 ^ 63 - 1) (a + b))"

definition sat_add_u32 :: "u32 \<Rightarrow> u32 \<Rightarrow> u32" where
  "sat_add_u32 a b = (if unat a + unat b < 2 ^ 32 then a + b else 0xFFFFFFFF)"

subsection \<open>Statistics and failures\<close>

definition emit_event :: "job_env \<Rightarrow> crawl_stats_event \<Rightarrow> job_world \<Rightarrow> bool \<times> job_world" where
  "emit_event ev event w =
     (let ok = je_stats_ok ev (jw_calls w);
          w = tick (count (metrics_apply event) w)
      in (ok, if ok then w\<lparr>jw_stats := event # jw_stats w\<rparr> else w))"

definition emit_metadata_failure :: "job_env \<Rightarrow> metadata_failure_reason \<Rightarrow> job_world \<Rightarrow> job_world" where
  "emit_metadata_failure ev reason w = snd (emit_event ev (MetadataFetchFailed reason) w)"

definition set_peer_attempt ::
  "job_env \<Rightarrow> info_hash \<Rightarrow> rstring \<Rightarrow> rstring option \<Rightarrow> job_world \<Rightarrow> (db_error + unit) \<times> job_world" where
  "set_peer_attempt ev h addr failure w =
     (je_attempt ev (jw_calls w), call (SetPeerAttempt h addr failure) w)"

definition log_storage_result :: "(db_error + unit) \<times> job_world \<Rightarrow> job_world" where
  "log_storage_result rw =
     (case rw of (Inl e, w) \<Rightarrow> count record_persistence_error w | (Inr _, w) \<Rightarrow> w)"

definition update_hash_job_failure ::
  "job_env \<Rightarrow> info_hash \<Rightarrow> rstring \<Rightarrow> u32 \<Rightarrow> int \<Rightarrow> rstring \<Rightarrow> job_world \<Rightarrow> (db_error + u64) \<times> job_world" where
  "update_hash_job_failure ev h status attempts next_at failure w =
     (je_rows ev (jw_calls w), call (UpdateHashJobFailure h status attempts next_at failure) w)"

definition mark_hash_job_failure ::
  "job_env \<Rightarrow> info_hash \<Rightarrow> rstring \<Rightarrow> u32 \<Rightarrow> int \<Rightarrow> rstring \<Rightarrow> job_world \<Rightarrow> u64 \<times> job_world" where
  "mark_hash_job_failure ev h status attempts next_at failure w =
     (case update_hash_job_failure ev h status attempts next_at failure w of
        (Inr rows, w) \<Rightarrow> (rows, w)
      | (Inl e, w) \<Rightarrow> (0, count record_persistence_error w))"

definition record_retrieval_outcome :: "u64 \<Rightarrow> metadata_retrieval_outcome \<Rightarrow> job_world \<Rightarrow> job_world" where
  "record_retrieval_outcome rows outcome w =
     (if 0 < rows then count (record_metadata_retrieval_outcome outcome) w else w)"

subsection \<open>Which peers may be tried\<close>

definition earlier :: "int option \<Rightarrow> int \<Rightarrow> int option" where
  "earlier next_at retry_at = Some (case next_at of None \<Rightarrow> retry_at | Some current \<Rightarrow> min current retry_at)"

text \<open>The peers that may be tried now, and when the first of the others may be.\<close>

fun filter_peers_for_retry ::
  "job_env \<Rightarrow> info_hash \<Rightarrow> peer_contact list \<Rightarrow> u32 \<Rightarrow> peer_contact list \<Rightarrow> int option \<Rightarrow> job_world \<Rightarrow>
   (peer_contact list \<times> int option) \<times> job_world" where
  "filter_peers_for_retry ev h [] hours eligible next_at w = ((eligible, next_at), w)"
| "filter_peers_for_retry ev h (peer # peers) hours eligible next_at w =
     (let answer = je_retry ev (jw_calls w);
          w = call (PeerRetryEligibility h (je_addr_text ev (pc_addr peer)) hours) w
      in case answer of
           Inr Eligible \<Rightarrow> filter_peers_for_retry ev h peers hours (eligible @ [peer]) next_at w
         | Inr (RetryAt retry_at) \<Rightarrow>
             filter_peers_for_retry ev h peers hours eligible (earlier next_at retry_at) w
         | Inr Rejected \<Rightarrow> filter_peers_for_retry ev h peers hours eligible next_at w
         | Inl e \<Rightarrow>
             (let w = count record_persistence_error w;
                  retry_at = sat_add_i64 (je_now ev (jw_calls w)) 300
              in filter_peers_for_retry ev h peers hours eligible (earlier next_at retry_at) (tick w)))"

subsection \<open>One round over the peers of a hash\<close>

record job_outcome =
  jo_info_hash :: info_hash
  jo_attempts :: u32
  jo_complete :: bool
  jo_terminal :: bool
  jo_parked :: bool

record fetch_round_config =
  fc_connect_timeout :: duration
  fc_peer_timeout :: duration
  fc_retry_after_hours :: u32
  fc_max_metadata_size :: u32
  fc_prior_attempt_count :: u32

type_synonym fetch_fun =
  "nat \<Rightarrow> info_hash \<Rightarrow> peer_contact \<Rightarrow> duration \<Rightarrow> duration \<Rightarrow> u32 \<Rightarrow> (metadata_fetch_error + bytes) option"

text \<open>\<open>None\<close>: the store has failed for as long as the fuel lasts.\<close>

fun await_terminal :: "job_env \<Rightarrow> info_hash \<Rightarrow> nat \<Rightarrow> job_world \<Rightarrow> (bool \<times> job_world) option" where
  "await_terminal ev h 0 w = None"
| "await_terminal ev h (Suc fuel) w =
     (case je_terminal ev (jw_calls w) of
        Inr b \<Rightarrow> Some (b, call (HashJobIsTerminal h) w)
      | Inl e \<Rightarrow> await_terminal ev h fuel (count record_persistence_error (call (HashJobIsTerminal h) w)))"

fun await_unsupported ::
  "job_env \<Rightarrow> info_hash \<Rightarrow> u32 \<Rightarrow> rstring \<Rightarrow> nat \<Rightarrow> job_world \<Rightarrow> (u64 \<times> job_world) option" where
  "await_unsupported ev h attempts msg 0 w = None"
| "await_unsupported ev h attempts msg (Suc fuel) w =
     (case update_hash_job_failure ev h (str ''unsupported'') attempts 0 msg w of
        (Inr rows, w) \<Rightarrow> Some (rows, w)
      | (Inl e, w) \<Rightarrow> await_unsupported ev h attempts msg fuel (count record_persistence_error w))"

record round_acc =
  ra_attempts :: u32
  ra_last_error :: rstring
  ra_long_backoff :: bool
  ra_retryable :: u32

definition job_done :: "info_hash \<Rightarrow> u32 \<Rightarrow> bool \<Rightarrow> bool \<Rightarrow> bool \<Rightarrow> job_outcome" where
  "job_done h attempts complete terminal parked =
     \<lparr>jo_info_hash = h, jo_attempts = attempts, jo_complete = complete, jo_terminal = terminal, jo_parked = parked\<rparr>"

definition retryable_failure :: "rstring \<Rightarrow> round_acc \<Rightarrow> round_acc" where
  "retryable_failure msg acc = acc\<lparr>ra_last_error := msg, ra_retryable := sat_add_u32 (ra_retryable acc) 1\<rparr>"

text \<open>Metadata with the right hash: the round ends, or the commit failed and may be tried again.\<close>

definition accept_metadata ::
  "job_env \<Rightarrow> fetch_round_config \<Rightarrow> info_hash \<Rightarrow> nat \<Rightarrow> bytes \<Rightarrow> round_acc \<Rightarrow> job_world \<Rightarrow>
   ((job_outcome + round_acc) \<times> job_world) option" where
  "accept_metadata ev cfg h fuel bytes acc w =
     (let total_attempts = sat_add_u32 (fc_prior_attempt_count cfg) (ra_attempts acc) in
      case parse_torrent_info (je_dec ev) bytes of
        Inr info \<Rightarrow>
          (let committed = je_commit ev (jw_calls w);
               w = call (CommitMetadata h (ti_name info) (ti_piece_length info) (ti_total_size info) (ti_files info)) w
           in case committed of
                Inr _ \<Rightarrow>
                  (let w = count (record_metadata_retrieval_outcome RO_Complete) w
                   in Some (Inl (job_done h (ra_attempts acc) True False False), snd (emit_event ev MetadataFetched w)))
              | Inl e \<Rightarrow>
                  if is_unsupported_search_document e then
                    (case await_unsupported ev h total_attempts (db_error_text e) fuel w of
                       None \<Rightarrow> None
                     | Some (rows, w) \<Rightarrow>
                         Some (Inl (job_done h (ra_attempts acc) False True False),
                               record_retrieval_outcome rows RO_Unsupported w))
                  else Some (Inr (retryable_failure (str ''storage: '' @ db_error_text e) acc),
                             count record_persistence_error w))
      | Inl e \<Rightarrow>
          (let unsupported = sublist (str ''unsupported'') e;
               status = (if unsupported then str ''unsupported'' else str ''invalid'');
               (rows, w) = mark_hash_job_failure ev h status total_attempts 0 e w;
               w = record_retrieval_outcome rows (if unsupported then RO_Unsupported else RO_Invalid) w
           in Some (Inl (job_done h (ra_attempts acc) False True False), emit_metadata_failure ev FR_Parse w)))"

definition try_peer ::
  "job_env \<Rightarrow> fetch_fun \<Rightarrow> fetch_round_config \<Rightarrow> info_hash \<Rightarrow> nat \<Rightarrow> peer_contact \<Rightarrow> round_acc \<Rightarrow> job_world \<Rightarrow>
   ((job_outcome + round_acc) \<times> job_world) option" where
  "try_peer ev fetch cfg h fuel peer acc w =
     (let acc = acc\<lparr>ra_attempts := sat_add_u32 (ra_attempts acc) 1\<rparr>;
          addr = je_addr_text ev (pc_addr peer);
          (recorded, w) = set_peer_attempt ev h addr None w
      in case recorded of
           Inl e \<Rightarrow>
             Some (Inr (retryable_failure (str ''storage: failed to record peer attempt: '' @ db_error_text e) acc),
                   count record_persistence_error w)
         | Inr _ \<Rightarrow>
             (case fetch (jw_calls w) h peer (fc_connect_timeout cfg) (fc_peer_timeout cfg) (fc_max_metadata_size cfg) of
                None \<Rightarrow> None
              | Some (Inr bytes) \<Rightarrow>
                  if \<not> verify_metadata_hash (je_sha1 ev) h bytes then
                    (let w = log_storage_result (set_peer_attempt ev h addr (Some (str ''metadata hash mismatch'')) w)
                     in Some (Inr (acc\<lparr>ra_last_error := str ''metadata hash mismatch''\<rparr>),
                              emit_metadata_failure ev FR_HashMismatch w))
                  else accept_metadata ev cfg h fuel bytes acc w
              | Some (Inl e) \<Rightarrow>
                  (let acc = (retryable_failure (fetch_error_text e) acc)
                         \<lparr>ra_long_backoff := ra_long_backoff acc \<or> long_backoff e\<rparr>;
                       w = log_storage_result (set_peer_attempt ev h addr (Some (fetch_error_text e)) w)
                   in Some (Inr acc, emit_metadata_failure ev (fetch_error_reason e) w))))"

fun try_peers ::
  "job_env \<Rightarrow> fetch_fun \<Rightarrow> fetch_round_config \<Rightarrow> info_hash \<Rightarrow> nat \<Rightarrow> peer_contact list \<Rightarrow> round_acc \<Rightarrow> job_world \<Rightarrow>
   ((job_outcome + round_acc) \<times> job_world) option" where
  "try_peers ev fetch cfg h fuel [] acc w = Some (Inr acc, w)"
| "try_peers ev fetch cfg h fuel (peer # peers) acc w =
     (case try_peer ev fetch cfg h fuel peer acc w of
        None \<Rightarrow> None
      | Some (Inl outcome, w) \<Rightarrow> Some (Inl outcome, w)
      | Some (Inr acc, w) \<Rightarrow> try_peers ev fetch cfg h fuel peers acc w)"

definition round_delay :: "bool \<Rightarrow> u32 \<Rightarrow> nat \<Rightarrow> nat" where
  "round_delay long attempt_count random =
     (let exponent = min (unat attempt_count) 10;
          base = (if long then 900 else 30);
          delay = min (min (base * 2 ^ exponent) (2 ^ 64 - 1)) (24 * 60 * 60);
          jitter = random mod (max (delay div 4) 1 + 1)
      in delay + jitter)"

text \<open>When the first peer may be tried again, and whether any may.\<close>

definition next_peer_eligibility :: "fetch_round_config \<Rightarrow> int \<Rightarrow> int option \<Rightarrow> round_acc \<Rightarrow> int option" where
  "next_peer_eligibility cfg now next_eligible_at acc =
     (if 0 < ra_retryable acc \<and> 0 < fc_retry_after_hours cfg
      then earlier next_eligible_at (sat_add_i64 now (int (unat (fc_retry_after_hours cfg)) * 3600))
      else next_eligible_at)"

definition has_retryable_peer :: "fetch_round_config \<Rightarrow> int option \<Rightarrow> round_acc \<Rightarrow> bool" where
  "has_retryable_peer cfg next_eligibility acc \<longleftrightarrow>
     next_eligibility \<noteq> None \<or> (0 < ra_retryable acc \<and> fc_retry_after_hours cfg = 0)"

text \<open>No peer gave the metadata: the job is parked, or a retry is scheduled.\<close>

definition end_round ::
  "job_env \<Rightarrow> fetch_round_config \<Rightarrow> info_hash \<Rightarrow> int option \<Rightarrow> round_acc \<Rightarrow> job_world \<Rightarrow> job_outcome \<times> job_world" where
  "end_round ev cfg h next_eligible_at acc w =
     (let attempt_count = sat_add_u32 (fc_prior_attempt_count cfg) (ra_attempts acc);
          now = je_now ev (jw_calls w);
          w = tick w;
          next_eligibility = next_peer_eligibility cfg now next_eligible_at acc
      in if \<not> has_retryable_peer cfg next_eligibility acc then
           (let (rows, w) = mark_hash_job_failure ev h (str ''waiting_peers'') attempt_count 0 (ra_last_error acc) w
            in (job_done h (ra_attempts acc) False False True, record_retrieval_outcome rows RO_WaitingPeers w))
         else
           (let backoff_at = sat_add_i64 now
                  (int (round_delay (ra_long_backoff acc) attempt_count (je_random ev (jw_calls w))));
                w = tick w;
                next_attempt_at =
                  (case next_eligibility of None \<Rightarrow> backoff_at | Some peer_retry_at \<Rightarrow> max backoff_at peer_retry_at);
                (rows, w) = mark_hash_job_failure ev h (str ''retry_at'') attempt_count next_attempt_at (ra_last_error acc) w
            in (job_done h (ra_attempts acc) False False False, record_retrieval_outcome rows RO_RetryAt w)))"

definition process_hash_round_with_fetch ::
  "job_env \<Rightarrow> fetch_fun \<Rightarrow> fetch_round_config \<Rightarrow> info_hash \<Rightarrow> nat \<Rightarrow> peer_contact list \<Rightarrow> job_world \<Rightarrow>
   (job_outcome \<times> job_world) option" where
  "process_hash_round_with_fetch ev fetch cfg h fuel peers w =
     (case await_terminal ev h fuel w of
        None \<Rightarrow> None
      | Some (True, w) \<Rightarrow> Some (job_done h 0 False True False, w)
      | Some (False, w) \<Rightarrow>
          (let ((eligible, next_eligible_at), w) =
                 filter_peers_for_retry ev h peers (fc_retry_after_hours cfg) [] None w;
               acc = \<lparr>ra_attempts = 0, ra_last_error = str ''no eligible peers'', ra_long_backoff = False,
                      ra_retryable = 0\<rparr>
           in case try_peers ev fetch cfg h fuel eligible acc w of
                None \<Rightarrow> None
              | Some (Inl outcome, w) \<Rightarrow> Some (outcome, w)
              | Some (Inr acc, w) \<Rightarrow> Some (end_round ev cfg h next_eligible_at acc w)))"

definition process_hash_round ::
  "job_env \<Rightarrow> (nat \<Rightarrow> peer_contact \<Rightarrow> peer_env \<times> bytes) \<Rightarrow> fetch_round_config \<Rightarrow> info_hash \<Rightarrow> nat \<Rightarrow>
   peer_contact list \<Rightarrow> job_world \<Rightarrow> (job_outcome \<times> job_world) option" where
  "process_hash_round ev dial cfg h fuel peers w =
     process_hash_round_with_fetch ev
       (\<lambda>k hash peer connect_timeout peer_timeout limit.
          fetch_from_peer_with_limit (dial k) hash peer connect_timeout peer_timeout limit fuel)
       cfg h fuel peers w"

end
