(* ===== verification/Metadata_Scheduler.thy ===== *)
theory Metadata_Scheduler
  imports Metadata_Jobs
begin

text \<open>
  The scheduler of the metadata fetcher (\<^verbatim>\<open>src/src/metadata.rs\<close>: \<open>HashJob\<close>,
  \<open>admit_job_peers\<close>, \<open>apply_job_outcome\<close> and the loop of \<open>run_metadata_fetcher\<close>): one step
  per branch of its \<open>select!\<close>, each followed by the hand-out of ready jobs to free workers.
\<close>

subsection \<open>Jobs\<close>

record hash_job =
  hj_peers :: "peer_contact list"
  hj_peer_set :: "socket_addr_v4 set"
  hj_running :: bool
  hj_attempt_count :: u32

definition new_hash_job :: "u32 \<Rightarrow> hash_job" where
  "new_hash_job attempt_count =
     \<lparr>hj_peers = [], hj_peer_set = {}, hj_running = False, hj_attempt_count = attempt_count\<rparr>"

fun admit_peers ::
  "nat \<Rightarrow> peer_contact list \<Rightarrow> peer_contact list \<Rightarrow> socket_addr_v4 set \<Rightarrow> peer_contact list \<times> socket_addr_v4 set" where
  "admit_peers available [] admitted seen = (admitted, seen)"
| "admit_peers available (peer # peers) admitted seen =
     (if available \<le> length admitted then (admitted, seen)
      else if pc_addr peer \<in> seen then admit_peers available peers admitted seen
      else admit_peers available peers (admitted @ [peer]) (insert (pc_addr peer) seen))"

definition merge_peers :: "peer_contact list \<Rightarrow> nat \<Rightarrow> hash_job \<Rightarrow> nat \<times> hash_job" where
  "merge_peers peers limit job =
     (let available = limit - length (hj_peers job);
          (admitted, seen) = admit_peers available peers [] (hj_peer_set job)
      in (length admitted, job\<lparr>hj_peers := admitted @ hj_peers job, hj_peer_set := seen\<rparr>))"

fun take_peers ::
  "nat \<Rightarrow> peer_contact list \<Rightarrow> socket_addr_v4 set \<Rightarrow> peer_contact list \<times> peer_contact list \<times> socket_addr_v4 set" where
  "take_peers 0 peers seen = ([], peers, seen)"
| "take_peers (Suc limit) [] seen = ([], [], seen)"
| "take_peers (Suc limit) (peer # peers) seen =
     (let (taken, rest, seen) = take_peers limit peers (seen - {pc_addr peer}) in (peer # taken, rest, seen))"

definition take_round :: "nat \<Rightarrow> hash_job \<Rightarrow> peer_contact list \<times> hash_job" where
  "take_round limit job =
     (let (taken, rest, seen) = take_peers limit (hj_peers job) (hj_peer_set job)
      in (taken, job\<lparr>hj_peers := rest, hj_peer_set := seen\<rparr>))"

record job_table =
  jt_jobs :: "(info_hash, hash_job) fmap"
  jt_ready :: "info_hash list"
  jt_ready_set :: "info_hash set"

text \<open>\<open>ready_set.insert\<close>, and the push that follows it when the hash was not in the set.\<close>

definition make_ready :: "info_hash \<Rightarrow> job_table \<Rightarrow> job_table" where
  "make_ready h t =
     (if h \<in> jt_ready_set t then t
      else t\<lparr>jt_ready_set := insert h (jt_ready_set t), jt_ready := jt_ready t @ [h]\<rparr>)"

definition admit_job_peers ::
  "info_hash \<Rightarrow> peer_contact list \<Rightarrow> u32 \<Rightarrow> nat \<Rightarrow> nat \<Rightarrow> job_table \<Rightarrow> metadata_job_admission \<times> job_table" where
  "admit_job_peers h peers attempt_count max_active_hash_jobs max_peers_per_hash t =
     (case fmlookup (jt_jobs t) h of
        Some job \<Rightarrow>
          (let job = job\<lparr>hj_attempt_count := max (hj_attempt_count job) attempt_count\<rparr>;
               (added, job) = merge_peers peers max_peers_per_hash job;
               t = t\<lparr>jt_jobs := fmupd h job (jt_jobs t)\<rparr>;
               t = (if 0 < added \<and> \<not> hj_running job then make_ready h t else t)
           in (if 0 < added then JA_Accepted else JA_Unchanged, t))
      | None \<Rightarrow>
          if peers = [] then (JA_NoPeers, t)
          else if max_active_hash_jobs \<le> fcard (fmdom (jt_jobs t)) then (JA_AtCapacity, t)
          else (let (added, job) = merge_peers peers max_peers_per_hash (new_hash_job attempt_count) in
            if added = 0 then (JA_NoPeers, t)
            else (JA_Accepted, t\<lparr>jt_jobs := fmupd h job (jt_jobs t),
                    jt_ready_set := insert h (jt_ready_set t), jt_ready := jt_ready t @ [h]\<rparr>)))"

definition apply_job_outcome :: "job_outcome \<Rightarrow> job_table \<Rightarrow> job_table" where
  "apply_job_outcome outcome t =
     (let h = jo_info_hash outcome;
          (remove, t) =
            (if jo_complete outcome \<or> jo_terminal outcome \<or> jo_parked outcome then (True, t)
             else (case fmlookup (jt_jobs t) h of
                Some job \<Rightarrow>
                  (let job = job\<lparr>hj_running := False,
                         hj_attempt_count := sat_add_u32 (hj_attempt_count job) (jo_attempts outcome)\<rparr>;
                       t = t\<lparr>jt_jobs := fmupd h job (jt_jobs t)\<rparr>
                   in if hj_peers job = [] then (True, t) else (False, make_ready h t))
              | None \<Rightarrow> (False, t)))
      in if remove then t\<lparr>jt_jobs := fmdrop h (jt_jobs t), jt_ready_set := jt_ready_set t - {h}\<rparr> else t)"

definition prioritize_ready_job :: "info_hash \<Rightarrow> metadata_job_admission \<Rightarrow> job_table \<Rightarrow> job_table" where
  "prioritize_ready_job h admission t =
     (if admission = JA_Accepted \<and> h \<in> jt_ready_set t
      then t\<lparr>jt_ready := h # filter (\<lambda>queued. queued \<noteq> h) (jt_ready t)\<rparr>
      else t)"

subsection \<open>The fetcher\<close>

record fetcher_config =
  ff_max_concurrent :: nat
  ff_connect_timeout :: duration
  ff_peer_timeout :: duration
  ff_retry_after_hours :: u32
  ff_max_metadata_size :: u32
  ff_max_peer_attempts_per_round :: nat
  ff_max_active_hash_jobs :: nat
  ff_max_peers_per_hash :: nat

record worker =
  wk_info_hash :: info_hash
  wk_peers :: "peer_contact list"
  wk_prior_attempts :: u32

record fetcher =
  mf_table :: job_table
  mf_workers :: "worker list"
  mf_world :: job_world

definition new_fetcher :: "crawler_metrics \<Rightarrow> fetcher" where
  "new_fetcher metrics =
     \<lparr>mf_table = \<lparr>jt_jobs = fmempty, jt_ready = [], jt_ready_set = {}\<rparr>, mf_workers = [],
      mf_world = \<lparr>jw_calls = 0, jw_log = [], jw_stats = [], jw_metrics = metrics\<rparr>\<rparr>"

definition round_config :: "fetcher_config \<Rightarrow> worker \<Rightarrow> fetch_round_config" where
  "round_config cfg wk =
     \<lparr>fc_connect_timeout = ff_connect_timeout cfg, fc_peer_timeout = ff_peer_timeout cfg,
      fc_retry_after_hours = ff_retry_after_hours cfg, fc_max_metadata_size = ff_max_metadata_size cfg,
      fc_prior_attempt_count = wk_prior_attempts wk\<rparr>"

text \<open>The hand-out of one ready job: \<open>ready\<close> has been popped.\<close>

definition start_job :: "fetcher_config \<Rightarrow> info_hash \<Rightarrow> job_table \<Rightarrow> worker option \<times> job_table" where
  "start_job cfg h t =
     (let t = t\<lparr>jt_ready_set := jt_ready_set t - {h}\<rparr> in
      case fmlookup (jt_jobs t) h of
        None \<Rightarrow> (None, t)
      | Some job \<Rightarrow>
          if hj_running job then (None, t)
          else (let (peers, job) = take_round (ff_max_peer_attempts_per_round cfg) job in
            if peers = [] then (None, t\<lparr>jt_jobs := fmupd h job (jt_jobs t)\<rparr>)
            else (Some \<lparr>wk_info_hash = h, wk_peers = peers, wk_prior_attempts = hj_attempt_count job\<rparr>,
                  t\<lparr>jt_jobs := fmupd h (job\<lparr>hj_running := True\<rparr>) (jt_jobs t)\<rparr>)))"

fun dispatch_loop :: "fetcher_config \<Rightarrow> info_hash list \<Rightarrow> worker list \<Rightarrow> job_table \<Rightarrow> worker list \<times> job_table" where
  "dispatch_loop cfg ready workers t =
     (if length workers < ff_max_concurrent cfg then
        (case ready of
           [] \<Rightarrow> (workers, t\<lparr>jt_ready := []\<rparr>)
         | h # ready \<Rightarrow>
             (case start_job cfg h t of (spawned, t) \<Rightarrow>
                dispatch_loop cfg ready (workers @ (case spawned of None \<Rightarrow> [] | Some wk \<Rightarrow> [wk])) t))
      else (workers, t\<lparr>jt_ready := ready\<rparr>))"

declare dispatch_loop.simps [simp del]

definition dispatch :: "fetcher_config \<Rightarrow> fetcher \<Rightarrow> fetcher" where
  "dispatch cfg s =
     (let (workers, t) = dispatch_loop cfg (jt_ready (mf_table s)) (mf_workers s) (mf_table s)
      in s\<lparr>mf_workers := workers, mf_table := t\<rparr>)"

text \<open>The discovery is persisted, again and again until the store answers.\<close>

fun persist_discovery ::
  "job_env \<Rightarrow> fetcher_config \<Rightarrow> hash_discovery \<Rightarrow> nat \<Rightarrow> job_world \<Rightarrow> (discovery_persistence \<times> job_world) option" where
  "persist_discovery ev cfg d 0 w = None"
| "persist_discovery ev cfg d (Suc fuel) w =
     (let answer = je_persist ev (jw_calls w);
          w = call (PersistHashDiscovery (hd_info_hash d) (discovery_source_as_str (hd_source d)) (hd_peers d)
                (ff_max_peers_per_hash cfg)) w
      in case answer of
           Inr persisted \<Rightarrow> Some (persisted, w)
         | Inl e \<Rightarrow> persist_discovery ev cfg d fuel (count record_persistence_error w))"

definition count_persisted :: "bool \<Rightarrow> discovery_persistence \<Rightarrow> crawler_metrics \<Rightarrow> crawler_metrics" where
  "count_persisted has_peers p m =
     (let m = record_torrents_inserted (if dp_torrent_inserted p then 1 else 0) m;
          m = record_hash_jobs_created (if dp_hash_job_created p then 1 else 0) m;
          m = record_peerless_jobs_skipped (if dp_peerless_job_skipped p then 1 else 0) m;
          m = record_peer_records (dp_peers_inserted p) (dp_peers_updated p) (dp_peers_deleted p) m
      in if has_peers then record_peer_bearing_discoveries_persisted 1 m else m)"

definition on_discovery ::
  "job_env \<Rightarrow> fetcher_config \<Rightarrow> nat \<Rightarrow> hash_discovery \<Rightarrow> fetcher \<Rightarrow> fetcher option" where
  "on_discovery ev cfg fuel d s =
     (case persist_discovery ev cfg d fuel (mf_world s) of
        None \<Rightarrow> None
      | Some (persisted, w) \<Rightarrow>
          (let w = count (count_persisted (hd_peers d \<noteq> []) persisted) w;
               (admission, t) = admit_job_peers (hd_info_hash d) (hd_peers d) 0 (ff_max_active_hash_jobs cfg)
                 (ff_max_peers_per_hash cfg) (mf_table s);
               w = count (record_metadata_job_admission admission) w;
               t = prioritize_ready_job (hd_info_hash d) admission t;
               w = (if admission = JA_AtCapacity then snd (emit_event ev DiscoveryBackpressure w) else w)
           in Some (s\<lparr>mf_table := t, mf_world := w\<rparr>)))"

definition pending_peers :: "job_table \<Rightarrow> nat" where
  "pending_peers t = (\<Sum>h\<in>fset (fmdom (jt_jobs t)). length (hj_peers (the (fmlookup (jt_jobs t) h))))"

definition on_status :: "job_env \<Rightarrow> fetcher \<Rightarrow> fetcher" where
  "on_status ev s =
     (let t = mf_table s in
      s\<lparr>mf_world := snd (emit_event ev
          (MetadataQueue (fcard (fmdom (jt_jobs t))) (length (jt_ready t)) (pending_peers t)) (mf_world s))\<rparr>)"

fun load_records ::
  "job_env \<Rightarrow> nat \<Rightarrow> hash_job_record list \<Rightarrow> job_world \<Rightarrow>
   (db_error + (hash_job_record \<times> peer_contact list) list) \<times> job_world" where
  "load_records ev max_peers [] w = (Inr [], w)"
| "load_records ev max_peers (r # rs) w =
     (case je_job_peers ev (jw_calls w) of
        Inl e \<Rightarrow> (Inl e, call (HashJobPeers (hr_info_hash r) max_peers) w)
      | Inr peers \<Rightarrow>
          (case load_records ev max_peers rs (call (HashJobPeers (hr_info_hash r) max_peers) w) of
             (Inl e, w) \<Rightarrow> (Inl e, w)
           | (Inr loaded, w) \<Rightarrow> (Inr ((r, peers) # loaded), w)))"

definition load_due_jobs ::
  "job_env \<Rightarrow> (info_hash, hash_job) fmap \<Rightarrow> nat \<Rightarrow> nat \<Rightarrow> job_world \<Rightarrow>
   (db_error + (hash_job_record \<times> peer_contact list) list) \<times> job_world" where
  "load_due_jobs ev jobs max_active max_peers w =
     (let available = max_active - fcard (fmdom jobs) in
      if available = 0 then (Inr [], w)
      else (case je_due ev (jw_calls w) of
         Inl e \<Rightarrow> (Inl e, call (DueHashJobs max_active) w)
       | Inr records \<Rightarrow>
           load_records ev max_peers (take available (filter (\<lambda>r. hr_info_hash r |\<notin>| fmdom jobs) records))
             (call (DueHashJobs max_active) w)))"

fun restore_jobs ::
  "fetcher_config \<Rightarrow> (hash_job_record \<times> peer_contact list) list \<Rightarrow> job_table \<times> job_world \<Rightarrow> job_table \<times> job_world" where
  "restore_jobs cfg [] tw = tw"
| "restore_jobs cfg ((r, peers) # loaded) (t, w) =
     (let (admission, t) = admit_job_peers (hr_info_hash r) peers (hr_attempt_count r) (ff_max_active_hash_jobs cfg)
            (ff_max_peers_per_hash cfg) t
      in restore_jobs cfg loaded (t, count (record_metadata_job_admission admission) w))"

definition on_retry :: "job_env \<Rightarrow> fetcher_config \<Rightarrow> fetcher \<Rightarrow> fetcher" where
  "on_retry ev cfg s =
     (case load_due_jobs ev (jt_jobs (mf_table s)) (ff_max_active_hash_jobs cfg) (ff_max_peers_per_hash cfg)
             (mf_world s) of
        (Inl e, w) \<Rightarrow> s\<lparr>mf_world := count record_persistence_error w\<rparr>
      | (Inr loaded, w) \<Rightarrow>
          (let (t, w) = restore_jobs cfg loaded (mf_table s, w) in s\<lparr>mf_table := t, mf_world := w\<rparr>))"

text \<open>
  A worker is joined: it returned the outcome of its round.  A round that has not ended (its
  fuel runs out while the store fails) is not joined yet.
\<close>

definition without_worker :: "nat \<Rightarrow> fetcher \<Rightarrow> fetcher" where
  "without_worker i s = s\<lparr>mf_workers := take i (mf_workers s) @ drop (Suc i) (mf_workers s)\<rparr>"

definition on_joined ::
  "job_env \<Rightarrow> (nat \<Rightarrow> peer_contact \<Rightarrow> peer_env \<times> bytes) \<Rightarrow> fetcher_config \<Rightarrow> nat \<Rightarrow> nat \<Rightarrow> fetcher \<Rightarrow> fetcher" where
  "on_joined ev dial cfg fuel i s =
     (let wk = mf_workers s ! i in
      case process_hash_round ev dial (round_config cfg wk) (wk_info_hash wk) fuel (wk_peers wk) (mf_world s) of
        Some (outcome, w) \<Rightarrow>
          (without_worker i s)\<lparr>mf_table := apply_job_outcome outcome (mf_table s), mf_world := w\<rparr>
      | None \<Rightarrow> s)"

text \<open>\<open>Panicked\<close>: \<open>join_next\<close> answers a \<open>JoinError\<close>, and the worker is gone.\<close>

datatype fetcher_event = Discovered hash_discovery | StatusTick | RetryTick | Joined nat | Panicked nat

fun fetcher_step ::
  "job_env \<Rightarrow> (nat \<Rightarrow> peer_contact \<Rightarrow> peer_env \<times> bytes) \<Rightarrow> fetcher_config \<Rightarrow> nat \<Rightarrow> fetcher_event \<Rightarrow> fetcher \<Rightarrow> fetcher option" where
  "fetcher_step ev dial cfg fuel (Discovered d) s = map_option (dispatch cfg) (on_discovery ev cfg fuel d s)"
| "fetcher_step ev dial cfg fuel StatusTick s = Some (dispatch cfg (on_status ev s))"
| "fetcher_step ev dial cfg fuel RetryTick s = Some (dispatch cfg (on_retry ev cfg s))"
| "fetcher_step ev dial cfg fuel (Joined i) s =
     (if i < length (mf_workers s) then Some (dispatch cfg (on_joined ev dial cfg fuel i s)) else Some s)"
| "fetcher_step ev dial cfg fuel (Panicked i) s =
     (if i < length (mf_workers s) then Some (dispatch cfg (without_worker i s)) else Some s)"

text \<open>
  The channel of discoveries is closed: the running rounds are awaited, and their outcomes
  are not looked at.
\<close>

fun drain_workers ::
  "job_env \<Rightarrow> (nat \<Rightarrow> peer_contact \<Rightarrow> peer_env \<times> bytes) \<Rightarrow> fetcher_config \<Rightarrow> nat \<Rightarrow> worker list \<Rightarrow> job_world \<Rightarrow> job_world" where
  "drain_workers ev dial cfg fuel [] w = w"
| "drain_workers ev dial cfg fuel (wk # workers) w =
     (case process_hash_round ev dial (round_config cfg wk) (wk_info_hash wk) fuel (wk_peers wk) w of
        Some (outcome, w) \<Rightarrow> drain_workers ev dial cfg fuel workers w
      | None \<Rightarrow> drain_workers ev dial cfg fuel workers w)"

definition shut_down ::
  "job_env \<Rightarrow> (nat \<Rightarrow> peer_contact \<Rightarrow> peer_env \<times> bytes) \<Rightarrow> fetcher_config \<Rightarrow> nat \<Rightarrow> fetcher \<Rightarrow> fetcher" where
  "shut_down ev dial cfg fuel s =
     s\<lparr>mf_world := drain_workers ev dial cfg fuel (mf_workers s) (mf_world s), mf_workers := []\<rparr>"

end
