(* ===== verification/Config.thy ===== *)
theory Config
  imports Dht_Codec Metadata_Scheduler
begin

text \<open>
  The configuration (\<^verbatim>\<open>src/src/config.rs\<close>): its sections, the defaults, loading and the
  checks of \<open>validate\<close>, and how \<^verbatim>\<open>src/src/main.rs\<close> hands it to the crawler and the fetcher.
\<close>

record network_config =
  nw_port :: u16
  nw_bootstrap_nodes :: "rstring list"

record metadata_config =
  mc_max_concurrent :: nat
  mc_connect_timeout_secs :: u64
  mc_peer_timeout_secs :: u64
  mc_retry_after_hours :: u32
  mc_peer_attempt_retention_hours :: u32
  mc_max_peers_per_hash :: nat
  mc_max_active_hash_jobs :: nat
  mc_max_metadata_size_bytes :: u32
  mc_max_peer_attempts_per_round :: nat

record database_config =
  bc_path :: "rstring option"
  bc_pool_size :: u32
  bc_web_pool_size :: u32
  bc_tls_ca :: "rstring option"
  bc_allow_insecure_local :: bool
  bc_batch_size :: nat
  bc_flush_interval_ms :: u64

record crawl_config =
  cc_get_peers_interval_secs :: u64
  cc_bucket_refresh_mins :: u64
  cc_resume_info_hash_limit :: nat
  cc_dht_node_resume_limit :: nat
  cc_dht_node_max_age_hours :: u32
  cc_info_hash_channel_capacity :: nat
  cc_stats_channel_capacity :: nat
  cc_max_discovery_hashes :: nat
  cc_max_pending_rpcs :: nat
  cc_max_candidate_nodes :: nat
  cc_rpc_timeout_secs :: u64
  cc_sampling_enabled :: bool
  cc_sampling_interval_secs :: u64
  cc_sampling_min_remote_interval_secs :: u64
  cc_sampling_requests_per_tick :: nat
  cc_max_samples_per_response :: nat
  cc_announced_peer_hash_capacity :: nat
  cc_announced_peers_per_hash :: nat
  cc_announced_peer_ttl_secs :: u64
  cc_shutdown_drain_secs :: u64

record web_config =
  wb_host :: rstring
  wb_port :: u16

record config =
  cfg_network :: network_config
  cfg_metadata :: metadata_config
  cfg_database :: database_config
  cfg_crawl :: crawl_config
  cfg_web :: web_config

definition default_port :: u16 where
  "default_port = 6881"

definition default_bootstrap_nodes :: "rstring list" where
  "default_bootstrap_nodes = [str ''router.bittorrent.com:6881'',
     str ''router.utorrent.com:6881'',
     str ''dht.transmissionbt.com:6881'',
     str ''dht.libtorrent.org:25401'',
     str ''dht.aelitis.com:6881'']"

definition default_max_concurrent :: nat where
  "default_max_concurrent = 10"

definition default_connect_timeout_secs :: u64 where
  "default_connect_timeout_secs = 10"

definition default_peer_timeout_secs :: u64 where
  "default_peer_timeout_secs = 30"

definition default_retry_after_hours :: u32 where
  "default_retry_after_hours = 24"

definition default_peer_attempt_retention_hours :: u32 where
  "default_peer_attempt_retention_hours = 72"

definition default_max_peers_per_hash :: nat where
  "default_max_peers_per_hash = 64"

definition default_max_active_hash_jobs :: nat where
  "default_max_active_hash_jobs = 1024"

definition default_max_metadata_size_bytes :: u32 where
  "default_max_metadata_size_bytes = 8 * 1024 * 1024"

definition default_max_peer_attempts_per_round :: nat where
  "default_max_peer_attempts_per_round = 8"

definition default_pool_size :: u32 where
  "default_pool_size = 8"

definition default_web_pool_size :: u32 where
  "default_web_pool_size = 4"

definition default_database_batch_size :: nat where
  "default_database_batch_size = 128"

definition default_database_flush_interval_ms :: u64 where
  "default_database_flush_interval_ms = 1000"

definition default_get_peers_interval_secs :: u64 where
  "default_get_peers_interval_secs = 5"

definition default_bucket_refresh_mins :: u64 where
  "default_bucket_refresh_mins = 15"

definition default_resume_info_hash_limit :: nat where
  "default_resume_info_hash_limit = 5000"

definition default_dht_node_resume_limit :: nat where
  "default_dht_node_resume_limit = 1024"

definition default_dht_node_max_age_hours :: u32 where
  "default_dht_node_max_age_hours = 24"

definition default_info_hash_channel_capacity :: nat where
  "default_info_hash_channel_capacity = 1024"

definition default_stats_channel_capacity :: nat where
  "default_stats_channel_capacity = 4096"

definition default_max_discovery_hashes :: nat where
  "default_max_discovery_hashes = 50000"

definition default_max_pending_rpcs :: nat where
  "default_max_pending_rpcs = 4096"

definition default_max_candidate_nodes :: nat where
  "default_max_candidate_nodes = 8192"

definition default_rpc_timeout_secs :: u64 where
  "default_rpc_timeout_secs = 30"

definition default_sampling_enabled :: bool where
  "default_sampling_enabled = False"

definition default_sampling_interval_secs :: u64 where
  "default_sampling_interval_secs = 5"

definition default_sampling_min_remote_interval_secs :: u64 where
  "default_sampling_min_remote_interval_secs = 300"

definition default_sampling_requests_per_tick :: nat where
  "default_sampling_requests_per_tick = 1"

definition default_max_samples_per_response :: nat where
  "default_max_samples_per_response = 256"

definition default_announced_peer_hash_capacity :: nat where
  "default_announced_peer_hash_capacity = 10000"

definition default_announced_peers_per_hash :: nat where
  "default_announced_peers_per_hash = 64"

definition default_announced_peer_ttl_secs :: u64 where
  "default_announced_peer_ttl_secs = 1800"

definition default_shutdown_drain_secs :: u64 where
  "default_shutdown_drain_secs = 10"

definition default_web_host :: rstring where
  "default_web_host = str ''127.0.0.1''"

definition default_web_port :: u16 where
  "default_web_port = 8080"

definition default_network_config :: network_config where
  "default_network_config =
     \<lparr>nw_port = default_port,
      nw_bootstrap_nodes = default_bootstrap_nodes\<rparr>"

definition default_metadata_config :: metadata_config where
  "default_metadata_config =
     \<lparr>mc_max_concurrent = default_max_concurrent,
      mc_connect_timeout_secs = default_connect_timeout_secs,
      mc_peer_timeout_secs = default_peer_timeout_secs,
      mc_retry_after_hours = default_retry_after_hours,
      mc_peer_attempt_retention_hours = default_peer_attempt_retention_hours,
      mc_max_peers_per_hash = default_max_peers_per_hash,
      mc_max_active_hash_jobs = default_max_active_hash_jobs,
      mc_max_metadata_size_bytes = default_max_metadata_size_bytes,
      mc_max_peer_attempts_per_round = default_max_peer_attempts_per_round\<rparr>"

definition default_database_config :: database_config where
  "default_database_config =
     \<lparr>bc_path = None,
      bc_pool_size = default_pool_size,
      bc_web_pool_size = default_web_pool_size,
      bc_tls_ca = None,
      bc_allow_insecure_local = False,
      bc_batch_size = default_database_batch_size,
      bc_flush_interval_ms = default_database_flush_interval_ms\<rparr>"

definition default_crawl_config :: crawl_config where
  "default_crawl_config =
     \<lparr>cc_get_peers_interval_secs = default_get_peers_interval_secs,
      cc_bucket_refresh_mins = default_bucket_refresh_mins,
      cc_resume_info_hash_limit = default_resume_info_hash_limit,
      cc_dht_node_resume_limit = default_dht_node_resume_limit,
      cc_dht_node_max_age_hours = default_dht_node_max_age_hours,
      cc_info_hash_channel_capacity = default_info_hash_channel_capacity,
      cc_stats_channel_capacity = default_stats_channel_capacity,
      cc_max_discovery_hashes = default_max_discovery_hashes,
      cc_max_pending_rpcs = default_max_pending_rpcs,
      cc_max_candidate_nodes = default_max_candidate_nodes,
      cc_rpc_timeout_secs = default_rpc_timeout_secs,
      cc_sampling_enabled = default_sampling_enabled,
      cc_sampling_interval_secs = default_sampling_interval_secs,
      cc_sampling_min_remote_interval_secs = default_sampling_min_remote_interval_secs,
      cc_sampling_requests_per_tick = default_sampling_requests_per_tick,
      cc_max_samples_per_response = default_max_samples_per_response,
      cc_announced_peer_hash_capacity = default_announced_peer_hash_capacity,
      cc_announced_peers_per_hash = default_announced_peers_per_hash,
      cc_announced_peer_ttl_secs = default_announced_peer_ttl_secs,
      cc_shutdown_drain_secs = default_shutdown_drain_secs\<rparr>"

definition default_web_config :: web_config where
  "default_web_config =
     \<lparr>wb_host = default_web_host,
      wb_port = default_web_port\<rparr>"

definition default_config :: config where
  "default_config =
     \<lparr>cfg_network = default_network_config,
      cfg_metadata = default_metadata_config,
      cfg_database = default_database_config,
      cfg_crawl = default_crawl_config,
      cfg_web = default_web_config\<rparr>"

subsection \<open>Loading and validating\<close>

text \<open>
  The file's path and content and the parser of the crate \<open>toml\<close> are parameters; the
  parser gives a missing field its default.
\<close>

datatype config_file = Absent | Unreadable rstring | Contents rstring

definition load_config :: "(rstring \<Rightarrow> rstring + config) \<Rightarrow> rstring \<Rightarrow> config_file \<Rightarrow> rstring + config" where
  "load_config from_toml path file =
     (case file of
        Contents contents \<Rightarrow>
          (case from_toml contents of
             Inr config \<Rightarrow> Inr config
           | Inl e \<Rightarrow> Inl (str ''failed to parse '' @ path @ str '': '' @ e))
      | Unreadable e \<Rightarrow> Inl (str ''failed to read '' @ path @ str '': '' @ e)
      | Absent \<Rightarrow> Inr default_config)"

definition range_error :: "rstring \<Rightarrow> nat \<Rightarrow> nat \<Rightarrow> rstring" where
  "range_error name lo hi = name @ str '' must be between '' @ nat_text lo @ str '' and '' @ nat_text hi"

definition validate_range :: "rstring \<Rightarrow> nat \<Rightarrow> nat \<Rightarrow> nat \<Rightarrow> rstring + unit" where
  "validate_range name value lo hi =
     (if lo \<le> value \<and> value \<le> hi then Inr () else Inl (range_error name lo hi))"

definition validate_u64_range :: "rstring \<Rightarrow> u64 \<Rightarrow> u64 \<Rightarrow> u64 \<Rightarrow> rstring + unit" where
  "validate_u64_range name value lo hi =
     (if lo \<le> value \<and> value \<le> hi then Inr () else Inl (range_error name (unat lo) (unat hi)))"

definition checked_mul_u64 :: "u64 \<Rightarrow> u64 \<Rightarrow> u64 option" where
  "checked_mul_u64 a b = (if unat a * unat b < 2 ^ 64 then Some (a * b) else None)"

definition ok_or :: "rstring \<Rightarrow> 'a option \<Rightarrow> rstring + unit" where
  "ok_or e x = (case x of None \<Rightarrow> Inl e | Some _ \<Rightarrow> Inr ())"

text \<open>The checks in their order: the first that fails is the answer.\<close>

fun first_error :: "(rstring + unit) list \<Rightarrow> rstring + unit" where
  "first_error [] = Inr ()"
| "first_error (Inl e # checks) = Inl e"
| "first_error (Inr _ # checks) = first_error checks"

definition validate_config :: "config \<Rightarrow> rstring + unit" where
  "validate_config c = first_error
     [(if bc_path (cfg_database c) \<noteq> None
        then Inl (str ''database.path is no longer supported; set BTFIND_DATABASE_URL to a MySQL connection URL'')
        else Inr ()),
      validate_range (str ''database.pool_size'') (unat (bc_pool_size (cfg_database c))) 1 64,
      validate_range (str ''database.web_pool_size'') (unat (bc_web_pool_size (cfg_database c))) 1 64,
      validate_range (str ''metadata.max_concurrent'') (mc_max_concurrent (cfg_metadata c)) 1 4096,
      validate_range (str ''metadata.max_peers_per_hash'') (mc_max_peers_per_hash (cfg_metadata c)) 1 4096,
      validate_range (str ''metadata.max_active_hash_jobs'') (mc_max_active_hash_jobs (cfg_metadata c)) 1 1000000,
      validate_range (str ''metadata.max_peer_attempts_per_round'') (mc_max_peer_attempts_per_round (cfg_metadata c)) 1 (mc_max_peers_per_hash (cfg_metadata c)),
      validate_range (str ''crawl.info_hash_channel_capacity'') (cc_info_hash_channel_capacity (cfg_crawl c)) 1 1000000,
      validate_range (str ''crawl.stats_channel_capacity'') (cc_stats_channel_capacity (cfg_crawl c)) 1 1000000,
      validate_range (str ''crawl.max_discovery_hashes'') (cc_max_discovery_hashes (cfg_crawl c)) 1 10000000,
      validate_range (str ''crawl.max_pending_rpcs'') (cc_max_pending_rpcs (cfg_crawl c)) 1 65535,
      validate_range (str ''crawl.max_candidate_nodes'') (cc_max_candidate_nodes (cfg_crawl c)) 8 1000000,
      validate_range (str ''crawl.sampling_requests_per_tick'') (cc_sampling_requests_per_tick (cfg_crawl c)) 1 256,
      validate_range (str ''crawl.max_samples_per_response'') (cc_max_samples_per_response (cfg_crawl c)) 1 4096,
      validate_range (str ''crawl.announced_peer_hash_capacity'') (cc_announced_peer_hash_capacity (cfg_crawl c)) 1 1000000,
      validate_range (str ''crawl.announced_peers_per_hash'') (cc_announced_peers_per_hash (cfg_crawl c)) 1 4096,
      validate_range (str ''database.batch_size'') (bc_batch_size (cfg_database c)) 1 10000,
      validate_u64_range (str ''metadata.connect_timeout_secs'') (mc_connect_timeout_secs (cfg_metadata c)) 1 600,
      validate_u64_range (str ''metadata.peer_timeout_secs'') (mc_peer_timeout_secs (cfg_metadata c)) 1 600,
      validate_u64_range (str ''crawl.get_peers_interval_secs'') (cc_get_peers_interval_secs (cfg_crawl c)) 1 3600,
      validate_u64_range (str ''crawl.bucket_refresh_mins'') (cc_bucket_refresh_mins (cfg_crawl c)) 1 1440,
      validate_u64_range (str ''crawl.rpc_timeout_secs'') (cc_rpc_timeout_secs (cfg_crawl c)) 1 600,
      validate_u64_range (str ''crawl.sampling_interval_secs'') (cc_sampling_interval_secs (cfg_crawl c)) 1 3600,
      validate_u64_range (str ''crawl.sampling_min_remote_interval_secs'') (cc_sampling_min_remote_interval_secs (cfg_crawl c)) 1 86400,
      validate_u64_range (str ''crawl.shutdown_drain_secs'') (cc_shutdown_drain_secs (cfg_crawl c)) 1 300,
      validate_u64_range (str ''database.flush_interval_ms'') (bc_flush_interval_ms (cfg_database c)) 1 60000,
      validate_u64_range (str ''crawl.announced_peer_ttl_secs'') (cc_announced_peer_ttl_secs (cfg_crawl c)) 1 86400,
      (if 16384 \<le> mc_max_metadata_size_bytes (cfg_metadata c) \<and> mc_max_metadata_size_bytes (cfg_metadata c) \<le> 67108864
        then Inr ()
        else Inl (str ''metadata.max_metadata_size_bytes must be between 16384 and 67108864'')),
      ok_or (str ''crawl.bucket_refresh_mins overflows seconds'')
        (checked_mul_u64 (cc_bucket_refresh_mins (cfg_crawl c)) 60),
      ok_or (str ''crawl.dht_node_max_age_hours overflows seconds'')
        (checked_mul_u64 (ucast (cc_dht_node_max_age_hours (cfg_crawl c))) 3600),
      ok_or (str ''metadata.peer_attempt_retention_hours overflows seconds'')
        (checked_mul_u64 (ucast (mc_peer_attempt_retention_hours (cfg_metadata c))) 3600)]"

subsection \<open>Handed to the components\<close>

definition dht_config_of :: "config \<Rightarrow> dht_config" where
  "dht_config_of c =
     \<lparr>dc_max_pending_rpcs = cc_max_pending_rpcs (cfg_crawl c),
      dc_max_discovery_hashes = cc_max_discovery_hashes (cfg_crawl c),
      dc_max_candidate_nodes = cc_max_candidate_nodes (cfg_crawl c),
      dc_max_peers_per_hash = mc_max_peers_per_hash (cfg_metadata c),
      dc_rpc_timeout = secs (unat (cc_rpc_timeout_secs (cfg_crawl c))),
      dc_sampling_enabled = cc_sampling_enabled (cfg_crawl c),
      dc_sampling_interval = secs (unat (cc_sampling_interval_secs (cfg_crawl c))),
      dc_sampling_min_remote_interval = secs (unat (cc_sampling_min_remote_interval_secs (cfg_crawl c))),
      dc_sampling_requests_per_tick = cc_sampling_requests_per_tick (cfg_crawl c),
      dc_max_samples_per_response = cc_max_samples_per_response (cfg_crawl c),
      dc_announced_peer_hash_capacity = cc_announced_peer_hash_capacity (cfg_crawl c),
      dc_announced_peers_per_hash = cc_announced_peers_per_hash (cfg_crawl c),
      dc_announced_peer_ttl = secs (unat (cc_announced_peer_ttl_secs (cfg_crawl c)))\<rparr>"

text \<open>The number of workers may be given on the command line; out of range, the run is refused.\<close>

definition fetcher_config_of :: "nat option \<Rightarrow> config \<Rightarrow> fetcher_config option" where
  "fetcher_config_of max_concurrent c =
     (let max_concurrent = (case max_concurrent of Some n \<Rightarrow> n | None \<Rightarrow> mc_max_concurrent (cfg_metadata c)) in
      if \<not> (1 \<le> max_concurrent \<and> max_concurrent \<le> 4096) then None
      else Some \<lparr>ff_max_concurrent = max_concurrent,
        ff_connect_timeout = secs (unat (mc_connect_timeout_secs (cfg_metadata c))),
        ff_peer_timeout = secs (unat (mc_peer_timeout_secs (cfg_metadata c))),
        ff_retry_after_hours = mc_retry_after_hours (cfg_metadata c),
        ff_max_metadata_size = mc_max_metadata_size_bytes (cfg_metadata c),
        ff_max_peer_attempts_per_round = mc_max_peer_attempts_per_round (cfg_metadata c),
        ff_max_active_hash_jobs = mc_max_active_hash_jobs (cfg_metadata c),
        ff_max_peers_per_hash = mc_max_peers_per_hash (cfg_metadata c)\<rparr>)"

end
