(* ===== verification/Scheduler_Invariant.thy ===== *)
theory Scheduler_Invariant
  imports Metadata_Scheduler
begin

text \<open>
  The invariant of the metadata fetcher's scheduler, and that every branch of its loop keeps it.
\<close>

subsection \<open>The peers of a job\<close>

definition job_ok :: "nat \<Rightarrow> hash_job \<Rightarrow> bool" where
  "job_ok limit job \<longleftrightarrow> distinct (map pc_addr (hj_peers job)) \<and>
     hj_peer_set job = pc_addr ` set (hj_peers job) \<and> length (hj_peers job) \<le> limit"

lemma admit_peers_result:
  assumes "admit_peers available peers admitted seen = (admitted', seen')"
  shows "\<exists>new. admitted' = admitted @ new \<and> distinct (map pc_addr new) \<and> pc_addr ` set new \<inter> seen = {} \<and>
    seen' = seen \<union> pc_addr ` set new \<and> length admitted' \<le> max available (length admitted) \<and> set new \<subseteq> set peers"
  using assms
proof (induction available peers admitted seen rule: admit_peers.induct)
  case (2 available peer peers admitted seen)
  show ?case
  proof (cases "available \<le> length admitted")
    case True
    then show ?thesis using "2.prems" by auto
  next
    case room: False
    show ?thesis
    proof (cases "pc_addr peer \<in> seen")
      case True
      then show ?thesis using "2.IH"(1) [OF room True] "2.prems" room by fastforce
    next
      case False
      obtain new where new: "admitted' = (admitted @ [peer]) @ new" "distinct (map pc_addr new)"
        "pc_addr ` set new \<inter> insert (pc_addr peer) seen = {}" "seen' = insert (pc_addr peer) seen \<union> pc_addr ` set new"
        "length admitted' \<le> max available (length (admitted @ [peer]))" "set new \<subseteq> set peers"
        using "2.IH"(2) [OF room False] "2.prems" room False by auto
      show ?thesis
        by (rule exI [of _ "peer # new"]) (use new room False in auto)
    qed
  qed
qed simp

lemma merge_peers_ok:
  assumes "job_ok limit job" "merge_peers peers limit job = (added, job')"
  shows "job_ok limit job'" and "hj_running job' = hj_running job" and "hj_attempt_count job' = hj_attempt_count job"
    and "added = 0 \<Longrightarrow> hj_peers job' = hj_peers job" and "0 < added \<Longrightarrow> hj_peers job' \<noteq> []"
    and "hj_peers job \<noteq> [] \<Longrightarrow> hj_peers job' \<noteq> []"
proof -
  obtain admitted seen where a: "admit_peers (limit - length (hj_peers job)) peers [] (hj_peer_set job) = (admitted, seen)"
    by (cases "admit_peers (limit - length (hj_peers job)) peers [] (hj_peer_set job)")
  then have r: "added = length admitted" "job' = job\<lparr>hj_peers := admitted @ hj_peers job, hj_peer_set := seen\<rparr>"
    using assms(2) by (simp_all add: merge_peers_def)
  have n: "distinct (map pc_addr admitted)" "pc_addr ` set admitted \<inter> hj_peer_set job = {}"
    "seen = hj_peer_set job \<union> pc_addr ` set admitted" "length admitted \<le> limit - length (hj_peers job)"
    using admit_peers_result [OF a] by auto
  show "job_ok limit job'" using n assms(1) by (auto simp: job_ok_def r)
qed (use assms(2) in \<open>auto simp: merge_peers_def Let_def split: prod.splits\<close>)

lemma take_peers_result:
  "take_peers n peers seen = (take n peers, drop n peers, seen - pc_addr ` set (take n peers))"
  by (induction n peers seen rule: take_peers.induct) auto

lemma take_round_result:
  "take_round n job = (take n (hj_peers job),
     job\<lparr>hj_peers := drop n (hj_peers job), hj_peer_set := hj_peer_set job - pc_addr ` set (take n (hj_peers job))\<rparr>)"
  by (simp add: take_round_def take_peers_result)

lemma take_round_ok:
  assumes "job_ok limit job" "take_round n job = (taken, job')"
  shows "job_ok limit job'"
proof -
  have j: "job' = job\<lparr>hj_peers := drop n (hj_peers job), hj_peer_set := hj_peer_set job - pc_addr ` set (take n (hj_peers job))\<rparr>"
    using assms(2) by (auto simp: take_round_result)
  have d: "distinct (map pc_addr (take n (hj_peers job) @ drop n (hj_peers job)))" using assms(1) by (simp add: job_ok_def)
  have "pc_addr ` set (hj_peers job) = pc_addr ` set (take n (hj_peers job)) \<union> pc_addr ` set (drop n (hj_peers job))"
    by (metis append_take_drop_id image_Un set_append)
  moreover have "pc_addr ` set (take n (hj_peers job)) \<inter> pc_addr ` set (drop n (hj_peers job)) = {}"
    using d unfolding map_append distinct_append by simp
  ultimately have "hj_peer_set job - pc_addr ` set (take n (hj_peers job)) = pc_addr ` set (drop n (hj_peers job))"
    using assms(1) by (auto simp: job_ok_def)
  then show ?thesis using assms(1) by (auto simp: job_ok_def j drop_map [symmetric])
qed

subsection \<open>The scheduler\<close>

definition sched_ok ::
  "fetcher_config \<Rightarrow> info_hash list \<Rightarrow> info_hash set \<Rightarrow> (info_hash, hash_job) fmap \<Rightarrow> worker list \<Rightarrow> bool" where
  "sched_ok cfg ready rset jobs workers \<longleftrightarrow>
     distinct ready \<and> set ready = rset \<and>
     (\<forall>h. h \<in> rset \<longleftrightarrow> (\<exists>job. fmlookup jobs h = Some job \<and> \<not> hj_running job)) \<and>
     (\<forall>h job. fmlookup jobs h = Some job \<longrightarrow>
        job_ok (ff_max_peers_per_hash cfg) job \<and> (\<not> hj_running job \<longrightarrow> hj_peers job \<noteq> [])) \<and>
     fcard (fmdom jobs) \<le> ff_max_active_hash_jobs cfg \<and>
     distinct (map wk_info_hash workers) \<and> length workers \<le> ff_max_concurrent cfg \<and>
     (\<forall>wk\<in>set workers. (\<exists>job. fmlookup jobs (wk_info_hash wk) = Some job \<and> hj_running job) \<and>
        wk_peers wk \<noteq> [] \<and> length (wk_peers wk) \<le> ff_max_peer_attempts_per_round cfg)"

abbreviation table_ok :: "fetcher_config \<Rightarrow> job_table \<Rightarrow> worker list \<Rightarrow> bool" where
  "table_ok cfg t workers \<equiv> sched_ok cfg (jt_ready t) (jt_ready_set t) (jt_jobs t) workers"

text \<open>A job that is not running is changed: it keeps peers, and it is ready.\<close>

lemma fcard_upd_same: "h |\<in>| fmdom m \<Longrightarrow> fcard (fmdom (fmupd h x m)) = fcard (fmdom m)"
  by (simp add: finsert_absorb)

lemma fcard_upd_new: "h |\<notin>| fmdom m \<Longrightarrow> fcard (fmdom (fmupd h x m)) = Suc (fcard (fmdom m))"
  by (simp add: fcard_finsert_disjoint)

lemma sched_update:
  assumes "sched_ok cfg ready rset jobs workers" "fmlookup jobs h = Some job0"
    and "job_ok (ff_max_peers_per_hash cfg) job" "hj_running job = hj_running job0"
    and "\<not> hj_running job \<Longrightarrow> hj_peers job \<noteq> []"
  shows "sched_ok cfg ready rset (fmupd h job jobs) workers"
proof -
  have "fcard (fmdom (fmupd h job jobs)) = fcard (fmdom jobs)"
    using assms(2) by (intro fcard_upd_same) (rule fmdomI)
  then show ?thesis
    using assms unfolding sched_ok_def by (auto simp del: fmdom_fmupd)
qed

lemma sched_insert:
  assumes "sched_ok cfg ready rset jobs workers" "fmlookup jobs h = None"
    and "job_ok (ff_max_peers_per_hash cfg) job" "\<not> hj_running job" "hj_peers job \<noteq> []"
    and "fcard (fmdom jobs) < ff_max_active_hash_jobs cfg"
  shows "sched_ok cfg (ready @ [h]) (insert h rset) (fmupd h job jobs) workers"
proof -
  have c: "fcard (fmdom (fmupd h job jobs)) = Suc (fcard (fmdom jobs))"
    using assms(2) by (intro fcard_upd_new) (simp add: fmdom_notI)
  have new: "h \<notin> rset" using assms(1,2) unfolding sched_ok_def by (metis option.distinct(1))
  show ?thesis
    using assms new c unfolding sched_ok_def by (auto simp del: fmdom_fmupd)
qed

lemma make_ready_idle: "h \<in> jt_ready_set t \<Longrightarrow> make_ready h t = t"
  by (simp add: make_ready_def)

lemma admit_keeps:
  assumes ok: "table_ok cfg t workers"
    and adm: "admit_job_peers h peers n (ff_max_active_hash_jobs cfg) (ff_max_peers_per_hash cfg) t = (admission, t')"
  shows "table_ok cfg t' workers"
proof (cases "fmlookup (jt_jobs t) h")
  case (Some job)
  let ?job = "job\<lparr>hj_attempt_count := max (hj_attempt_count job) n\<rparr>"
  obtain added job' where m: "merge_peers peers (ff_max_peers_per_hash cfg) ?job = (added, job')"
    by (cases "merge_peers peers (ff_max_peers_per_hash cfg) ?job")
  have j: "job_ok (ff_max_peers_per_hash cfg) job" "\<not> hj_running job \<Longrightarrow> hj_peers job \<noteq> []"
    using ok Some by (auto simp: sched_ok_def)
  then have jok: "job_ok (ff_max_peers_per_hash cfg) ?job" by (simp add: job_ok_def)
  note merged = merge_peers_ok [OF jok m]
  let ?t = "t\<lparr>jt_jobs := fmupd h job' (jt_jobs t)\<rparr>"
  have t: "table_ok cfg ?t workers"
    using sched_update [OF ok Some merged(1)] merged j(2) by simp
  have idle: "make_ready h ?t = ?t" if "\<not> hj_running job'"
    using that ok Some merged(2) by (intro make_ready_idle) (auto simp: sched_ok_def)
  have "t' = ?t" using adm idle by (auto simp: admit_job_peers_def Some m Let_def split: if_splits)
  then show ?thesis using t by simp
next
  case None
  show ?thesis
  proof (cases "peers = [] \<or> ff_max_active_hash_jobs cfg \<le> fcard (fmdom (jt_jobs t))")
    case True
    then have "t' = t" using adm by (auto simp: admit_job_peers_def None split: if_splits)
    then show ?thesis using ok by simp
  next
    case False
    obtain added job where m: "merge_peers peers (ff_max_peers_per_hash cfg) (new_hash_job n) = (added, job)"
      by (cases "merge_peers peers (ff_max_peers_per_hash cfg) (new_hash_job n)")
    have "job_ok (ff_max_peers_per_hash cfg) (new_hash_job n)" by (simp add: job_ok_def new_hash_job_def)
    note merged = merge_peers_ok [OF this m]
    have run: "\<not> hj_running job" using merged(2) by (simp add: new_hash_job_def)
    show ?thesis
    proof (cases "added = 0")
      case True
      then have "t' = t" using adm False by (auto simp: admit_job_peers_def None m)
      then show ?thesis using ok by simp
    next
      case added: False
      then have "t' = t\<lparr>jt_jobs := fmupd h job (jt_jobs t),
                    jt_ready_set := insert h (jt_ready_set t), jt_ready := jt_ready t @ [h]\<rparr>"
        using adm False by (auto simp: admit_job_peers_def None m)
      then show ?thesis
        using sched_insert [OF ok None merged(1) run merged(5)] added False by simp
    qed
  qed
qed

lemma prioritize_keeps: "table_ok cfg t workers \<Longrightarrow> table_ok cfg (prioritize_ready_job h a t) workers"
  by (auto simp: prioritize_ready_job_def sched_ok_def)

lemma sched_remove:
  assumes "sched_ok cfg ready rset jobs workers" "fmlookup jobs h = Some job" "hj_running job"
    and "h \<notin> wk_info_hash ` set workers"
  shows "sched_ok cfg ready (rset - {h}) (fmdrop h jobs) workers"
proof -
  have "fmdom (fmdrop h jobs) |\<subseteq>| fmdom jobs" by auto
  then have "fcard (fmdom (fmdrop h jobs)) \<le> fcard (fmdom jobs)" by (rule fcard_mono)
  moreover have "h \<notin> rset" using assms(1-3) by (auto simp: sched_ok_def)
  ultimately show ?thesis
    using assms unfolding sched_ok_def by (auto simp del: fmdom_drop)
qed

lemma sched_finish:
  assumes "sched_ok cfg ready rset jobs workers" "fmlookup jobs h = Some job" "hj_running job"
    and "h \<notin> wk_info_hash ` set workers"
    and "job_ok (ff_max_peers_per_hash cfg) job'" "\<not> hj_running job'" "hj_peers job' \<noteq> []"
  shows "h \<notin> rset" "sched_ok cfg (ready @ [h]) (insert h rset) (fmupd h job' jobs) workers"
proof -
  have "fcard (fmdom (fmupd h job' jobs)) = fcard (fmdom jobs)"
    using assms(2) by (intro fcard_upd_same) (rule fmdomI)
  moreover show new: "h \<notin> rset" using assms(1-3) by (auto simp: sched_ok_def)
  ultimately show "sched_ok cfg (ready @ [h]) (insert h rset) (fmupd h job' jobs) workers"
    using assms unfolding sched_ok_def by (auto simp del: fmdom_fmupd)
qed

lemma outcome_keeps:
  assumes ok: "table_ok cfg t workers" and job: "fmlookup (jt_jobs t) (jo_info_hash outcome) = Some job" "hj_running job"
    and free: "jo_info_hash outcome \<notin> wk_info_hash ` set workers"
  shows "table_ok cfg (apply_job_outcome outcome t) workers"
proof -
  let ?h = "jo_info_hash outcome"
  let ?job = "job\<lparr>hj_running := False, hj_attempt_count := sat_add_u32 (hj_attempt_count job) (jo_attempts outcome)\<rparr>"
  let ?t = "t\<lparr>jt_jobs := fmupd ?h ?job (jt_jobs t)\<rparr>"
  have jok: "job_ok (ff_max_peers_per_hash cfg) job" using ok job by (auto simp: sched_ok_def)
  show ?thesis
  proof (cases "jo_complete outcome \<or> jo_terminal outcome \<or> jo_parked outcome")
    case True
    then show ?thesis using sched_remove [OF ok job free] by (simp add: apply_job_outcome_def Let_def)
  next
    case go: False
    show ?thesis
    proof (cases "hj_peers job = []")
      case True
      have "fmdrop ?h (fmupd ?h ?job (jt_jobs t)) = fmdrop ?h (jt_jobs t)" by (rule fmap_ext) simp
      then show ?thesis using sched_remove [OF ok job free] go True job
        by (simp add: apply_job_outcome_def Let_def)
    next
      case False
      have "job_ok (ff_max_peers_per_hash cfg) ?job" using jok by (simp add: job_ok_def)
      note fin = sched_finish [OF ok job free this]
      have "apply_job_outcome outcome t = make_ready ?h ?t" using go False job
        by (simp add: apply_job_outcome_def Let_def)
      then show ?thesis using fin False by (simp add: make_ready_def)
    qed
  qed
qed

subsection \<open>Handing out jobs\<close>

text \<open>Between the pop of a hash and the hand-out of its job.\<close>

lemma start_job_keeps:
  assumes ok: "sched_ok cfg (h # ready) (jt_ready_set t) (jt_jobs t) workers"
    and room: "length workers < ff_max_concurrent cfg" "0 < ff_max_peer_attempts_per_round cfg"
  shows "\<exists>wk t'. start_job cfg h t = (Some wk, t') \<and> wk_info_hash wk = h \<and>
    sched_ok cfg ready (jt_ready_set t') (jt_jobs t') (workers @ [wk]) \<and> (\<forall>h'. h' \<noteq> h \<longrightarrow> fmlookup (jt_jobs t') h' = fmlookup (jt_jobs t) h')"
proof -
  obtain job where job: "fmlookup (jt_jobs t) h = Some job" "\<not> hj_running job"
    using ok unfolding sched_ok_def by (metis list.set_intros(1))
  have jok: "job_ok (ff_max_peers_per_hash cfg) job" and ne: "hj_peers job \<noteq> []"
    using ok job by (auto simp: sched_ok_def)
  obtain taken job1 where take: "take_round (ff_max_peer_attempts_per_round cfg) job = (taken, job1)"
    by (cases "take_round (ff_max_peer_attempts_per_round cfg) job")
  have j1: "job_ok (ff_max_peers_per_hash cfg) job1" by (rule take_round_ok [OF jok take])
  have taken: "taken \<noteq> []" "length taken \<le> ff_max_peer_attempts_per_round cfg"
    using take ne room(2) by (auto simp: take_round_result)
  let ?job = "job1\<lparr>hj_running := True\<rparr>"
  let ?wk = "\<lparr>wk_info_hash = h, wk_peers = taken, wk_prior_attempts = hj_attempt_count job1\<rparr>"
  let ?t = "t\<lparr>jt_ready_set := jt_ready_set t - {h}, jt_jobs := fmupd h ?job (jt_jobs t)\<rparr>"
  have start: "start_job cfg h t = (Some ?wk, ?t)" using job take taken(1) by (simp add: start_job_def Let_def)
  have c: "fcard (fmdom (fmupd h ?job (jt_jobs t))) = fcard (fmdom (jt_jobs t))"
    using job by (intro fcard_upd_same) (rule fmdomI)
  have fresh: "h \<notin> wk_info_hash ` set workers" using ok job by (auto simp: sched_ok_def)
  have "job_ok (ff_max_peers_per_hash cfg) ?job" using j1 by (simp add: job_ok_def)
  then have "sched_ok cfg ready (jt_ready_set t - {h}) (fmupd h ?job (jt_jobs t)) (workers @ [?wk])"
    using ok c fresh taken room unfolding sched_ok_def by (auto simp del: fmdom_fmupd)
  then show ?thesis using start by simp
qed

lemma dispatch_loop_keeps:
  assumes "sched_ok cfg ready (jt_ready_set t) (jt_jobs t) workers" "0 < ff_max_peer_attempts_per_round cfg"
    and "dispatch_loop cfg ready workers t = (workers', t')"
  shows "table_ok cfg t' workers' \<and> (length workers' = ff_max_concurrent cfg \<or> jt_ready t' = []) \<and>
    (\<forall>h. h \<notin> set ready \<longrightarrow> fmlookup (jt_jobs t') h = fmlookup (jt_jobs t) h \<and>
       (h \<in> wk_info_hash ` set workers' \<longleftrightarrow> h \<in> wk_info_hash ` set workers))"
  using assms
proof (induction ready arbitrary: workers t)
  case Nil
  have "length workers \<le> ff_max_concurrent cfg" using Nil.prems(1) by (simp add: sched_ok_def)
  then show ?case using Nil.prems by (auto simp: dispatch_loop.simps [of cfg "[]"] split: if_splits)
next
  case (Cons h ready)
  show ?case
  proof (cases "length workers < ff_max_concurrent cfg")
    case False
    have "length workers \<le> ff_max_concurrent cfg" using Cons.prems(1) by (simp add: sched_ok_def)
    then show ?thesis using Cons.prems False by (auto simp: dispatch_loop.simps [of cfg "h # ready"])
  next
    case True
    obtain wk t1 where start: "start_job cfg h t = (Some wk, t1)" "wk_info_hash wk = h"
      "sched_ok cfg ready (jt_ready_set t1) (jt_jobs t1) (workers @ [wk])"
      "\<forall>h'. h' \<noteq> h \<longrightarrow> fmlookup (jt_jobs t1) h' = fmlookup (jt_jobs t) h'"
      using start_job_keeps [OF Cons.prems(1) True Cons.prems(2)] by blast
    have "dispatch_loop cfg ready (workers @ [wk]) t1 = (workers', t')"
      using Cons.prems(3) True start(1) by (simp add: dispatch_loop.simps [of cfg "h # ready"])
    note ih = Cons.IH [OF start(3) Cons.prems(2) this]
    then show ?thesis using start(2,4) by (auto simp: image_iff)
  qed
qed

lemma dispatch_keeps:
  assumes "table_ok cfg (mf_table s) (mf_workers s)" "0 < ff_max_peer_attempts_per_round cfg"
  shows "table_ok cfg (mf_table (dispatch cfg s)) (mf_workers (dispatch cfg s))"
    and "length (mf_workers (dispatch cfg s)) = ff_max_concurrent cfg \<or> jt_ready (mf_table (dispatch cfg s)) = []"
    and "h \<notin> jt_ready_set (mf_table s) \<Longrightarrow>
      fmlookup (jt_jobs (mf_table (dispatch cfg s))) h = fmlookup (jt_jobs (mf_table s)) h \<and>
      (h \<in> wk_info_hash ` set (mf_workers (dispatch cfg s)) \<longleftrightarrow> h \<in> wk_info_hash ` set (mf_workers s))"
proof -
  obtain workers t where d: "dispatch_loop cfg (jt_ready (mf_table s)) (mf_workers s) (mf_table s) = (workers, t)"
    by (cases "dispatch_loop cfg (jt_ready (mf_table s)) (mf_workers s) (mf_table s)")
  then have s: "mf_workers (dispatch cfg s) = workers" "mf_table (dispatch cfg s) = t" by (simp_all add: dispatch_def)
  have "set (jt_ready (mf_table s)) = jt_ready_set (mf_table s)" using assms(1) by (simp add: sched_ok_def)
  then show "table_ok cfg (mf_table (dispatch cfg s)) (mf_workers (dispatch cfg s))"
    and "length (mf_workers (dispatch cfg s)) = ff_max_concurrent cfg \<or> jt_ready (mf_table (dispatch cfg s)) = []"
    and "h \<notin> jt_ready_set (mf_table s) \<Longrightarrow>
      fmlookup (jt_jobs (mf_table (dispatch cfg s))) h = fmlookup (jt_jobs (mf_table s)) h \<and>
      (h \<in> wk_info_hash ` set (mf_workers (dispatch cfg s)) \<longleftrightarrow> h \<in> wk_info_hash ` set (mf_workers s))"
    using dispatch_loop_keeps [OF assms d] unfolding s by blast+
qed

subsection \<open>The branches of the loop\<close>

text \<open>A round answers for the hash it was started for.\<close>

lemma try_peers_hash:
  "try_peers ev fetch cfg h fuel peers acc w = Some (Inl outcome, w') \<Longrightarrow> jo_info_hash outcome = h"
proof (induction peers arbitrary: acc w)
  case (Cons peer peers)
  show ?case
  proof (cases "try_peer ev fetch cfg h fuel peer acc w")
    case None
    then show ?thesis using Cons.prems by simp
  next
    case (Some r)
    obtain x w1 where r: "r = (x, w1)" by (cases r)
    show ?thesis
    proof (cases x)
      case (Inl o1)
      have "jo_info_hash o1 = h"
        using Some unfolding r Inl
        by (auto simp: try_peer_def accept_metadata_def job_done_def Let_def split: prod.splits sum.splits option.splits if_splits)
      then show ?thesis using Cons.prems Some r Inl by simp
    next
      case (Inr acc1)
      then show ?thesis using Cons Some r by simp
    qed
  qed
qed simp

lemma round_hash:
  "process_hash_round_with_fetch ev fetch cfg h fuel peers w = Some (outcome, w') \<Longrightarrow> jo_info_hash outcome = h"
  using try_peers_hash
  by (auto simp: process_hash_round_with_fetch_def end_round_def job_done_def Let_def
      split: option.splits prod.splits bool.splits sum.splits if_splits)

lemma restore_keeps:
  "table_ok cfg t workers \<Longrightarrow> restore_jobs cfg loaded (t, w) = (t', w') \<Longrightarrow> table_ok cfg t' workers"
proof (induction loaded arbitrary: t w)
  case (Cons rp loaded)
  obtain r peers where rp: "rp = (r, peers)" by (cases rp)
  obtain a t1 where a: "admit_job_peers (hr_info_hash r) peers (hr_attempt_count r) (ff_max_active_hash_jobs cfg)
            (ff_max_peers_per_hash cfg) t = (a, t1)"
    by (cases "admit_job_peers (hr_info_hash r) peers (hr_attempt_count r) (ff_max_active_hash_jobs cfg)
            (ff_max_peers_per_hash cfg) t")
  show ?case using Cons.IH [OF admit_keeps [OF Cons.prems(1) a]] Cons.prems(2) by (simp add: rp a)
qed simp

lemma discovery_keeps:
  assumes "table_ok cfg (mf_table s) (mf_workers s)" "on_discovery ev cfg fuel d s = Some s'"
  shows "table_ok cfg (mf_table s') (mf_workers s')"
proof -
  obtain p w where p: "persist_discovery ev cfg d fuel (mf_world s) = Some (p, w)"
    using assms(2) by (auto simp: on_discovery_def split: option.splits)
  obtain a t where a: "admit_job_peers (hd_info_hash d) (hd_peers d) 0 (ff_max_active_hash_jobs cfg)
                 (ff_max_peers_per_hash cfg) (mf_table s) = (a, t)"
    by (cases "admit_job_peers (hd_info_hash d) (hd_peers d) 0 (ff_max_active_hash_jobs cfg)
                 (ff_max_peers_per_hash cfg) (mf_table s)")
  have "mf_table s' = prioritize_ready_job (hd_info_hash d) a t" "mf_workers s' = mf_workers s"
    using assms(2) by (auto simp: on_discovery_def p a Let_def)
  then show ?thesis using prioritize_keeps [OF admit_keeps [OF assms(1) a]] by simp
qed

lemma retry_keeps:
  assumes "table_ok cfg (mf_table s) (mf_workers s)"
  shows "table_ok cfg (mf_table (on_retry ev cfg s)) (mf_workers (on_retry ev cfg s))"
  using assms restore_keeps [OF assms]
  by (auto simp: on_retry_def split: prod.splits sum.splits)

definition others :: "nat \<Rightarrow> 'a list \<Rightarrow> 'a list" where
  "others i xs = take i xs @ drop (Suc i) xs"

lemma without_worker_others:
  "without_worker i s = s\<lparr>mf_workers := others i (mf_workers s)\<rparr>"
  by (simp add: without_worker_def others_def)

lemma others_distinct:
  assumes "i < length xs" "distinct (map f xs)"
  shows "distinct (map f (others i xs))" "f (xs ! i) \<notin> f ` set (others i xs)" "set (others i xs) \<subseteq> set xs"
    "length (others i xs) \<le> length xs" "f ` set xs = insert (f (xs ! i)) (f ` set (others i xs))"
proof -
  have x: "xs = take i xs @ xs ! i # drop (Suc i) xs" using assms(1) by (simp add: id_take_nth_drop)
  then have "distinct (map f (take i xs @ xs ! i # drop (Suc i) xs))" using assms(2) by simp
  then show "distinct (map f (others i xs))" "f (xs ! i) \<notin> f ` set (others i xs)" by (auto simp: others_def)
  show "set (others i xs) \<subseteq> set xs" by (auto simp: others_def dest: in_set_takeD in_set_dropD)
  show "length (others i xs) \<le> length xs" by (simp add: others_def)
  have "set xs = insert (xs ! i) (set (others i xs))" by (subst x) (auto simp: others_def)
  then show "f ` set xs = insert (f (xs ! i)) (f ` set (others i xs))" by simp
qed

lemma fewer_workers:
  assumes "sched_ok cfg ready rset jobs workers" "i < length workers"
  shows "sched_ok cfg ready rset jobs (others i workers)"
  using assms others_distinct [OF assms(2), of wk_info_hash] unfolding sched_ok_def by auto

lemma joined_keeps:
  assumes ok: "table_ok cfg (mf_table s) (mf_workers s)" and i: "i < length (mf_workers s)"
  shows "table_ok cfg (mf_table (on_joined ev dial cfg fuel i s)) (mf_workers (on_joined ev dial cfg fuel i s))"
proof -
  let ?wk = "mf_workers s ! i"
  have d: "distinct (map wk_info_hash (mf_workers s))" using ok by (simp add: sched_ok_def)
  note few = fewer_workers [OF ok i]
  obtain job where job: "fmlookup (jt_jobs (mf_table s)) (wk_info_hash ?wk) = Some job" "hj_running job"
    using ok i unfolding sched_ok_def by (metis nth_mem)
  show ?thesis
  proof (cases "process_hash_round ev dial (round_config cfg ?wk) (wk_info_hash ?wk) fuel (wk_peers ?wk) (mf_world s)")
    case None
    then show ?thesis using ok by (simp add: on_joined_def Let_def)
  next
    case (Some r)
    obtain outcome w where r: "r = (outcome, w)" by (cases r)
    have "jo_info_hash outcome = wk_info_hash ?wk"
      using Some round_hash unfolding r process_hash_round_def by blast
    then have "table_ok cfg (apply_job_outcome outcome (mf_table s)) (others i (mf_workers s))"
      using outcome_keeps [OF few, of outcome] job others_distinct(2) [OF i d] by simp
    then show ?thesis using Some r by (simp add: on_joined_def Let_def without_worker_others)
  qed
qed

subsection \<open>Runs\<close>

text \<open>The store answers a write of a discovery after fewer than \<open>fuel\<close> failures in a row.\<close>

definition answers_within :: "nat \<Rightarrow> job_env \<Rightarrow> bool" where
  "answers_within fuel ev \<longleftrightarrow> (\<forall>k. \<exists>j<fuel. \<exists>p. je_persist ev (k + j) = Inr p)"

lemma persist_answers:
  assumes "\<exists>j<fuel. \<exists>p. je_persist ev (jw_calls w + j) = Inr p"
  shows "\<exists>p w'. persist_discovery ev cfg d fuel w = Some (p, w')"
  using assms
proof (induction fuel arbitrary: w)
  case (Suc fuel)
  let ?w = "call (PersistHashDiscovery (hd_info_hash d) (discovery_source_as_str (hd_source d)) (hd_peers d)
                (ff_max_peers_per_hash cfg)) w"
  show ?case
  proof (cases "je_persist ev (jw_calls w)")
    case (Inr p)
    then show ?thesis by simp
  next
    case (Inl e)
    obtain j p where j: "j < Suc fuel" "je_persist ev (jw_calls w + j) = Inr p" using Suc.prems by blast
    then obtain i where "j = Suc i" using Inl by (cases j) auto
    then have "\<exists>j<fuel. \<exists>p. je_persist ev (jw_calls (count record_persistence_error ?w) + j) = Inr p"
      using j by (intro exI [of _ i]) (simp add: count_def call_def)
    from Suc.IH [OF this] show ?thesis using Inl by (simp add: Let_def)
  qed
qed simp

definition fetcher_ok :: "fetcher_config \<Rightarrow> fetcher \<Rightarrow> bool" where
  "fetcher_ok cfg s \<longleftrightarrow> table_ok cfg (mf_table s) (mf_workers s) \<and>
     (length (mf_workers s) = ff_max_concurrent cfg \<or> jt_ready (mf_table s) = [])"

lemma step_keeps:
  assumes "0 < ff_max_peer_attempts_per_round cfg" "answers_within fuel ev" "fetcher_ok cfg s"
  shows "ensures (fetcher_step ev dial cfg fuel e s) (fetcher_ok cfg)"
proof -
  have disp: "fetcher_ok cfg (dispatch cfg s')" if "table_ok cfg (mf_table s') (mf_workers s')" for s'
    using dispatch_keeps [OF that assms(1)] by (simp add: fetcher_ok_def)
  have ok: "table_ok cfg (mf_table s) (mf_workers s)" using assms(3) by (simp add: fetcher_ok_def)
  show ?thesis
  proof (cases e)
    case (Discovered d)
    have "\<exists>j<fuel. \<exists>p. je_persist ev (jw_calls (mf_world s) + j) = Inr p"
      using assms(2) by (simp add: answers_within_def)
    then obtain p w where "persist_discovery ev cfg d fuel (mf_world s) = Some (p, w)"
      using persist_answers by blast
    then obtain s' where "on_discovery ev cfg fuel d s = Some s'"
      by (cases "on_discovery ev cfg fuel d s") (simp_all add: on_discovery_def Let_def split: prod.splits)
    then show ?thesis using disp [OF discovery_keeps [OF ok]] Discovered by (simp add: ensures_iff)
  next
    case StatusTick
    have "table_ok cfg (mf_table (on_status ev s)) (mf_workers (on_status ev s))" using ok by (simp add: on_status_def Let_def)
    then show ?thesis using disp StatusTick by (simp add: ensures_iff)
  next
    case RetryTick
    then show ?thesis using disp [OF retry_keeps [OF ok]] by (simp add: ensures_iff)
  next
    case (Joined i)
    then show ?thesis using disp [OF joined_keeps [OF ok]] assms(3) by (simp add: ensures_iff)
  next
    case (Panicked i)
    then show ?thesis using disp [of "without_worker i s"] fewer_workers [OF ok] assms(3)
      by (simp add: ensures_iff without_worker_others)
  qed
qed

text \<open>A configuration and a store under which the fetcher is a machine that never stops.\<close>

definition sound_setting :: "fetcher_config \<times> nat \<times> job_env \<Rightarrow> bool" where
  "sound_setting x = (case x of (cfg, fuel, ev) \<Rightarrow> 0 < ff_max_peer_attempts_per_round cfg \<and> answers_within fuel ev)"

text \<open>The state of the machine carries its setting: an event changes the state only.\<close>

definition setting_step ::
  "(nat \<Rightarrow> peer_contact \<Rightarrow> peer_env \<times> bytes) \<Rightarrow> fetcher_event \<Rightarrow>
   (fetcher_config \<times> nat \<times> job_env) \<times> fetcher \<Rightarrow> ((fetcher_config \<times> nat \<times> job_env) \<times> fetcher) option" where
  "setting_step dial e x = (case x of ((cfg, fuel, ev), s) \<Rightarrow>
     map_option (Pair (cfg, fuel, ev)) (fetcher_step ev dial cfg fuel e s))"

definition setting_ok :: "(fetcher_config \<times> nat \<times> job_env) \<times> fetcher \<Rightarrow> bool" where
  "setting_ok x \<longleftrightarrow> sound_setting (fst x) \<and> fetcher_ok (fst (fst x)) (snd x)"

interpretation sched: machine "setting_step dial" setting_ok "\<lambda>e. True"
proof
  fix s e assume "setting_ok s"
  then show "ensures (setting_step dial e s) setting_ok"
    using step_keeps [of "fst (fst s)" "fst (snd (fst s))" "snd (snd (fst s))" "snd s" dial e]
    by (cases s) (auto simp: setting_ok_def sound_setting_def setting_step_def ensures_iff)
qed

lemma setting_run:
  "fold_opt (setting_step dial) es ((cfg, fuel, ev), s) =
   map_option (Pair (cfg, fuel, ev)) (fold_opt (fetcher_step ev dial cfg fuel) es s)"
proof (induction es arbitrary: s)
  case (Cons e es)
  then show ?case by (cases "fetcher_step ev dial cfg fuel e s") (simp_all add: setting_step_def)
qed simp

lemma fetcher_run:
  assumes "0 < ff_max_peer_attempts_per_round cfg" "answers_within fuel ev"
  shows "\<exists>s. fold_opt (fetcher_step ev dial cfg fuel) es (new_fetcher m) = Some s \<and> fetcher_ok cfg s"
proof -
  have "setting_ok ((cfg, fuel, ev), new_fetcher m)"
    using assms by (simp add: setting_ok_def sound_setting_def fetcher_ok_def new_fetcher_def sched_ok_def fcard_fempty)
  from sched.run_no_panic [OF this, of es dial] show ?thesis
    by (auto simp: setting_run setting_ok_def list_all_iff)
qed

subsection \<open>A job without a worker\<close>

text \<open>What a panic of a worker leaves behind.\<close>

definition stuck :: "info_hash \<Rightarrow> fetcher \<Rightarrow> bool" where
  "stuck h s \<longleftrightarrow> (\<exists>job. fmlookup (jt_jobs (mf_table s)) h = Some job \<and> hj_running job) \<and>
     h \<notin> wk_info_hash ` set (mf_workers s)"

definition runs_in :: "info_hash \<Rightarrow> job_table \<Rightarrow> bool" where
  "runs_in h t \<longleftrightarrow> (\<exists>job. fmlookup (jt_jobs t) h = Some job \<and> hj_running job)"

lemma merge_running: "merge_peers peers limit job = (added, job') \<Longrightarrow> hj_running job' = hj_running job"
  by (auto simp: merge_peers_def Let_def split: prod.splits)

lemma make_ready_jobs [simp]: "jt_jobs (make_ready h t) = jt_jobs t"
  by (simp add: make_ready_def)

lemma admit_runs:
  assumes "runs_in h t" "admit_job_peers h' peers n max_active max_peers t = (a, t')"
  shows "runs_in h t'"
  using assms by (auto simp: runs_in_def admit_job_peers_def Let_def merge_running split: option.splits prod.splits if_splits)

lemma prioritize_jobs [simp]: "jt_jobs (prioritize_ready_job h a t) = jt_jobs t"
  by (simp add: prioritize_ready_job_def)

lemma restore_runs:
  "runs_in h t \<Longrightarrow> restore_jobs cfg loaded (t, w) = (t', w') \<Longrightarrow> runs_in h t'"
proof (induction loaded arbitrary: t w)
  case (Cons rp loaded)
  obtain r peers where rp: "rp = (r, peers)" by (cases rp)
  obtain a t1 where a: "admit_job_peers (hr_info_hash r) peers (hr_attempt_count r) (ff_max_active_hash_jobs cfg)
            (ff_max_peers_per_hash cfg) t = (a, t1)"
    by (cases "admit_job_peers (hr_info_hash r) peers (hr_attempt_count r) (ff_max_active_hash_jobs cfg)
            (ff_max_peers_per_hash cfg) t")
  show ?case using Cons.IH [OF admit_runs [OF Cons.prems(1) a]] Cons.prems(2) by (simp add: rp a)
qed simp

lemma outcome_runs:
  assumes "runs_in h t" "jo_info_hash outcome \<noteq> h"
  shows "runs_in h (apply_job_outcome outcome t)"
  using assms by (auto simp: runs_in_def apply_job_outcome_def Let_def split: option.split)

lemma stuck_dispatch:
  assumes "table_ok cfg (mf_table s) (mf_workers s)" "0 < ff_max_peer_attempts_per_round cfg" "stuck h s"
  shows "stuck h (dispatch cfg s)"
proof -
  have "h \<notin> jt_ready_set (mf_table s)" using assms(1,3) by (auto simp: sched_ok_def stuck_def)
  then show ?thesis using dispatch_keeps(3) [OF assms(1,2)] assms(3) by (simp add: stuck_def)
qed

lemma stuck_step:
  assumes "0 < ff_max_peer_attempts_per_round cfg" "fetcher_ok cfg s" "stuck h s"
    and "fetcher_step ev dial cfg fuel e s = Some s'"
  shows "stuck h s'"
proof -
  have ok: "table_ok cfg (mf_table s) (mf_workers s)" using assms(2) by (simp add: fetcher_ok_def)
  have run: "runs_in h (mf_table s)" and free: "h \<notin> wk_info_hash ` set (mf_workers s)"
    using assms(3) by (auto simp: stuck_def runs_in_def)
  have disp: "stuck h (dispatch cfg s1)"
    if "table_ok cfg (mf_table s1) (mf_workers s1)" "runs_in h (mf_table s1)" "h \<notin> wk_info_hash ` set (mf_workers s1)" for s1
    using stuck_dispatch [OF that(1) assms(1)] that(2,3) by (simp add: stuck_def runs_in_def)
  show ?thesis
  proof (cases e)
    case (Discovered d)
    then obtain s1 where s1: "on_discovery ev cfg fuel d s = Some s1" "s' = dispatch cfg s1" using assms(4) by auto
    have "runs_in h (mf_table s1) \<and> mf_workers s1 = mf_workers s"
      using s1(1) admit_runs [OF run] by (auto simp: on_discovery_def runs_in_def Let_def split: option.splits prod.splits)
    then show ?thesis using disp [OF discovery_keeps [OF ok s1(1)]] free s1(2) by simp
  next
    case StatusTick
    then show ?thesis using disp [of "on_status ev s"] ok run free assms(4) by (auto simp: on_status_def Let_def)
  next
    case RetryTick
    have "runs_in h (mf_table (on_retry ev cfg s)) \<and> mf_workers (on_retry ev cfg s) = mf_workers s"
      using run restore_runs [OF run] by (auto simp: on_retry_def split: prod.splits sum.splits)
    then show ?thesis using disp [OF retry_keeps [OF ok]] free assms(4) RetryTick by auto
  next
    case (Joined i)
    show ?thesis
    proof (cases "i < length (mf_workers s)")
      case False
      then show ?thesis using Joined assms(3,4) by simp
    next
      case True
      let ?wk = "mf_workers s ! i"
      have d: "distinct (map wk_info_hash (mf_workers s))" using ok by (simp add: sched_ok_def)
      have ne: "wk_info_hash ?wk \<noteq> h" using free True by auto
      have others: "h \<notin> wk_info_hash ` set (others i (mf_workers s))"
        using free others_distinct(5) [OF True d] by auto
      have "runs_in h (mf_table (on_joined ev dial cfg fuel i s)) \<and>
          h \<notin> wk_info_hash ` set (mf_workers (on_joined ev dial cfg fuel i s))"
        using run ne outcome_runs [OF run] round_hash free others
        by (auto simp: on_joined_def Let_def without_worker_others process_hash_round_def split: option.split)
      then show ?thesis using disp [OF joined_keeps [OF ok True, of ev dial fuel]] assms(4) Joined True by simp
    qed
  next
    case (Panicked i)
    show ?thesis
    proof (cases "i < length (mf_workers s)")
      case False
      then show ?thesis using Panicked assms(3,4) by simp
    next
      case True
      have d: "distinct (map wk_info_hash (mf_workers s))" using ok by (simp add: sched_ok_def)
      have "h \<notin> wk_info_hash ` set (others i (mf_workers s))"
        using free others_distinct(5) [OF True d] by auto
      then show ?thesis using disp [of "without_worker i s"] fewer_workers [OF ok True] run assms(4) Panicked True
        by (simp add: without_worker_others)
    qed
  qed
qed

lemma stuck_run:
  assumes "0 < ff_max_peer_attempts_per_round cfg" "answers_within fuel ev" "fetcher_ok cfg s" "stuck h s"
  shows "\<exists>s'. fold_opt (fetcher_step ev dial cfg fuel) es s = Some s' \<and> stuck h s' \<and> fetcher_ok cfg s'"
proof -
  have "ensures (fold_opt (fetcher_step ev dial cfg fuel) es s) (\<lambda>s. fetcher_ok cfg s \<and> stuck h s)"
  proof (rule fold_opt_inv [where I = "\<lambda>s. fetcher_ok cfg s \<and> stuck h s"])
    fix e s assume "fetcher_ok cfg s \<and> stuck h s"
    then show "ensures (fetcher_step ev dial cfg fuel e s) (\<lambda>s. fetcher_ok cfg s \<and> stuck h s)"
      using step_keeps [OF assms(1,2), of s dial e] stuck_step [OF assms(1), of s h ev dial fuel e]
      by (auto simp: ensures_iff)
  qed (use assms in simp)
  then show ?thesis by (auto simp: ensures_iff)
qed

lemma panic_stuck:
  assumes "fetcher_ok cfg s" "i < length (mf_workers s)" "0 < ff_max_peer_attempts_per_round cfg"
    and "fetcher_step ev dial cfg fuel (Panicked i) s = Some s'"
  shows "stuck (wk_info_hash (mf_workers s ! i)) s'"
proof -
  have ok: "table_ok cfg (mf_table s) (mf_workers s)" using assms(1) by (simp add: fetcher_ok_def)
  then have d: "distinct (map wk_info_hash (mf_workers s))" by (simp add: sched_ok_def)
  let ?s = "s\<lparr>mf_workers := others i (mf_workers s)\<rparr>"
  have s': "s' = dispatch cfg ?s" using assms(2,4) by (simp add: without_worker_others)
  have "\<exists>job. fmlookup (jt_jobs (mf_table s)) (wk_info_hash (mf_workers s ! i)) = Some job \<and> hj_running job"
    using ok assms(2) unfolding sched_ok_def by (metis nth_mem)
  then have "stuck (wk_info_hash (mf_workers s ! i)) ?s"
    using others_distinct(2) [OF assms(2) d] by (simp add: stuck_def)
  then show ?thesis using stuck_dispatch [of cfg ?s, OF _ assms(3)] fewer_workers [OF ok assms(2)] s' by simp
qed

end
