(* ===== verification/Metadata_Sessions.thy ===== *)
theory Metadata_Sessions
  imports Metadata_Fetch Bep3
begin

text \<open>
  Sessions with a peer: what the fetcher sends is a prefix of one fixed conversation, it
  answers in bounded time, and an honest peer's metadata arrives intact, whatever order its
  pieces come in and whatever other messages come between.
\<close>

lemma and_then_split:
  "P (and_then m f c) \<longleftrightarrow>
     (m c = None \<longrightarrow> P None) \<and> (\<forall>e c'. m c = Some (Inl e, c') \<longrightarrow> P (Some (Inl e, c'))) \<and>
     (\<forall>x c'. m c = Some (Inr x, c') \<longrightarrow> P (f x c'))"
  by (auto simp: and_then_def split: option.split sum.split prod.split)

lemma and_then_Inr: "m c = Some (Inr x, c') \<Longrightarrow> and_then m f c = f x c'"
  by (simp add: and_then_def)

subsection \<open>An honest peer\<close>

text \<open>A connection on which every operation succeeds at once.\<close>

definition calm :: "peer_env \<Rightarrow> bool" where
  "calm ev \<longleftrightarrow> (\<forall>k d. pe_io ev k d = IoDone) \<and> (\<forall>k j. pe_clock ev k = pe_clock ev j) \<and> (\<forall>v. pe_enc ev v \<noteq> None)"

lemma calm_write:
  "calm ev \<Longrightarrow> write_all_timeout ev bs d stage c =
     Some (Inr (), c\<lparr>pc_ops := pc_ops c + 1, pc_written := bs # pc_written c\<rparr>)"
  by (simp add: write_all_timeout_def calm_def)

lemma calm_read:
  assumes "calm ev" "pc_in c = bs @ rest" "length bs = n"
  shows "read_exact_timeout ev n d stage c = Some (Inr bs, c\<lparr>pc_ops := pc_ops c + 1, pc_in := rest\<rparr>)"
  using assms by (simp add: read_exact_timeout_def calm_def Let_def)

definition small_message :: "wire_message \<Rightarrow> bool" where
  "small_message m \<longleftrightarrow> message_fits m \<and> length (message_payload m) \<le> 262144"

lemma calm_frame:
  assumes "calm ev" "small_message m" "pc_in c = message_to_bytes m @ rest"
  shows "\<exists>c'. read_next_frame ev d stage c = Some (Inr (Some m), c') \<and> pc_in c' = rest"
proof (cases "m = KeepAlive")
  case True
  have z: "u32_of_be [0, 0, 0, 0] = 0" by (simp add: u32_of_be_def be_value_def)
  have "pc_in c = [0, 0, 0, 0] @ rest" using assms(3) True by (simp add: message_to_bytes_def)
  note h = calm_read [OF assms(1) this, of 4 d stage]
  then show ?thesis using True z by (simp add: read_next_frame_def and_then_def returns_def)
next
  case False
  let ?p = "message_payload m" and ?len = "of_nat (length (message_payload m)) :: u32"
  have fits: "length ?p < 2 ^ 32" "length ?p \<le> 262144" using assms(2) by (auto simp: small_message_def message_fits_def)
  have ne: "?p \<noteq> []" using False by (cases m) auto
  have un: "unat ?len = length ?p" using fits(1) by (simp add: unat_of_nat)
  have nz: "?len \<noteq> 0" using un ne by (metis length_0_conv unat_0)
  have le: "\<not> 262144 < ?len" using fits(2) un by (simp add: word_less_nat_alt)
  have fr: "from_bytes_frame ?len ?p = Some m"
    using frame_from_to_bytes [of m] assms(2) False by (simp add: small_message_def message_to_bytes_def Let_def)
  have "pc_in c = u32_be ?len @ ?p @ rest" using assms(3) False by (simp add: message_to_bytes_def Let_def)
  note h = calm_read [OF assms(1) this length_u32_be, of d stage]
  let ?c = "c\<lparr>pc_ops := pc_ops c + 1, pc_in := ?p @ rest\<rparr>"
  have "pc_in ?c = ?p @ rest" by simp
  note b = calm_read [OF assms(1) this un [symmetric], of d stage]
  show ?thesis using h b nz le fr by (simp add: read_next_frame_def and_then_def returns_def Let_def)
qed

lemma calm_enc: "calm ev \<Longrightarrow> \<exists>bs. pe_enc ev v = Some bs"
  by (auto simp: calm_def)

lemma calm_request_more:
  assumes "calm ev"
  shows "\<exists>r' c'. request_more ev plan r c = Some (Inr r', c') \<and> pc_in c' = pc_in c"
  using assms
proof (induction ev plan r c rule: request_more.induct)
  case (1 ev plan r c)
  show ?case
  proof (cases "rq_next r < fp_total plan \<and> rq_in_flight r < fp_max_outstanding plan")
    case True
    obtain req where req: "build_metadata_request (pe_enc ev) (rq_next r) = Some req"
      using calm_enc [OF "1.prems"] unfolding build_metadata_request_def by blast
    note w = calm_write [OF "1.prems", of "message_to_bytes (Extended (fp_peer_id plan) req)" "fp_peer_timeout plan" MetadataWrite c]
    from "1.IH" [OF True req w refl refl "1.prems"] show ?thesis
      using True req w by (subst request_more.simps) simp
  next
    case False
    then show ?thesis by (subst request_more.simps) auto
  qed
qed


subsection \<open>Blocks\<close>

definition block :: "bytes \<Rightarrow> nat \<Rightarrow> bytes" where
  "block md k = take 16384 (drop (k * 16384) md)"

lemma ceil_div: "((n::nat) + 16383) div 16384 = (if n mod 16384 = 0 then n div 16384 else n div 16384 + 1)"
proof -
  define q r where "q = n div 16384" and "r = n mod 16384"
  have n: "n = r + q * 16384" and r: "r < 16384" by (simp_all add: q_def r_def)
  show ?thesis
  proof (cases "r = 0")
    case True
    then show ?thesis using n by simp
  next
    case False
    then obtain r' where r': "r = Suc r'" by (cases r) auto
    then have "n + 16383 = r' + (q + 1) * 16384" using n by simp
    then have "(n + 16383) div 16384 = q + 1" using r r' by (simp only: div_mult_self3) simp
    then show ?thesis using False by (simp add: q_def r_def)
  qed
qed

lemma piece_count_unat:
  assumes "length md < 2 ^ 32"
  shows "unat (metadata_piece_count (of_nat (length md))) = (length md + 16383) div 16384"
proof -
  let ?n = "length md"
  have u: "unat (of_nat ?n :: u32) = ?n" using assms by (simp add: unat_of_nat)
  have d: "unat ((of_nat ?n :: u32) div METADATA_PIECE) = ?n div 16384"
    by (simp add: unat_div u METADATA_PIECE_def)
  have m: "(of_nat ?n :: u32) mod METADATA_PIECE = 0 \<longleftrightarrow> ?n mod 16384 = 0"
    by (simp add: word_unat_eq_iff unat_mod u METADATA_PIECE_def)
  have lt: "?n div 16384 + 1 < 2 ^ 32" using assms by simp
  have "unat ((of_nat ?n :: u32) div METADATA_PIECE + 1) = ?n div 16384 + 1"
    using lt d by (simp add: unat_word_ariths)
  then show ?thesis using m d ceil_div [of ?n] by (simp add: metadata_piece_count_def)
qed

lemma block_length:
  assumes "length md < 2 ^ 32" "k < (length md + 16383) div 16384"
  shows "metadata_piece_len (of_nat (length md)) (metadata_piece_count (of_nat (length md))) (of_nat k) = length (block md k)"
proof -
  let ?n = "length md" and ?t = "metadata_piece_count (of_nat (length md))"
  have t: "unat ?t = (?n + 16383) div 16384" by (rule piece_count_unat [OF assms(1)])
  have kn: "k * 16384 < ?n" "k < 2 ^ 32" using assms by linarith+
  have k1: "of_nat k + 1 = ?t \<longleftrightarrow> k + 1 = (?n + 16383) div 16384"
  proof -
    have "unat (of_nat k + 1 :: u32) = k + 1" using kn assms(1) by (simp add: unat_word_ariths unat_of_nat)
    then show ?thesis using t by (metis word_unat_eq_iff)
  qed
  have mul: "unat ((of_nat k :: u32) * 16384) = k * 16384"
    using kn assms(1) by (simp add: unat_word_ariths unat_of_nat)
  have "unat ((of_nat ?n :: u32) - of_nat k * 16384) = ?n - k * 16384"
    using mul kn assms(1) by (simp add: unat_sub word_le_nat_alt unat_of_nat)
  then show ?thesis using k1 assms(2) kn by (auto simp: metadata_piece_len_def block_def)
qed

lemma concat_blocks: "concat (map (block md) [0..<(length md + 16383) div 16384]) = md"
proof -
  have "concat (map (block md) [0..<t]) = take (t * 16384) md" for t
    by (induction t) (simp_all add: block_def take_add [symmetric] add.commute)
  then show ?thesis by (simp add: div_times_less_eq_dividend)
qed


subsection \<open>Pieces from an honest peer\<close>

definition piece_message :: "peer_env \<Rightarrow> bytes \<Rightarrow> nat \<Rightarrow> wire_message \<Rightarrow> bool" where
  "piece_message ev md k m \<longleftrightarrow> (case m of
      Extended i payload \<Rightarrow> i = LOCAL_METADATA_ID \<and>
        parse_metadata_response (pe_dec ev) payload = Some (Inr (of_nat k, of_nat (length md), block md k))
    | _ \<Rightarrow> False)"

text \<open>Every message addressed to our message id is a piece of \<open>md\<close>; the others are anything.\<close>

definition honest_message :: "peer_env \<Rightarrow> bytes \<Rightarrow> wire_message \<Rightarrow> bool" where
  "honest_message ev md m \<longleftrightarrow> small_message m \<and>
     (\<forall>payload. m = Extended LOCAL_METADATA_ID payload \<longrightarrow>
        (\<exists>k<(length md + 16383) div 16384. piece_message ev md k m))"

definition pieces_ok :: "bytes \<Rightarrow> progress \<Rightarrow> bool" where
  "pieces_ok md p \<longleftrightarrow> length (pg_pieces p) = (length md + 16383) div 16384 \<and>
     (\<forall>k<length (pg_pieces p). pg_pieces p ! k \<in> {None, Some (block md k)}) \<and>
     unat (pg_received p) = length (filter (\<lambda>x. x \<noteq> None) (pg_pieces p))"

lemma filter_update:
  "k < length xs \<Longrightarrow> \<not> P (xs ! k) \<Longrightarrow> P x \<Longrightarrow> length (filter P (xs[k := x])) = Suc (length (filter P xs))"
proof (induction xs arbitrary: k)
  case (Cons y ys)
  then show ?case by (cases k) auto
qed simp

lemma received_all:
  assumes "pieces_ok md p" "length md < 2 ^ 32"
  shows "\<not> pg_received p < metadata_piece_count (of_nat (length md)) \<longleftrightarrow>
    pg_pieces p = map (\<lambda>k. Some (block md k)) [0..<(length md + 16383) div 16384]"
proof -
  let ?T = "(length md + 16383) div 16384"
  have l: "length (pg_pieces p) = ?T" and r: "unat (pg_received p) = length (filter (\<lambda>x. x \<noteq> None) (pg_pieces p))"
    and v: "\<And>k. k < ?T \<Longrightarrow> pg_pieces p ! k \<in> {None, Some (block md k)}"
    using assms(1) by (auto simp: pieces_ok_def)
  let ?f = "length (filter (\<lambda>x. x \<noteq> None) (pg_pieces p))"
  have "\<not> pg_received p < metadata_piece_count (of_nat (length md)) \<longleftrightarrow> \<not> ?f < ?T"
    unfolding word_less_nat_alt piece_count_unat [OF assms(2)] r ..
  also have "\<dots> \<longleftrightarrow> ?f = length (pg_pieces p)"
    using length_filter_le [of "\<lambda>x. x \<noteq> None" "pg_pieces p"] unfolding l by linarith
  also have "\<dots> \<longleftrightarrow> (\<forall>x\<in>set (pg_pieces p). x \<noteq> None)"
  proof
    assume e: "?f = length (pg_pieces p)"
    show "\<forall>x\<in>set (pg_pieces p). x \<noteq> None"
    proof (intro ballI notI)
      fix x assume "x \<in> set (pg_pieces p)" "x = None"
      then have "?f < length (pg_pieces p)" by (intro length_filter_less [of x]) auto
      then show False using e by simp
    qed
  qed (simp add: filter_True)
  also have "\<dots> \<longleftrightarrow> pg_pieces p = map (\<lambda>k. Some (block md k)) [0..<?T]"
  proof
    assume a: "\<forall>x\<in>set (pg_pieces p). x \<noteq> None"
    show "pg_pieces p = map (\<lambda>k. Some (block md k)) [0..<?T]"
    proof (rule nth_equalityI)
      fix k assume "k < length (pg_pieces p)"
      then show "pg_pieces p ! k = map (\<lambda>k. Some (block md k)) [0..<?T] ! k"
        using v [of k] a l by (metis (no_types, lifting) add_0 diff_zero insertE length_upt nth_map nth_mem nth_upt singletonD)
    qed (simp add: l)
  qed auto
  finally show ?thesis .
qed

lemma accept_piece_honest:
  assumes p: "pieces_ok md p" and md: "length md < 2 ^ 32" and k: "k < (length md + 16383) div 16384"
    and plan: "fp_size plan = of_nat (length md)" "fp_total plan = metadata_piece_count (of_nat (length md))"
  shows "\<exists>p'. accept_piece plan (of_nat k) (of_nat (length md)) (block md k) p = Inr p' \<and> pieces_ok md p' \<and>
    pg_pieces p' = (pg_pieces p)[k := Some (block md k)]"
proof -
  have T: "(length md + 16383) div 16384 < 2 ^ 32" using md by simp
  have u: "unat (of_nat k :: u32) = k" using k T by (simp add: unat_of_nat)
  have range: "\<not> fp_total plan \<le> of_nat k"
    by (simp add: plan(2) word_le_nat_alt piece_count_unat [OF md] u k not_le)
  have l: "length (pg_pieces p) = (length md + 16383) div 16384" using p by (simp add: pieces_ok_def)
  show ?thesis
  proof (cases "pg_pieces p ! k = None")
    case True
    have lt: "length (filter (\<lambda>x. x \<noteq> None) (pg_pieces p)) < length (pg_pieces p)"
      using True k l by (intro length_filter_less [of None]) (auto simp: in_set_conv_nth)
    then have "unat (pg_received p + 1) = Suc (unat (pg_received p))"
      using p T l by (simp add: pieces_ok_def unat_word_ariths)
    moreover have "length (filter (\<lambda>x. x \<noteq> None) ((pg_pieces p)[k := Some (block md k)])) =
        Suc (length (filter (\<lambda>x. x \<noteq> None) (pg_pieces p)))"
      using True k l by (intro filter_update) auto
    ultimately show ?thesis using True p range l k
      by (auto simp: accept_piece_def Let_def plan block_length [OF md k] u pieces_ok_def nth_list_update)
  next
    case False
    then have "pg_pieces p ! k = Some (block md k)" using p k l by (auto simp: pieces_ok_def)
    moreover have "(pg_pieces p)[k := pg_pieces p ! k] = pg_pieces p" by (rule list_update_id)
    ultimately have "(pg_pieces p)[k := Some (block md k)] = pg_pieces p" by simp
    then show ?thesis using p range False
      by (auto simp: accept_piece_def Let_def plan block_length [OF md k] u pieces_ok_def)
  qed
qed

lemma piece_index_small:
  assumes "length md < 2 ^ 32" "k < (length md + 16383) div 16384"
  shows "unat (of_nat k :: u32) = k"
proof -
  have "(length md + 16383) div 16384 \<le> length md + 1" by simp
  then have "k < 2 ^ 32" using assms by linarith
  then have "k mod 2 ^ 32 = k" by (rule mod_less)
  then show ?thesis by (simp add: unat_of_nat)
qed

lemma piece_index_inj:
  assumes "length md < 2 ^ 32" "k < (length md + 16383) div 16384" "j < (length md + 16383) div 16384"
    and e: "(of_nat k :: u32) = of_nat j"
  shows "k = j"
proof -
  have "unat (of_nat k :: u32) = unat (of_nat j :: u32)" using e by (rule arg_cong)
  then show ?thesis unfolding piece_index_small [OF assms(1,2)] piece_index_small [OF assms(1,3)] .
qed

lemma read_pieces_honest:
  assumes "calm ev" "length md < 2 ^ 32" "0 < fp_peer_timeout plan"
    and plan: "fp_size plan = of_nat (length md)" "fp_total plan = metadata_piece_count (of_nat (length md))"
    and "\<forall>m\<in>set ms. honest_message ev md m" "length ms \<le> fuel" "start = pe_clock ev 0"
    and "pieces_ok md p" "pc_in c = concat (map message_to_bytes ms) @ rest"
    and "\<forall>k<(length md + 16383) div 16384. pg_pieces p ! k = None \<longrightarrow> (\<exists>m\<in>set ms. piece_message ev md k m)"
  shows "\<exists>p' c'. read_pieces ev plan start fuel p c = Some (Inr p', c') \<and>
    pg_pieces p' = map (\<lambda>k. Some (block md k)) [0..<(length md + 16383) div 16384]"
  using assms(6-)
proof (induction ms arbitrary: fuel p c)
  case Nil
  have l: "length (pg_pieces p) = (length md + 16383) div 16384" using Nil.prems(4) by (simp add: pieces_ok_def)
  have "pg_pieces p = map (\<lambda>k. Some (block md k)) [0..<(length md + 16383) div 16384]"
  proof (rule nth_equalityI)
    fix k assume k: "k < length (pg_pieces p)"
    then have "pg_pieces p ! k \<in> {None, Some (block md k)}" using Nil.prems(4) by (simp add: pieces_ok_def)
    moreover have "pg_pieces p ! k \<noteq> None" using Nil.prems(6) k l by auto
    ultimately show "pg_pieces p ! k = map (\<lambda>k. Some (block md k)) [0..<(length md + 16383) div 16384] ! k"
      using k l by simp
  qed (simp add: l)
  then have "\<not> pg_received p < fp_total plan" using received_all [OF Nil.prems(4) assms(2)] plan(2) by simp
  then show ?case using \<open>pg_pieces p = _\<close> by (cases fuel) (simp_all add: returns_def)
next
  case (Cons m ms)
  show ?case
  proof (cases "pg_received p < fp_total plan")
    case False
    then have "pg_pieces p = map (\<lambda>k. Some (block md k)) [0..<(length md + 16383) div 16384]"
      using received_all [OF Cons.prems(4) assms(2)] plan(2) by simp
    then show ?thesis using False by (cases fuel) (simp_all add: returns_def)
  next
    case True
    obtain f where f: "fuel = Suc f" "length ms \<le> f" using Cons.prems(2) by (cases fuel) auto
    let ?c = "c\<lparr>pc_ops := pc_ops c + 1\<rparr>"
    have clk: "read_clock ev c = Some (Inr start, ?c)"
      using assms(1) Cons.prems(3) by (simp add: read_clock_def calm_def)
    have hm: "honest_message ev md m" and sm: "small_message m"
      using Cons.prems(1) by (auto simp: honest_message_def)
    have "pc_in ?c = message_to_bytes m @ concat (map message_to_bytes ms) @ rest" using Cons.prems(5) by simp
    then obtain c2 where fr: "read_next_frame ev (fp_peer_timeout plan * 2) MetadataRead ?c = Some (Inr (Some m), c2)"
        "pc_in c2 = concat (map message_to_bytes ms) @ rest"
      using calm_frame [OF assms(1) sm] by blast
    have "\<exists>p2. accept_frame ev plan (Some m) p = Some (Inr p2) \<and> pieces_ok md p2 \<and>
        (\<forall>k<(length md + 16383) div 16384. pg_pieces p2 ! k = None \<longrightarrow> pg_pieces p ! k = None \<and> \<not> piece_message ev md k m)"
    proof (cases "\<exists>payload. m = Extended LOCAL_METADATA_ID payload")
      case True
      then obtain payload k where m: "m = Extended LOCAL_METADATA_ID payload" "k < (length md + 16383) div 16384"
          "parse_metadata_response (pe_dec ev) payload = Some (Inr (of_nat k, of_nat (length md), block md k))"
        using hm by (auto simp: honest_message_def piece_message_def)
      obtain p2 where p2: "accept_piece plan (of_nat k) (of_nat (length md)) (block md k) p = Inr p2" "pieces_ok md p2"
          "pg_pieces p2 = (pg_pieces p)[k := Some (block md k)]"
        using accept_piece_honest [OF Cons.prems(4) assms(2) m(2) plan] by blast
      have "k' = k" if "piece_message ev md k' m" "k' < (length md + 16383) div 16384" for k'
        using that(1) m(1,3) piece_index_inj [OF assms(2) that(2) m(2)] by (simp add: piece_message_def)
      then show ?thesis using p2 m Cons.prems(4) by (auto simp: accept_frame_def nth_list_update pieces_ok_def)
    next
      case False
      then have "\<not> piece_message ev md k m" for k by (cases m) (auto simp: piece_message_def)
      then show ?thesis using False Cons.prems(4) by (cases m) (auto simp: accept_frame_def)
    qed
    then obtain p2 where p2: "accept_frame ev plan (Some m) p = Some (Inr p2)" "pieces_ok md p2"
        "\<forall>k<(length md + 16383) div 16384. pg_pieces p2 ! k = None \<longrightarrow> pg_pieces p ! k = None \<and> \<not> piece_message ev md k m"
      by blast
    obtain r' c3 where rq: "request_more ev plan (pg_requests p2) c2 = Some (Inr r', c3)" "pc_in c3 = pc_in c2"
      using calm_request_more [OF assms(1)] by blast
    have "\<exists>p' c'. read_pieces ev plan start f (p2\<lparr>pg_requests := r'\<rparr>) c3 = Some (Inr p', c') \<and>
        pg_pieces p' = map (\<lambda>k. Some (block md k)) [0..<(length md + 16383) div 16384]"
    proof (rule Cons.IH)
      show "\<forall>k<(length md + 16383) div 16384. pg_pieces (p2\<lparr>pg_requests := r'\<rparr>) ! k = None \<longrightarrow>
          (\<exists>m\<in>set ms. piece_message ev md k m)"
        using Cons.prems(6) p2(3) by fastforce
    qed (use Cons.prems f p2(2) rq(2) fr(2) in \<open>simp_all add: pieces_ok_def\<close>)
    moreover have "read_pieces ev plan start fuel p c = read_pieces ev plan start f (p2\<lparr>pg_requests := r'\<rparr>) c3"
      using f(1) True clk fr(1) p2(1) rq(1) assms(3) by (simp add: and_then_def Let_def)
    ultimately show ?thesis by simp
  qed
qed


lemma read_extended_honest:
  assumes "calm ev" "0 < d" "start = pe_clock ev 0" "extended_from_bytes (pe_dec ev) payload = Some h"
    and "small_message (Extended 0 payload)"
    and "\<forall>m\<in>set ms. small_message m \<and> (\<forall>payload. m \<noteq> Extended 0 payload)" "length ms < fuel"
    and "pc_in c = concat (map message_to_bytes ms) @ message_to_bytes (Extended 0 payload) @ rest"
  shows "\<exists>c'. read_extended_loop ev d start fuel c = Some (Inr h, c') \<and> pc_in c' = rest"
  using assms(6-)
proof (induction ms arbitrary: fuel c)
  case Nil
  obtain f where f: "fuel = Suc f" using Nil.prems(2) by (cases fuel) auto
  let ?c = "c\<lparr>pc_ops := pc_ops c + 1\<rparr>"
  have clk: "read_clock ev c = Some (Inr start, ?c)"
    using assms(1,3) by (simp add: read_clock_def calm_def)
  have "pc_in ?c = message_to_bytes (Extended 0 payload) @ rest" using Nil.prems(3) by simp
  then obtain c2 where fr: "read_next_frame ev d ExtensionRead ?c = Some (Inr (Some (Extended 0 payload)), c2)" "pc_in c2 = rest"
    using calm_frame [OF assms(1,5)] by blast
  then show ?case using f clk assms(2,4) by (simp add: and_then_def Let_def returns_def)
next
  case (Cons m ms)
  obtain f where f: "fuel = Suc f" "length ms < f" using Cons.prems(2) by (cases fuel) auto
  let ?c = "c\<lparr>pc_ops := pc_ops c + 1\<rparr>"
  have clk: "read_clock ev c = Some (Inr start, ?c)"
    using assms(1,3) by (simp add: read_clock_def calm_def)
  have sm: "small_message m" and other: "m \<noteq> Extended 0 p" for p using Cons.prems(1) by auto
  have "pc_in ?c = message_to_bytes m @ concat (map message_to_bytes ms) @ message_to_bytes (Extended 0 payload) @ rest"
    using Cons.prems(3) by simp
  then obtain c2 where fr: "read_next_frame ev d ExtensionRead ?c = Some (Inr (Some m), c2)"
      "pc_in c2 = concat (map message_to_bytes ms) @ message_to_bytes (Extended 0 payload) @ rest"
    using calm_frame [OF assms(1) sm] by blast
  have "read_extended_loop ev d start fuel c = read_extended_loop ev d start f c2"
  proof (cases m)
    case (Extended i p)
    then have "i \<noteq> 0" using other by auto
    then show ?thesis using f clk fr assms(2) Extended by (simp add: and_then_def Let_def)
  qed (use f clk fr assms(2) in \<open>simp_all add: and_then_def Let_def\<close>)
  then show ?case using Cons.IH [of f c2] Cons.prems(1) f(2) fr(2) by simp
qed

text \<open>The conversation of an honest peer, as it sends it.\<close>

definition honest_answer ::
  "peer_env \<Rightarrow> info_hash \<Rightarrow> u32 \<Rightarrow> bytes \<Rightarrow> handshake \<Rightarrow> wire_message list \<Rightarrow> bytes \<Rightarrow> wire_message list \<Rightarrow> bool" where
  "honest_answer ev h limit md hs before payload ms \<longleftrightarrow>
     length (handshake_to_bytes hs) = HANDSHAKE_LEN \<and> handshake_from_bytes (handshake_to_bytes hs) = Some hs \<and>
     h_info_hash hs = h \<and> supports_extensions hs \<and>
     (\<forall>m\<in>set before. small_message m \<and> (\<forall>payload. m \<noteq> Extended 0 payload)) \<and>
     small_message (Extended 0 payload) \<and>
     (\<exists>eh i queue. extended_from_bytes (pe_dec ev) payload = Some eh \<and>
        check_extensions limit eh = Inr (i, of_nat (length md), queue)) \<and>
     (\<forall>m\<in>set ms. honest_message ev md m) \<and>
     (\<forall>k<(length md + 16383) div 16384. \<exists>m\<in>set ms. piece_message ev md k m)"

lemma fetch_honest:
  assumes ev: "calm ev" and md: "md \<noteq> []" "length md < 2 ^ 32" and d: "0 < peer_timeout"
    and ans: "honest_answer ev h limit md hs before payload ms"
    and fuel: "length before < fuel" "length ms \<le> fuel"
    and inp: "pc_in c = handshake_to_bytes hs @ concat (map message_to_bytes (before @ Extended 0 payload # ms)) @ rest"
  shows "\<exists>c'. fetch_from_stream_with_limit ev h peer_timeout limit fuel c = Some (Inr md, c')"
proof -
  let ?T = "(length md + 16383) div 16384" and ?body = "concat (map message_to_bytes ms) @ rest"
  let ?ext = "concat (map message_to_bytes before) @ message_to_bytes (Extended 0 payload) @ ?body"
  obtain eh i queue where eh: "extended_from_bytes (pe_dec ev) payload = Some eh"
      "check_extensions limit eh = Inr (i, of_nat (length md), queue)"
    using ans by (auto simp: honest_answer_def)
  let ?hb = "handshake_to_bytes (new_handshake h (pe_peer_id ev))"
  let ?c1 = "c\<lparr>pc_ops := pc_ops c + 1, pc_written := ?hb # pc_written c\<rparr>"
  have "pc_in ?c1 = handshake_to_bytes hs @ ?ext" using inp by simp
  then obtain c2 where c2: "read_exact_timeout ev HANDSHAKE_LEN peer_timeout HandshakeRead ?c1 =
      Some (Inr (handshake_to_bytes hs), c2)" "pc_in c2 = ?ext"
    using calm_read [OF ev, of ?c1 "handshake_to_bytes hs" ?ext HANDSHAKE_LEN] ans by (simp add: honest_answer_def)
  have hand: "exchange_handshakes ev h peer_timeout c = Some (Inr (), c2)"
    using c2(1) ans calm_write [OF ev, of ?hb peer_timeout HandshakeWrite c]
    by (simp add: exchange_handshakes_def and_then_def honest_answer_def returns_def)
  obtain pl where pl: "pe_enc ev (BDict (extended_to_dict our_extended_handshake)) = Some pl" using calm_enc [OF ev] by blast
  let ?c3 = "c2\<lparr>pc_ops := pc_ops c2 + 1, pc_written := message_to_bytes (Extended 0 pl) # pc_written c2\<rparr>"
  have clk: "read_clock ev ?c3 = Some (Inr (pe_clock ev 0), ?c3\<lparr>pc_ops := pc_ops ?c3 + 1\<rparr>)"
    using ev by (simp add: read_clock_def calm_def)
  have "\<exists>c4. read_extended_loop ev peer_timeout (pe_clock ev 0) fuel (?c3\<lparr>pc_ops := pc_ops ?c3 + 1\<rparr>) = Some (Inr eh, c4) \<and> pc_in c4 = ?body"
    by (rule read_extended_honest [OF ev d refl eh(1) _ _ fuel(1)]) (use ans c2(2) in \<open>simp_all add: honest_answer_def\<close>)
  then obtain c4 where c4: "read_extended_handshake ev peer_timeout fuel ?c3 = Some (Inr eh, c4)" "pc_in c4 = ?body"
    using clk by (auto simp: read_extended_handshake_def and_then_def)
  have ext: "exchange_extensions ev peer_timeout limit fuel c2 = Some (Inr (i, of_nat (length md), queue), c4)"
    using pl c4(1) eh(2) calm_write [OF ev, of "message_to_bytes (Extended 0 pl)" peer_timeout ExtensionWrite c2]
    by (simp add: exchange_extensions_def and_then_def returns_def)
  let ?plan = "\<lparr>fp_peer_id = i, fp_size = of_nat (length md), fp_total = metadata_piece_count (of_nat (length md)),
      fp_max_outstanding = queue, fp_peer_timeout = peer_timeout\<rparr>"
  obtain r c5 where r: "request_more ev ?plan \<lparr>rq_next = 0, rq_in_flight = 0, rq_requested = {}\<rparr> c4 = Some (Inr r, c5)"
      "pc_in c5 = ?body"
    using calm_request_more [OF ev] c4(2) by metis
  let ?c6 = "c5\<lparr>pc_ops := pc_ops c5 + 1\<rparr>"
  have clk': "read_clock ev c5 = Some (Inr (pe_clock ev 0), ?c6)" using ev by (simp add: read_clock_def calm_def)
  let ?p = "\<lparr>pg_pieces = replicate (unat (fp_total ?plan)) None, pg_received = 0, pg_requests = r\<rparr>"
  have ok: "pieces_ok md ?p" by (simp add: pieces_ok_def piece_count_unat [OF md(2)])
  have "\<exists>p' c'. read_pieces ev ?plan (pe_clock ev 0) fuel ?p ?c6 = Some (Inr p', c') \<and>
      pg_pieces p' = map (\<lambda>k. Some (block md k)) [0..<?T]"
    by (rule read_pieces_honest [OF ev md(2) _ _ _ _ fuel(2) refl ok])
      (use d ans r(2) in \<open>simp_all add: honest_answer_def\<close>)
  then obtain p' c7 where p': "read_pieces ev ?plan (pe_clock ev 0) fuel ?p ?c6 = Some (Inr p', c7)"
      "pg_pieces p' = map (\<lambda>k. Some (block md k)) [0..<?T]" by blast
  have "assemble (of_nat (length md)) (pg_pieces p') = Inr md"
  proof -
    have "map the (pg_pieces p') = map (block md) [0..<?T]" by (simp add: p'(2) comp_def)
    moreover have "\<not> list_ex (\<lambda>piece. piece = None) (pg_pieces p')" by (auto simp: p'(2) list_ex_iff)
    ultimately show ?thesis using concat_blocks [of md] md by (simp add: assemble_def unat_of_nat)
  qed
  then have "fetch_pieces ev ?plan fuel c4 = Some (Inr md, c7)"
    using r(1) clk' p'(1) by (simp add: fetch_pieces_def and_then_def returns_def)
  then show ?thesis using hand ext by (simp add: fetch_from_stream_with_limit_def and_then_def)
qed


subsection \<open>Whatever the peer does\<close>

text \<open>\<open>ends Q r\<close>: if \<open>r\<close> is a result, \<open>Q\<close> holds of it.\<close>

definition ends :: "(metadata_fetch_error + 'a \<Rightarrow> peer_conn \<Rightarrow> bool) \<Rightarrow> ((metadata_fetch_error + 'a) \<times> peer_conn) option \<Rightarrow> bool" where
  "ends Q r \<longleftrightarrow> (\<forall>x c. r = Some (x, c) \<longrightarrow> Q x c)"

lemma endsD: "ends Q r \<Longrightarrow> r = Some (x, c) \<Longrightarrow> Q x c"
  by (simp add: ends_def)

lemma ends_and_then:
  assumes "ends R (m c)" "\<And>e c'. R (Inl e) c' \<Longrightarrow> Q (Inl e) c'" "\<And>x c'. R (Inr x) c' \<Longrightarrow> ends Q (f x c')"
  shows "ends Q (and_then m f c)"
  using assms by (auto simp: ends_def and_then_def split: option.splits sum.splits)

lemma ends_returns [simp]: "ends Q (returns x c) \<longleftrightarrow> Q (Inr x) c"
  and ends_fails [simp]: "ends Q (fails e c) \<longleftrightarrow> Q (Inl e) c"
  by (simp_all add: ends_def returns_def fails_def)

lemma ends_mono: "ends R r \<Longrightarrow> (\<And>x c. R x c \<Longrightarrow> Q x c) \<Longrightarrow> ends Q r"
  by (auto simp: ends_def)

text \<open>Reading and waiting write nothing, and read on.\<close>

definition silent :: "peer_conn \<Rightarrow> peer_conn \<Rightarrow> bool" where
  "silent c c' \<longleftrightarrow> pc_written c' = pc_written c \<and> length (pc_in c') \<le> length (pc_in c) \<and> pc_ops c \<le> pc_ops c'"

lemma silent_refl [simp]: "silent c c"
  by (simp add: silent_def)

lemma silent_trans: "silent a b \<Longrightarrow> silent b c \<Longrightarrow> silent a c"
  by (simp add: silent_def)

abbreviation quiet :: "peer_conn \<Rightarrow> ((metadata_fetch_error + 'a) \<times> peer_conn) option \<Rightarrow> bool" where
  "quiet c r \<equiv> ends (\<lambda>_. silent c) r"

lemma quiet_later: "quiet b r \<Longrightarrow> silent a b \<Longrightarrow> quiet a r"
  by (erule ends_mono) (rule silent_trans)

lemma quiet_and_then:
  assumes "quiet c (m c)" "\<And>x c'. silent c c' \<Longrightarrow> quiet c' (f x c')"
  shows "quiet c (and_then m f c)"
  using assms(1) by (rule ends_and_then [where R = "\<lambda>_. silent c" and m = m]) (auto intro: quiet_later assms(2))

lemma quiet_clock: "quiet c (read_clock ev c)"
  by (simp add: ends_def silent_def read_clock_def)

lemma quiet_exact: "quiet c (read_exact_timeout ev n d stage c)"
  by (auto simp: ends_def silent_def read_exact_timeout_def Let_def split: io_outcome.splits if_splits)

lemma quiet_frame: "quiet c (read_next_frame ev d stage c)"
  unfolding read_next_frame_def by (auto simp: Let_def intro!: quiet_and_then quiet_exact)

lemma quiet_extended: "quiet c (read_extended_loop ev d start fuel c)"
proof (induction fuel arbitrary: c)
  case 0
  then show ?case by (simp add: ends_def)
next
  case (Suc fuel)
  show ?case
    unfolding read_extended_loop.simps
    by (rule quiet_and_then [OF quiet_clock])
      (auto simp: Let_def Suc split: option.split wire_message.split intro!: quiet_and_then quiet_frame)
qed

subsection \<open>What is sent\<close>

definition request_message :: "benc \<Rightarrow> u8 \<Rightarrow> nat \<Rightarrow> bytes" where
  "request_message enc i k = message_to_bytes (Extended i (the (build_metadata_request enc (of_nat k))))"

definition hello :: "peer_env \<Rightarrow> info_hash \<Rightarrow> bytes" where
  "hello ev h = handshake_to_bytes (new_handshake h (pe_peer_id ev))"

definition hello_extended :: "peer_env \<Rightarrow> bytes" where
  "hello_extended ev = message_to_bytes (Extended 0 (the (pe_enc ev (BDict (extended_to_dict our_extended_handshake)))))"

definition script :: "peer_env \<Rightarrow> info_hash \<Rightarrow> u8 \<Rightarrow> nat \<Rightarrow> bytes list" where
  "script ev h i n = hello ev h # hello_extended ev # map (request_message (pe_enc ev) i) [0..<n]"

text \<open>The requests: each asked for once, in order, and never more outstanding than the peer allows.\<close>

definition requests_ok :: "fetch_plan \<Rightarrow> requests \<Rightarrow> bool" where
  "requests_ok plan r \<longleftrightarrow> rq_next r \<le> fp_total plan \<and> rq_in_flight r \<le> fp_max_outstanding plan \<and>
     finite (rq_requested r) \<and> (\<forall>k\<in>rq_requested r. k < rq_next r) \<and> unat (rq_in_flight r) = card (rq_requested r)"

definition asked :: "peer_env \<Rightarrow> fetch_plan \<Rightarrow> bytes list \<Rightarrow> nat \<Rightarrow> bytes list" where
  "asked ev plan w n = rev (map (request_message (pe_enc ev) (fp_peer_id plan)) [0..<n]) @ w"

definition asking :: "peer_env \<Rightarrow> fetch_plan \<Rightarrow> bytes list \<Rightarrow> metadata_fetch_error + requests \<Rightarrow> peer_conn \<Rightarrow> bool" where
  "asking ev plan w x c \<longleftrightarrow>
     (case x of
        Inr r \<Rightarrow> requests_ok plan r \<and> pc_written c = asked ev plan w (unat (rq_next r))
      | Inl e \<Rightarrow> \<exists>n\<le>unat (fp_total plan). pc_written c = asked ev plan w n)"

lemma requests_ok_next:
  assumes "requests_ok plan r" "rq_next r < fp_total plan" "rq_in_flight r < fp_max_outstanding plan"
  shows "requests_ok plan \<lparr>rq_next = rq_next r + 1, rq_in_flight = rq_in_flight r + 1,
    rq_requested = insert (rq_next r) (rq_requested r)\<rparr>"
proof -
  have n: "unat (rq_next r + 1) = unat (rq_next r) + 1" by (rule unat_next [OF assms(2)])
  have f: "unat (rq_in_flight r + 1) = unat (rq_in_flight r) + 1" by (rule unat_next [OF assms(3)])
  have "rq_next r \<notin> rq_requested r" using assms(1) by (auto simp: requests_ok_def)
  moreover have "k < rq_next r + 1" if "k \<in> insert (rq_next r) (rq_requested r)" for k
    using that assms(1) n by (auto simp: requests_ok_def word_less_nat_alt)
  ultimately show ?thesis
    using assms n f by (auto simp: requests_ok_def word_less_nat_alt word_le_nat_alt)
qed

lemma request_more_asks:
  assumes "requests_ok plan r" "pc_written c = asked ev plan w (unat (rq_next r))"
  shows "ends (asking ev plan w) (request_more ev plan r c)"
  using assms
proof (induction ev plan r c rule: request_more.induct)
  case (1 ev plan r c)
  show ?case
  proof (cases "rq_next r < fp_total plan \<and> rq_in_flight r < fp_max_outstanding plan")
    case False
    then have "request_more ev plan r c = Some (Inr r, c)" by (subst request_more.simps) auto
    then show ?thesis using "1.prems" by (simp add: ends_def asking_def)
  next
    case True
    note more = request_more.simps [of ev plan r c]
    have le: "unat (rq_next r) \<le> unat (fp_total plan)"
      using "1.prems"(1) by (simp add: requests_ok_def word_le_nat_alt)
    show ?thesis
    proof (cases "build_metadata_request (pe_enc ev) (rq_next r)")
      case None
      then show ?thesis using True more by (simp add: ends_def)
    next
      case (Some req)
      let ?msg = "message_to_bytes (Extended (fp_peer_id plan) req)"
      let ?r = "\<lparr>rq_next = rq_next r + 1, rq_in_flight = rq_in_flight r + 1,
                     rq_requested = insert (rq_next r) (rq_requested r)\<rparr>"
      show ?thesis
      proof (cases "pe_io ev (pc_ops c) (fp_peer_timeout plan)")
        case IoDone
        let ?c = "c\<lparr>pc_ops := pc_ops c + 1, pc_written := ?msg # pc_written c\<rparr>"
        have w: "write_all_timeout ev ?msg (fp_peer_timeout plan) MetadataWrite c = Some (Inr (), ?c)"
          by (simp add: write_all_timeout_def Let_def IoDone)
        have "?msg = request_message (pe_enc ev) (fp_peer_id plan) (unat (rq_next r))"
          by (simp add: request_message_def Some)
        then have "pc_written ?c = asked ev plan w (unat (rq_next ?r))"
          using "1.prems"(2) unat_next [OF conjunct1 [OF True]] by (simp add: asked_def)
        from "1.IH" [OF True Some w refl refl requests_ok_next [OF "1.prems"(1)] this] show ?thesis
          using True Some w more by simp
      qed (use True Some more "1.prems"(2) le in
        \<open>auto simp: write_all_timeout_def Let_def ends_def asking_def\<close>)
    qed
  qed
qed

lemma settle_keeps:
  assumes "requests_ok plan r"
  shows "requests_ok plan (settle_request k r) \<and> rq_next (settle_request k r) = rq_next r"
proof (cases "k \<in> rq_requested r")
  case True
  have fin: "finite (rq_requested r)" and card: "unat (rq_in_flight r) = card (rq_requested r)"
    using assms by (auto simp: requests_ok_def)
  have "card (rq_requested r) \<noteq> 0" using True fin by auto
  then have pos: "1 \<le> unat (rq_in_flight r)" using card by linarith
  then have "1 \<le> rq_in_flight r" by (simp add: word_le_nat_alt)
  then have sub: "unat (rq_in_flight r - 1) = unat (rq_in_flight r) - 1" by (simp add: unat_sub)
  moreover have "card (rq_requested r - {k}) = card (rq_requested r) - 1" using True fin by simp
  ultimately show ?thesis using True assms card by (auto simp: settle_request_def requests_ok_def word_le_nat_alt)
qed (use assms in \<open>simp add: settle_request_def\<close>)

lemma accept_keeps:
  assumes "requests_ok plan (pg_requests p)" "accept_frame ev plan frame p = Some (Inr p')"
  shows "requests_ok plan (pg_requests p') \<and> rq_next (pg_requests p') = rq_next (pg_requests p)"
  using assms settle_keeps [OF assms(1)]
  by (auto simp: accept_frame_def accept_piece_def Let_def split: option.splits wire_message.splits sum.splits if_splits)

definition reading :: "peer_env \<Rightarrow> fetch_plan \<Rightarrow> bytes list \<Rightarrow> metadata_fetch_error + progress \<Rightarrow> peer_conn \<Rightarrow> bool" where
  "reading ev plan w x c \<longleftrightarrow> asking ev plan w (case x of Inl e \<Rightarrow> Inl e | Inr p \<Rightarrow> Inr (pg_requests p)) c"

lemma asking_error: "asking ev plan w (Inr r) c \<Longrightarrow> asking ev plan w (Inl e) c"
  by (auto simp: asking_def requests_ok_def word_le_nat_alt)

lemma asking_silent: "asking ev plan w x c \<Longrightarrow> silent c c' \<Longrightarrow> asking ev plan w x c'"
  by (cases x) (simp_all add: asking_def silent_def)

lemma read_pieces_asks:
  assumes "reading ev plan w (Inr p) c"
  shows "ends (reading ev plan w) (read_pieces ev plan start fuel p c)"
  using assms
proof (induction fuel arbitrary: p c)
  case 0
  then show ?case by (simp add: ends_def returns_def)
next
  case (Suc fuel)
  have err: "reading ev plan w (Inl e) c'" if "silent c c'" for e c'
    using asking_silent [OF asking_error that] Suc.prems by (simp add: reading_def)
  show ?case
  proof (cases "pg_received p < fp_total plan")
    case False
    then show ?thesis using Suc.prems by simp
  next
    case True
    have frame: "ends (reading ev plan w) ((case accept_frame ev plan frame p of
              None \<Rightarrow> returns p
            | Some (Inl e) \<Rightarrow> fails e
            | Some (Inr p) \<Rightarrow>
                and_then (request_more ev plan (pg_requests p)) (\<lambda>r.
                  read_pieces ev plan start fuel (p\<lparr>pg_requests := r\<rparr>))) c2)"
      if s: "silent c c2" for frame c2
    proof (cases "accept_frame ev plan frame p")
      case None
      then show ?thesis using Suc.prems asking_silent [OF _ s] by (simp add: reading_def)
    next
      case (Some res)
      show ?thesis
      proof (cases res)
        case (Inl e)
        then show ?thesis using Some err [OF s] by simp
      next
        case (Inr p')
        have k: "requests_ok plan (pg_requests p')" "rq_next (pg_requests p') = rq_next (pg_requests p)"
          using accept_keeps [of plan p ev frame p'] Some Inr Suc.prems by (auto simp: reading_def asking_def)
        then have "pc_written c2 = asked ev plan w (unat (rq_next (pg_requests p')))"
          using Suc.prems s by (simp add: reading_def asking_def silent_def)
        note ask = request_more_asks [OF k(1) this]
        have "ends (reading ev plan w) (and_then (request_more ev plan (pg_requests p')) (\<lambda>r.
                  read_pieces ev plan start fuel (p'\<lparr>pg_requests := r\<rparr>)) c2)"
        proof (rule ends_and_then [where m = "request_more ev plan (pg_requests p')"], rule ask)
          show "ends (reading ev plan w) (read_pieces ev plan start fuel (p'\<lparr>pg_requests := r\<rparr>) c3)"
            if "asking ev plan w (Inr r) c3" for r c3
            using that by (intro Suc.IH) (simp add: reading_def)
        qed (simp add: reading_def)
        then show ?thesis using Some Inr by simp
      qed
    qed
    show ?thesis
      unfolding read_pieces.simps if_P [OF True]
    proof (rule ends_and_then [where m = "read_clock ev"], rule quiet_clock, erule err)
      fix now c1 assume s: "silent c c1"
      let ?rest = "fp_peer_timeout plan * 2 - (now - start)"
      have "ends (reading ev plan w) (and_then (read_next_frame ev ?rest MetadataRead) (\<lambda>frame.
            case accept_frame ev plan frame p of
              None \<Rightarrow> returns p
            | Some (Inl e) \<Rightarrow> fails e
            | Some (Inr p) \<Rightarrow>
                and_then (request_more ev plan (pg_requests p)) (\<lambda>r.
                  read_pieces ev plan start fuel (p\<lparr>pg_requests := r\<rparr>))) c1)"
        by (rule ends_and_then [where m = "read_next_frame ev ?rest MetadataRead"], rule quiet_frame)
          (auto intro: err frame silent_trans [OF s])
      then show "ends (reading ev plan w) ((let remaining = ?rest in
          if remaining = 0 then fails (FE_Timeout MetadataRead)
          else and_then (read_next_frame ev remaining MetadataRead) (\<lambda>frame.
            case accept_frame ev plan frame p of
              None \<Rightarrow> returns p
            | Some (Inl e) \<Rightarrow> fails e
            | Some (Inr p) \<Rightarrow>
                and_then (request_more ev plan (pg_requests p)) (\<lambda>r.
                  read_pieces ev plan start fuel (p\<lparr>pg_requests := r\<rparr>)))) c1)"
        using err [OF s] by (simp add: Let_def)
    qed
  qed
qed

lemma fetch_pieces_asks:
  assumes "plan = \<lparr>fp_peer_id = i, fp_size = sz, fp_total = metadata_piece_count sz,
    fp_max_outstanding = queue, fp_peer_timeout = d\<rparr>" "pc_written c = w"
  shows "ends (\<lambda>x c'. (\<exists>n\<le>unat (metadata_piece_count sz). pc_written c' = asked ev plan w n) \<and>
      (\<forall>bs. x = Inr bs \<longrightarrow> bs \<noteq> [] \<and> length bs = unat sz)) (fetch_pieces ev plan fuel c)"
    (is "ends ?Q _")
proof -
  have err: "?Q (Inl e) c'" if "asking ev plan w x c'" for x e c'
    using that asking_error [of ev plan w _ c' undefined] by (cases x) (auto simp: asking_def assms(1))
  let ?r = "\<lparr>rq_next = 0, rq_in_flight = 0, rq_requested = {}\<rparr> :: requests"
  have "requests_ok plan ?r" by (simp add: requests_ok_def)
  moreover have "pc_written c = asked ev plan w (unat (rq_next ?r))" by (simp add: asked_def assms(2))
  ultimately have first: "ends (asking ev plan w) (request_more ev plan ?r c)" by (rule request_more_asks)
  show ?thesis
    unfolding fetch_pieces_def
  proof (rule ends_and_then [where m = "request_more ev plan ?r"], rule first)
    fix r c1 assume a: "asking ev plan w (Inr r) c1"
    let ?p = "\<lparr>pg_pieces = replicate (unat (fp_total plan)) None, pg_received = 0, pg_requests = r\<rparr>"
    show "ends ?Q (and_then (read_clock ev) (\<lambda>start.
     and_then (read_pieces ev plan start fuel ?p) (\<lambda>p.
       case assemble (fp_size plan) (pg_pieces p) of
         Inl e \<Rightarrow> fails e
       | Inr all_data \<Rightarrow> returns all_data)) c1)"
    proof (rule ends_and_then [where m = "read_clock ev"], rule quiet_clock)
      fix start c2 assume s: "silent c1 c2"
      have "reading ev plan w (Inr ?p) c2" using asking_silent [OF a s] by (simp add: reading_def)
      note read = read_pieces_asks [OF this, of start fuel]
      show "ends ?Q (and_then (read_pieces ev plan start fuel ?p) (\<lambda>p.
       case assemble (fp_size plan) (pg_pieces p) of
         Inl e \<Rightarrow> fails e
       | Inr all_data \<Rightarrow> returns all_data) c2)"
      proof (rule ends_and_then [where m = "read_pieces ev plan start fuel ?p"], rule read)
        fix p c3 assume r: "reading ev plan w (Inr p) c3"
        show "ends ?Q ((case assemble (fp_size plan) (pg_pieces p) of
         Inl e \<Rightarrow> fails e
       | Inr all_data \<Rightarrow> returns all_data) c3)"
        proof (cases "assemble (fp_size plan) (pg_pieces p)")
          case (Inl e)
          then show ?thesis using err r by (simp add: reading_def)
        next
          case (Inr bs)
          then have "bs \<noteq> [] \<and> length bs = unat sz"
            by (auto simp: assemble_def assms(1) Let_def split: if_splits)
          then show ?thesis using Inr err [of "Inr (pg_requests p)" c3] r by (simp add: reading_def)
        qed
      next
        fix e c3 assume "reading ev plan w (Inl e) c3"
        then show "?Q (Inl e) c3" using err by (simp add: reading_def)
      qed
    next
      fix e c2 assume "silent c1 c2"
      then show "?Q (Inl e) c2" using err [OF asking_silent [OF a]] by blast
    qed
  next
    fix e c1 assume "asking ev plan w (Inl e) c1"
    then show "?Q (Inl e) c1" by (rule err)
  qed
qed

lemma check_extensions_limit:
  "check_extensions limit eh = Inr (i, sz, queue) \<Longrightarrow> 0 < sz \<and> sz \<le> limit \<and> 1 \<le> queue \<and> queue \<le> 64"
  by (auto simp: check_extensions_def word_neq_0_conv not_less min_def max_def split: option.splits if_splits)

lemma ends_write:
  "ends (\<lambda>x c'. pc_in c' = pc_in c \<and> pc_written c' = (case x of Inl e \<Rightarrow> pc_written c | Inr _ \<Rightarrow> bs # pc_written c))
     (write_all_timeout ev bs d stage c)"
  by (auto simp: ends_def write_all_timeout_def Let_def split: io_outcome.splits)

lemma exchange_handshakes_writes:
  "ends (\<lambda>x c'. pc_written c' = hello ev h # pc_written c \<or> (\<exists>e. x = Inl e \<and> pc_written c' = pc_written c))
     (exchange_handshakes ev h d c)"
  unfolding exchange_handshakes_def
proof (rule ends_and_then [where m = "write_all_timeout ev (handshake_to_bytes (new_handshake h (pe_peer_id ev))) d HandshakeWrite"],
    rule ends_write, goal_cases)
  case (2 x c1)
  then have w: "pc_written c1 = hello ev h # pc_written c" by (simp add: hello_def)
  show ?case
    by (rule ends_and_then [where m = "read_exact_timeout ev HANDSHAKE_LEN d HandshakeRead"], rule quiet_exact)
      (auto simp: w silent_def split: option.split)
qed simp

lemma exchange_extensions_writes:
  "ends (\<lambda>x c'. (pc_written c' = hello_extended ev # pc_written c \<or> (\<exists>e. x = Inl e \<and> pc_written c' = pc_written c)) \<and>
       (\<forall>i sz queue. x = Inr (i, sz, queue) \<longrightarrow> sz \<le> limit))
     (exchange_extensions ev d limit fuel c)"
proof (cases "pe_enc ev (BDict (extended_to_dict our_extended_handshake))")
  case None
  then show ?thesis by (simp add: exchange_extensions_def)
next
  case (Some payload)
  have hs: "ends (\<lambda>_. silent c1) (read_extended_handshake ev d fuel c1)" for c1
    unfolding read_extended_handshake_def by (intro quiet_and_then quiet_clock quiet_extended)
  show ?thesis
    unfolding exchange_extensions_def Some option.case
  proof (rule ends_and_then [where m = "write_all_timeout ev (message_to_bytes (Extended 0 payload)) d ExtensionWrite"],
      rule ends_write, goal_cases)
    case (2 x c1)
    then have w: "pc_written c1 = hello_extended ev # pc_written c" by (simp add: hello_extended_def Some)
    show ?case
      by (rule ends_and_then [where m = "read_extended_handshake ev d fuel"], rule hs)
        (auto simp: w silent_def check_extensions_limit split: sum.split)
  qed simp
qed

lemma piece_count_mono:
  assumes "sz \<le> limit"
  shows "unat (metadata_piece_count sz) \<le> unat (metadata_piece_count limit)"
proof -
  have count: "unat (metadata_piece_count n) = (unat n + 16383) div 16384" for n :: u32
    using piece_count_unat [of "replicate (unat n) 0"] unat_lt2p_nat [of n] by simp
  show ?thesis unfolding count using assms by (intro div_le_mono) (simp add: word_le_nat_alt)
qed

lemma fetch_writes:
  "ends (\<lambda>x c'. (\<exists>i n k. n \<le> unat (metadata_piece_count limit) \<and>
        pc_written c' = rev (take k (script ev h i n)) @ pc_written c) \<and>
      (\<forall>bs. x = Inr bs \<longrightarrow> bs \<noteq> [] \<and> length bs \<le> unat limit))
     (fetch_from_stream_with_limit ev h d limit fuel c)" (is "ends ?Q _")
proof -
  have none: "\<exists>i n k. n \<le> unat (metadata_piece_count limit) \<and>
      pc_written c = rev (take k (script ev h i n)) @ pc_written c"
    by (rule exI [of _ 0], rule exI [of _ 0], rule exI [of _ 0]) simp
  have one: "\<exists>i n k. n \<le> unat (metadata_piece_count limit) \<and>
      hello ev h # pc_written c = rev (take k (script ev h i n)) @ pc_written c"
    by (rule exI [of _ 0], rule exI [of _ 0], rule exI [of _ 1]) (simp add: script_def hello_def)
  have two: "\<exists>i n k. n \<le> unat (metadata_piece_count limit) \<and>
      hello_extended ev # hello ev h # pc_written c = rev (take k (script ev h i n)) @ pc_written c"
    by (rule exI [of _ 0], rule exI [of _ 0], rule exI [of _ 2]) (simp add: script_def hello_def hello_extended_def)
  have all: "\<exists>i' n k. n \<le> unat (metadata_piece_count limit) \<and>
      asked ev \<lparr>fp_peer_id = i, fp_size = sz, fp_total = t, fp_max_outstanding = queue, fp_peer_timeout = d\<rparr>
        (hello_extended ev # hello ev h # pc_written c) n0 = rev (take k (script ev h i' n)) @ pc_written c"
    if "n0 \<le> unat (metadata_piece_count limit)" for i sz t queue n0
    by (rule exI [of _ i], rule exI [of _ n0], rule exI [of _ "n0 + 2"])
      (simp add: that script_def hello_def hello_extended_def asked_def)
  show ?thesis
    unfolding fetch_from_stream_with_limit_def
  proof (rule ends_and_then [where m = "exchange_handshakes ev h d"], rule exchange_handshakes_writes, goal_cases)
    case (1 e c1)
    then have "pc_written c1 = hello ev h # pc_written c \<or> pc_written c1 = pc_written c" by auto
    then have "\<exists>i n k. n \<le> unat (metadata_piece_count limit) \<and> pc_written c1 = rev (take k (script ev h i n)) @ pc_written c"
      using none one by (elim disjE) (simp_all only:)
    then show ?case by simp
  next
    case (2 u c1)
    then have w1: "pc_written c1 = hello ev h # pc_written c" by simp
    show ?case
    proof (rule ends_and_then [where m = "exchange_extensions ev d limit fuel"], rule exchange_extensions_writes, goal_cases)
      case (1 e c2)
      then have "pc_written c2 = hello_extended ev # hello ev h # pc_written c \<or> pc_written c2 = hello ev h # pc_written c"
        by (auto simp: w1)
      then have "\<exists>i n k. n \<le> unat (metadata_piece_count limit) \<and> pc_written c2 = rev (take k (script ev h i n)) @ pc_written c"
        using one two by (elim disjE) (simp_all only:)
      then show ?case by simp
    next
      case (2 plan c2)
      obtain i sz queue where plan: "plan = (i, sz, queue)" by (cases plan)
      have w2: "pc_written c2 = hello_extended ev # hello ev h # pc_written c" and sz: "sz \<le> limit"
        using 2 by (auto simp: w1 plan)
      have len: "unat sz \<le> unat limit" using sz by (simp add: word_le_nat_alt)
      have "ends ?Q (fetch_pieces ev \<lparr>fp_peer_id = i, fp_size = sz, fp_total = metadata_piece_count sz,
         fp_max_outstanding = queue, fp_peer_timeout = d\<rparr> fuel c2)"
        by (rule ends_mono [OF fetch_pieces_asks [OF refl w2]])
          (use all piece_count_mono [OF sz] len in \<open>fastforce dest: order_trans\<close>)
      then show ?case by (simp add: plan)
    qed
  qed
qed

subsection \<open>Progress\<close>

text \<open>A frame takes at least four bytes from the connection, or is an error.\<close>

lemma frame_consumes:
  "ends (\<lambda>x c'. (\<exists>e. x = Inl e) \<or> length (pc_in c') < length (pc_in c)) (read_next_frame ev d stage c)"
  unfolding read_next_frame_def
proof (rule ends_and_then [where m = "read_exact_timeout ev 4 d stage" and
      R = "\<lambda>x c'. (\<exists>e. x = Inl e) \<or> length (pc_in c') < length (pc_in c)"], goal_cases)
  case 1
  then show ?case by (auto simp: ends_def read_exact_timeout_def Let_def split: io_outcome.splits if_splits)
next
  case (3 header c1)
  then have lt: "length (pc_in c1) < length (pc_in c)" by simp
  have "ends (\<lambda>x c'. (\<exists>e. x = Inl e) \<or> length (pc_in c') < length (pc_in c))
     (and_then (read_exact_timeout ev n d stage) (\<lambda>buf. returns (from_bytes_frame len buf)) c1)" for n len
    by (rule ends_and_then [where m = "read_exact_timeout ev n d stage"], rule quiet_exact)
      (use lt in \<open>auto simp: silent_def\<close>)
  then show ?case using lt by (simp add: Let_def)
qed auto

text \<open>The fuel is enough for what the peer sends, or for the time the fetch may take.\<close>

definition advancing :: "peer_env \<Rightarrow> bool" where
  "advancing ev \<longleftrightarrow> (\<forall>k. pe_clock ev k < pe_clock ev (Suc k))"

definition enough :: "peer_env \<Rightarrow> duration \<Rightarrow> instant \<Rightarrow> nat \<Rightarrow> peer_conn \<Rightarrow> bool" where
  "enough ev allowed start fuel c \<longleftrightarrow>
     length (pc_in c) < fuel \<or>
     (advancing ev \<and> 0 < fuel \<and> start + allowed < pe_clock ev (pc_ops c) + fuel)"

lemma advancing_mono: "advancing ev \<Longrightarrow> k \<le> j \<Longrightarrow> pe_clock ev k \<le> pe_clock ev j"
  by (rule lift_Suc_mono_le [of "pe_clock ev"]) (auto simp: advancing_def less_imp_le)

lemma enough_pos: "enough ev allowed start fuel c \<Longrightarrow> 0 < fuel"
  by (auto simp: enough_def)

lemma enough_silent: "enough ev allowed start fuel c \<Longrightarrow> silent c c' \<Longrightarrow> enough ev allowed start fuel c'"
  using advancing_mono [of ev "pc_ops c" "pc_ops c'"] by (auto simp: enough_def silent_def)

lemma enough_step:
  assumes "enough ev allowed start (Suc fuel) c" "allowed - (pe_clock ev (pc_ops c) - start) \<noteq> 0"
    and "length (pc_in c') < length (pc_in c)" "pc_ops c < pc_ops c'"
  shows "enough ev allowed start fuel c'"
proof (cases "length (pc_in c) < Suc fuel")
  case True
  then show ?thesis using assms(3) by (simp add: enough_def)
next
  case False
  then have adv: "advancing ev" "start + allowed < pe_clock ev (pc_ops c) + Suc fuel"
    using assms(1) by (auto simp: enough_def)
  have "pe_clock ev (pc_ops c) < pe_clock ev (Suc (pc_ops c))" using adv(1) by (simp add: advancing_def)
  also have "\<dots> \<le> pe_clock ev (pc_ops c')" using assms(4) by (intro advancing_mono [OF adv(1)]) simp
  finally show ?thesis using adv assms(2) by (auto simp: enough_def)
qed

lemma ends_conj: "ends P r \<Longrightarrow> ends Q r \<Longrightarrow> ends (\<lambda>x c. P x c \<and> Q x c) r"
  by (simp add: ends_def)

definition ended :: "'a option \<Rightarrow> bool" where
  "ended r \<longleftrightarrow> r \<noteq> None"

lemma and_then_done:
  assumes "ended (m c)" "ends R (m c)" "\<And>x c'. R (Inr x) c' \<Longrightarrow> ended (f x c')"
  shows "ended (and_then m f c)"
  using assms by (auto simp: ended_def and_then_def ends_def split: option.splits sum.splits)

lemma primitive_done [simp]:
  "ended (read_clock ev c)" "ended (returns x c)" "ended (fails e c)"
  "ended (write_all_timeout ev bs d stage c)" "ended (read_exact_timeout ev n d stage c)"
  by (simp_all add: ended_def read_clock_def returns_def fails_def write_all_timeout_def read_exact_timeout_def Let_def
      split: io_outcome.split)

lemma frame_done: "ended (read_next_frame ev d stage c)"
  unfolding read_next_frame_def
  by (rule and_then_done [where R = "\<lambda>_ _. True"])
    (auto simp: Let_def ends_def intro!: and_then_done [where R = "\<lambda>_ _. True"])

lemma frame_progress:
  "ends (\<lambda>x c'. silent c c' \<and> ((\<exists>e. x = Inl e) \<or> length (pc_in c') < length (pc_in c))) (read_next_frame ev d stage c)"
  by (rule ends_conj [OF quiet_frame frame_consumes])

lemma clock_value: "ends (\<lambda>x c'. x = Inr (pe_clock ev (pc_ops c)) \<and> c' = c\<lparr>pc_ops := pc_ops c + 1\<rparr>) (read_clock ev c)"
  by (simp add: ends_def read_clock_def)

lemma extended_done:
  "enough ev d start fuel c \<Longrightarrow> ended (read_extended_loop ev d start fuel c)"
proof (induction fuel arbitrary: c)
  case 0
  then show ?case by (simp add: enough_def)
next
  case (Suc fuel)
  let ?c = "c\<lparr>pc_ops := pc_ops c + 1\<rparr>" and ?rest = "d - (pe_clock ev (pc_ops c) - start)"
  show ?case
    unfolding read_extended_loop.simps
  proof (rule and_then_done [OF _ clock_value], goal_cases)
    case (2 now c1)
    show ?case
    proof (cases "?rest = 0")
      case True
      then show ?thesis using 2 by (simp add: Let_def)
    next
      case False
      have again: "ended (read_extended_loop ev d start fuel c2)"
        if "silent ?c c2 \<and> length (pc_in c2) < length (pc_in ?c)" for c2
        using that False by (intro Suc.IH enough_step [OF Suc.prems]) (auto simp: silent_def)
      have "ended (and_then (read_next_frame ev ?rest ExtensionRead) (\<lambda>frame.
         case frame of
           None \<Rightarrow> fails (FE_Protocol ExtensionRead (str ''invalid frame during extended handshake''))
         | Some msg \<Rightarrow>
             (case msg of
                Extended i payload \<Rightarrow>
                  if i = 0 then
                    (case extended_from_bytes (pe_dec ev) payload of
                       None \<Rightarrow> fails (FE_Protocol ExtensionRead (str ''invalid extended handshake''))
                     | Some h \<Rightarrow> returns h)
                  else read_extended_loop ev d start fuel
              | _ \<Rightarrow> read_extended_loop ev d start fuel)) ?c)"
        by (rule and_then_done [OF frame_done frame_progress])
          (use again in \<open>auto split: option.split wire_message.split\<close>)
      then show ?thesis using 2 False by (simp add: Let_def)
    qed
  qed simp
qed

lemma request_more_done:
  assumes "\<forall>v. pe_enc ev v \<noteq> None"
  shows "ended (request_more ev plan r c) \<and>
    ends (\<lambda>_ c'. pc_in c' = pc_in c \<and> pc_ops c \<le> pc_ops c') (request_more ev plan r c)"
  using assms
proof (induction ev plan r c rule: request_more.induct)
  case (1 ev plan r c)
  note more = request_more.simps [of ev plan r c]
  show ?case
  proof (cases "rq_next r < fp_total plan \<and> rq_in_flight r < fp_max_outstanding plan")
    case False
    then have "request_more ev plan r c = Some (Inr r, c)" by (subst more) auto
    then show ?thesis by (simp add: ends_def ended_def)
  next
    case True
    obtain req where req: "build_metadata_request (pe_enc ev) (rq_next r) = Some req"
      using "1.prems" unfolding build_metadata_request_def by blast
    let ?msg = "message_to_bytes (Extended (fp_peer_id plan) req)"
    obtain x c1 where w: "write_all_timeout ev ?msg (fp_peer_timeout plan) MetadataWrite c = Some (x, c1)"
      "pc_in c1 = pc_in c" "pc_ops c \<le> pc_ops c1"
      by (cases "pe_io ev (pc_ops c) (fp_peer_timeout plan)") (simp_all add: write_all_timeout_def Let_def)
    show ?thesis
    proof (cases x)
      case (Inl e)
      then show ?thesis using True req w more by (simp add: ends_def ended_def)
    next
      case (Inr u)
      let ?r = "\<lparr>rq_next = rq_next r + 1, rq_in_flight = rq_in_flight r + 1,
                     rq_requested = insert (rq_next r) (rq_requested r)\<rparr>"
      have eq: "request_more ev plan r c = request_more ev plan ?r c1" using True req w(1) Inr more by simp
      have ih: "ended (request_more ev plan ?r c1) \<and>
        ends (\<lambda>_ c'. pc_in c' = pc_in c1 \<and> pc_ops c1 \<le> pc_ops c') (request_more ev plan ?r c1)"
        by (rule "1.IH" [OF True req w(1) refl _ "1.prems"]) (rule Inr)
      have "ends (\<lambda>_ c'. pc_in c' = pc_in c \<and> pc_ops c \<le> pc_ops c') (request_more ev plan ?r c1)"
        by (rule ends_mono [OF conjunct2 [OF ih]]) (simp add: w(2) order_trans [OF w(3)])
      then show ?thesis unfolding eq using conjunct1 [OF ih] by (rule conjI [rotated])
    qed
  qed
qed

lemma read_pieces_done:
  assumes "\<forall>v. pe_enc ev v \<noteq> None"
  shows "enough ev (fp_peer_timeout plan * 2) start fuel c \<Longrightarrow> ended (read_pieces ev plan start fuel p c)"
proof (induction fuel arbitrary: p c)
  case 0
  then show ?case by (simp add: enough_def)
next
  case (Suc fuel)
  let ?c = "c\<lparr>pc_ops := pc_ops c + 1\<rparr>" and ?rest = "fp_peer_timeout plan * 2 - (pe_clock ev (pc_ops c) - start)"
  show ?case
  proof (cases "pg_received p < fp_total plan")
    case False
    then show ?thesis by (simp add: returns_def ended_def)
  next
    case True
    show ?thesis
      unfolding read_pieces.simps if_P [OF True]
    proof (rule and_then_done [OF _ clock_value], goal_cases)
      case (2 now c1)
      show ?case
      proof (cases "?rest = 0")
        case zero: True
        then show ?thesis using 2 by (simp add: Let_def)
      next
        case False
        have again: "ended (and_then (request_more ev plan (pg_requests p')) (\<lambda>r.
            read_pieces ev plan start fuel (p'\<lparr>pg_requests := r\<rparr>)) c2)"
          if "silent ?c c2 \<and> length (pc_in c2) < length (pc_in ?c)" for p' c2
        proof (rule and_then_done [OF conjunct1 [OF request_more_done [OF assms]] conjunct2 [OF request_more_done [OF assms]]])
          fix r and c3 :: peer_conn assume "pc_in c3 = pc_in c2 \<and> pc_ops c2 \<le> pc_ops c3"
          then show "ended (read_pieces ev plan start fuel (p'\<lparr>pg_requests := r\<rparr>) c3)"
            using that False by (intro Suc.IH enough_step [OF Suc.prems]) (auto simp: silent_def)
        qed
        have "ended (and_then (read_next_frame ev ?rest MetadataRead) (\<lambda>frame.
            case accept_frame ev plan frame p of
              None \<Rightarrow> returns p
            | Some (Inl e) \<Rightarrow> fails e
            | Some (Inr p) \<Rightarrow>
                and_then (request_more ev plan (pg_requests p)) (\<lambda>r.
                  read_pieces ev plan start fuel (p\<lparr>pg_requests := r\<rparr>))) ?c)"
          by (rule and_then_done [OF frame_done frame_progress])
            (use again in \<open>auto split: option.split sum.split\<close>)
        then show ?thesis using 2 False by (simp add: Let_def)
      qed
    qed simp
  qed
qed

lemma fetch_done:
  assumes enc: "\<forall>v. pe_enc ev v \<noteq> None"
    and fuel: "length (pc_in c) < fuel \<or> (advancing ev \<and> d * 2 < fuel)"
  shows "ended (fetch_from_stream_with_limit ev h d limit fuel c)"
proof -
  let ?less = "\<lambda>c c'. length (pc_in c') \<le> length (pc_in c)"
  have start: "enough ev a (pe_clock ev (pc_ops c1)) fuel (c1\<lparr>pc_ops := pc_ops c1 + 1\<rparr>)"
    if "?less c c1" "a \<le> d * 2" for a c1
  proof -
    have "pe_clock ev (pc_ops c1) \<le> pe_clock ev (Suc (pc_ops c1))" if "advancing ev"
      by (rule advancing_mono [OF that]) simp
    then show ?thesis using that fuel by (auto simp: enough_def)
  qed
  have hand: "ended (exchange_handshakes ev h d c1)" "ends (\<lambda>_. ?less c1) (exchange_handshakes ev h d c1)" for c1
    unfolding exchange_handshakes_def
     apply (rule and_then_done [OF _ ends_write], simp)
     apply (rule and_then_done [OF _ quiet_exact], simp)
     apply (simp split: option.split)
    apply (rule ends_and_then [where m = "write_all_timeout ev (handshake_to_bytes (new_handshake h (pe_peer_id ev))) d HandshakeWrite"],
        rule ends_write, simp)
    apply (rule ends_and_then [where m = "read_exact_timeout ev HANDSHAKE_LEN d HandshakeRead"], rule quiet_exact)
     apply (auto simp: silent_def split: option.split)
    done
  have quiet_hs: "quiet c1 (read_extended_handshake ev d fuel c1)" for c1
    unfolding read_extended_handshake_def by (intro quiet_and_then quiet_clock quiet_extended)
  have hs: "ended (read_extended_handshake ev d fuel c1)" if "?less c c1" for c1
    unfolding read_extended_handshake_def
    by (rule and_then_done [OF _ clock_value]) (use start [OF that, of d] in \<open>auto intro!: extended_done\<close>)
  have ext: "ended (exchange_extensions ev d limit fuel c1)" "ends (\<lambda>_. ?less c1) (exchange_extensions ev d limit fuel c1)"
    if l: "?less c c1" for c1
  proof -
    obtain payload where payload: "pe_enc ev (BDict (extended_to_dict our_extended_handshake)) = Some payload"
      using enc by blast
    let ?w = "write_all_timeout ev (message_to_bytes (Extended 0 payload)) d ExtensionWrite"
    show "ended (exchange_extensions ev d limit fuel c1)"
      unfolding exchange_extensions_def payload option.case
      apply (rule and_then_done [OF _ ends_write], simp)
      apply (rule and_then_done [OF _ quiet_hs])
       apply (rule hs, use l in simp)
      apply (simp split: sum.split)
      done
    show "ends (\<lambda>_. ?less c1) (exchange_extensions ev d limit fuel c1)"
      unfolding exchange_extensions_def payload option.case
      apply (rule ends_and_then [where m = ?w], rule ends_write, simp)
      apply (rule ends_and_then [where m = "read_extended_handshake ev d fuel"], rule quiet_hs)
       apply (auto simp: silent_def split: sum.split)
      done
  qed
  have pieces: "ended (fetch_pieces ev plan fuel c1)" if l: "?less c c1" "fp_peer_timeout plan = d" for plan c1
    unfolding fetch_pieces_def
  proof (rule and_then_done [OF conjunct1 [OF request_more_done [OF enc]] conjunct2 [OF request_more_done [OF enc]]], goal_cases)
    case (1 r c2)
    then have less: "?less c c2" using l by simp
    show ?case
    proof (rule and_then_done [OF _ clock_value], goal_cases)
      case (2 now c3)
      have "enough ev (fp_peer_timeout plan * 2) now fuel c3" using start [OF less, of "d * 2"] 2 l(2) by simp
      then have "ended (read_pieces ev plan now fuel p c3)" for p by (rule read_pieces_done [OF enc])
      then show ?case
        by (rule and_then_done [where R = "\<lambda>_ _. True"]) (auto simp: ends_def split: sum.split)
    qed simp
  qed
  show ?thesis
    unfolding fetch_from_stream_with_limit_def
  proof (rule and_then_done [OF hand(1) hand(2)], goal_cases)
    case (1 u c1)
    show ?case
      by (rule and_then_done [OF ext(1) ext(2)]) (use 1 pieces in \<open>auto split: prod.split\<close>)
  qed
qed

end
