(* ===== verification/Metadata_Properties.thy ===== *)
theory Metadata_Properties
  imports Metadata_Sessions
begin

text \<open>
  The properties of the metadata fetcher, each with a concrete instance.
\<close>

subsection \<open>The messages of an honest peer\<close>

definition block_count :: "bytes \<Rightarrow> nat" where
  "block_count md = (length md + 16383) div 16384"

definition data_dict :: "bytes \<Rightarrow> nat \<Rightarrow> bvalue" where
  "data_dict md k = metadata_data_dict (of_nat k) (of_nat (length md))"

definition data_message :: "bytes \<Rightarrow> nat \<Rightarrow> wire_message" where
  "data_message md k = Extended LOCAL_METADATA_ID (bencode (data_dict md k) @ block md k)"

definition extension_message :: "extended_handshake \<Rightarrow> wire_message" where
  "extension_message eh = Extended 0 (bencode (BDict (extended_to_dict eh)))"

lemma data_message_honest:
  assumes "small_message (data_message md k)" "pe_dec ev (bencode (data_dict md k)) = Inr (data_dict md k)"
  shows "piece_message ev md k (data_message md k)"
proof -
  have "length (bencode (data_dict md k) @ block md k) \<le> USIZE_MAX"
    using assms(1) by (simp add: small_message_def data_message_def USIZE_MAX_def)
  then show ?thesis
    using metadata_data_round_trip [of "pe_dec ev" "of_nat k" "of_nat (length md)" "block md k"] assms(2)
    by (simp add: piece_message_def data_message_def data_dict_def)
qed

lemma check_extensions_ok:
  assumes "extended_valid eh" "eh_metadata_size eh = Some sz" "sz \<le> limit"
    "fmlookup (eh_m eh) (str ''ut_metadata'') = Some i" "i \<noteq> 0"
  shows "\<exists>i queue. check_extensions limit eh = Inr (i, sz, queue)"
proof -
  have "uint i \<le> 255" using fmpredD [of _ "eh_m eh" "str ''ut_metadata''" i] assms(1,4) by (auto simp: extended_valid_def)
  then have "i \<le> 255" by (simp add: word_le_def)
  moreover have "1 \<le> uint sz" using assms(1,2) by (simp add: extended_valid_def)
  then have "sz \<noteq> 0" by auto
  ultimately show ?thesis using assms(2-5) by (simp add: check_extensions_def not_less)
qed

subsection \<open>What the fetcher promises\<close>

text \<open>
  C11: the metadata of an honest peer arrives intact.  The peer answers the handshake for our
  hash, says in its extension handshake how long the metadata is, and sends every block at
  least once, in any order, with any other messages before and between; when no operation of
  the connection fails or lasts, the fetch returns exactly the metadata.
\<close>

theorem honest_peer_is_fetched:
  assumes "calm ev" "md \<noteq> []" "0 < peer_timeout"
    and "length md < 2 ^ 32" "of_nat (length md) \<le> limit"
    and "handshake_valid hs" "h_info_hash hs = h" "supports_extensions hs"
    and "extended_valid eh" "eh_metadata_size eh = Some (of_nat (length md))"
    and "fmlookup (eh_m eh) (str ''ut_metadata'') = Some i" "i \<noteq> 0"
    and "pe_dec ev (bencode (BDict (extended_to_dict eh))) = Inr (BDict (extended_to_dict eh))"
    and "\<forall>k<block_count md. pe_dec ev (bencode (data_dict md k)) = Inr (data_dict md k)"
    and "\<forall>m\<in>set before. \<forall>payload. m \<noteq> Extended 0 payload"
    and "\<forall>k<block_count md. data_message md k \<in> set ms"
    and "\<forall>m\<in>set ms. (\<exists>k<block_count md. m = data_message md k) \<or> (\<forall>payload. m \<noteq> Extended LOCAL_METADATA_ID payload)"
    and "\<forall>m\<in>set (before @ extension_message eh # ms). small_message m"
    and "length before < fuel" "length ms \<le> fuel"
    and "pc_in c = handshake_to_bytes hs @
      concat (map message_to_bytes (before @ extension_message eh # ms)) @ rest"
  shows "\<exists>c'. fetch_from_stream_with_limit ev h peer_timeout limit fuel c = Some (Inr md, c')"
proof (rule fetch_honest [OF assms(1,2,4,3) _ assms(19,20)])
  have dec: "extended_from_bytes (pe_dec ev) (bencode (BDict (extended_to_dict eh))) = Some eh"
    by (rule extended_round_trip [where dec = "pe_dec ev"]) (use assms in simp_all)
  obtain j queue where plan: "check_extensions limit eh = Inr (j, of_nat (length md), queue)"
    using check_extensions_ok [OF assms(9,10,5,11,12)] by blast
  have small: "small_message m" if "m \<in> set (before @ extension_message eh # ms)" for m
    using assms(18) that by blast
  have piece: "piece_message ev md k (data_message md k)" if "k < block_count md" for k
    using that assms(14,16) by (intro data_message_honest) (auto intro!: small)
  have honest: "honest_message ev md m" if m: "m \<in> set ms" for m
    unfolding honest_message_def
  proof (intro conjI allI impI)
    show "small_message m" using m by (intro small) simp
    fix payload assume "m = Extended LOCAL_METADATA_ID payload"
    then obtain k where "k < block_count md" "m = data_message md k" using assms(17) m by blast
    then show "\<exists>k<(length md + 16383) div 16384. piece_message ev md k m"
      using piece by (auto simp: block_count_def)
  qed
  have hand: "length (handshake_to_bytes hs) = HANDSHAKE_LEN" "handshake_from_bytes (handshake_to_bytes hs) = Some hs"
    using hs.length_encode [OF assms(6)] hs.decode_encode [OF assms(6)] by (simp_all add: HANDSHAKE_LEN_def)
  show "honest_answer ev h limit md hs before (bencode (BDict (extended_to_dict eh))) ms"
    unfolding honest_answer_def
  proof (intro conjI)
    show "\<forall>k<(length md + 16383) div 16384. \<exists>m\<in>set ms. piece_message ev md k m"
      using piece assms(16) by (auto simp: block_count_def)
    show "small_message (Extended 0 (bencode (BDict (extended_to_dict eh))))"
      using small [of "extension_message eh"] by (simp add: extension_message_def del: bencode.simps)
    show "\<forall>m\<in>set before. small_message m \<and> (\<forall>payload. m \<noteq> Extended 0 payload)"
      using small assms(15) by simp
    show "\<exists>eh' i queue. extended_from_bytes (pe_dec ev) (bencode (BDict (extended_to_dict eh))) = Some eh' \<and>
        check_extensions limit eh' = Inr (i, of_nat (length md), queue)"
      using dec plan by blast
  qed (use hand assms(7,8) honest in auto)
  show "pc_in c = handshake_to_bytes hs @
      concat (map message_to_bytes (before @ Extended 0 (bencode (BDict (extended_to_dict eh))) # ms)) @ rest"
    using assms(21) by (simp only: extension_message_def)
qed

definition ex_md :: bytes where "ex_md = [100, 101, 102]"

definition ex_eh :: extended_handshake where
  "ex_eh = \<lparr>eh_m = fmupd (str ''ut_metadata'') 3 fmempty, eh_metadata_size = Some 3,
     eh_v = None, eh_your_ip = None, eh_reqq = None\<rparr>"

definition ex_peer_env :: peer_env where
  "ex_peer_env = \<lparr>pe_io = \<lambda>k d. IoDone, pe_clock = \<lambda>k. 5, pe_peer_id = replicate 20 7, pe_enc = \<lambda>v. Some [], pe_enc_error = [],
     pe_dec = \<lambda>bs. if bs = bencode (data_dict ex_md 0) then Inr (data_dict ex_md 0)
       else Inr (BDict (extended_to_dict ex_eh))\<rparr>"

lemma honest_peer_is_fetched_witness:
  "\<exists>c'. fetch_from_stream_with_limit ex_peer_env (replicate 20 1) 10 100 5
     \<lparr>pc_in = handshake_to_bytes (new_handshake (replicate 20 1) (replicate 20 2)) @
        concat (map message_to_bytes ([Unchoke] @ extension_message ex_eh #
          [KeepAlive, data_message ex_md 0, data_message ex_md 0])) @ [9], pc_ops = 0, pc_written = []\<rparr> =
     Some (Inr ex_md, c')"
proof (rule honest_peer_is_fetched [where md = ex_md and eh = ex_eh and i = 3 and rest = "[9]" and
      hs = "new_handshake (replicate 20 1) (replicate 20 2)" and
      before = "[Unchoke]" and ms = "[KeepAlive, data_message ex_md 0, data_message ex_md 0]"])
  have u: "utf8_valid (str ''ut_metadata'')" by code_simp
  show "extended_valid ex_eh" using u by (simp add: extended_valid_def ex_eh_def fmpred_upd)
  have one: "block_count ex_md = 1" by (simp add: block_count_def ex_md_def)
  have "hd (tl (bencode (BDict (extended_to_dict ex_eh)))) \<noteq> hd (tl (bencode (data_dict ex_md 0)))"
    by code_simp
  then have ne: "bencode (BDict (extended_to_dict ex_eh)) \<noteq> bencode (data_dict ex_md 0)" by metis
  have len: "length (bencode (BDict (extended_to_dict ex_eh))) \<le> 100" "length (bencode (data_dict ex_md 0)) \<le> 100"
    by code_simp+
  show "\<forall>m\<in>set ([Unchoke] @ extension_message ex_eh # [KeepAlive, data_message ex_md 0, data_message ex_md 0]). small_message m"
    using len by (simp del: bencode.simps add: small_message_def message_fits_def extension_message_def data_message_def block_def ex_md_def)
  show "pe_dec ex_peer_env (bencode (BDict (extended_to_dict ex_eh))) = Inr (BDict (extended_to_dict ex_eh))"
    using ne by (simp add: ex_peer_env_def)
  show "\<forall>k<block_count ex_md. pe_dec ex_peer_env (bencode (data_dict ex_md k)) = Inr (data_dict ex_md k)"
    by (simp add: one ex_peer_env_def)
  show "\<forall>k<block_count ex_md. data_message ex_md k \<in> set [KeepAlive, data_message ex_md 0, data_message ex_md 0]"
    by (simp add: one)
qed (simp_all add: calm_def ex_peer_env_def ex_md_def ex_eh_def handshake_valid_def new_handshake_def valid_id_def
    NODE_ID_LEN_def supports_extensions_def block_count_def)

text \<open>
  C12: whatever a peer sends and whenever operations fail or time out, what is written to it is
  a prefix of one conversation (our handshake, our extension handshake, one request for each
  piece in order, no more of them than the size limit has pieces), and a fetch that succeeds
  yields a non-empty byte string within the size limit.
\<close>

theorem fetch_stays_within_limits:
  assumes "fetch_from_stream_with_limit ev h peer_timeout limit fuel
      \<lparr>pc_in = stream, pc_ops = 0, pc_written = []\<rparr> = Some (result, c)"
  shows "(\<exists>i n k. n \<le> unat (metadata_piece_count limit) \<and> rev (pc_written c) = take k (script ev h i n)) \<and>
    (\<forall>bs. result = Inr bs \<longrightarrow> bs \<noteq> [] \<and> length bs \<le> unat limit)"
proof -
  let ?c = "\<lparr>pc_in = stream, pc_ops = 0, pc_written = []\<rparr>"
  have w: "\<exists>i n k. n \<le> unat (metadata_piece_count limit) \<and> pc_written c = rev (take k (script ev h i n)) @ pc_written ?c"
    and d: "\<forall>bs. result = Inr bs \<longrightarrow> bs \<noteq> [] \<and> length bs \<le> unat limit"
    using endsD [OF fetch_writes assms] by blast+
  obtain i n k where "n \<le> unat (metadata_piece_count limit)" "pc_written c = rev (take k (script ev h i n)) @ pc_written ?c"
    using w by blast
  moreover from this(2) have "rev (pc_written c) = take k (script ev h i n)" by simp
  ultimately show ?thesis using d by blast
qed

definition ex_silent :: peer_env where
  "ex_silent = \<lparr>pe_io = \<lambda>k d. if k = 1 then IoTimedOut else IoDone, pe_clock = \<lambda>k. k, pe_peer_id = replicate 20 7,
     pe_enc = \<lambda>v. Some [], pe_enc_error = [], pe_dec = \<lambda>bs. Inl []\<rparr>"

lemma ex_silent_run:
  "fetch_from_stream_with_limit ex_silent (replicate 20 1) 10 100 21
     \<lparr>pc_in = [], pc_ops = 0, pc_written = []\<rparr> =
   Some (Inl (FE_Timeout HandshakeRead), \<lparr>pc_in = [], pc_ops = 2, pc_written = [hello ex_silent (replicate 20 1)]\<rparr>)"
  by (simp add: fetch_from_stream_with_limit_def exchange_handshakes_def and_then_def write_all_timeout_def
      read_exact_timeout_def ex_silent_def hello_def)

lemma fetch_stays_within_limits_witness:
  "\<exists>i n k. n \<le> unat (metadata_piece_count 100) \<and>
     [hello ex_silent (replicate 20 1)] = take k (script ex_silent (replicate 20 1) i n)"
  using fetch_stays_within_limits [OF ex_silent_run] by simp

text \<open>
  C13: a fetch ends.  When the encoder answers, the loops of the fetch need no more fuel than
  the bytes the peer sends, and, however much it sends, no more than twice the peer timeout
  in ticks of a clock that advances: the deadlines end them.
\<close>

theorem fetch_terminates:
  assumes "\<forall>v. pe_enc ev v \<noteq> None"
    and "length (pc_in c) < fuel \<or> ((\<forall>k. pe_clock ev k < pe_clock ev (Suc k)) \<and> peer_timeout * 2 < fuel)"
  shows "fetch_from_stream_with_limit ev h peer_timeout limit fuel c \<noteq> None"
  using fetch_done [OF assms(1), of c fuel peer_timeout h limit] assms(2) by (simp add: ended_def advancing_def)

lemma fetch_terminates_witness:
  "fetch_from_stream_with_limit ex_silent (replicate 20 1) 10 100 21 \<lparr>pc_in = replicate 1000 0, pc_ops = 0, pc_written = []\<rparr> \<noteq> None"
  by (rule fetch_terminates) (simp_all add: ex_silent_def)

subsection \<open>What is read from an info dictionary\<close>

text \<open>
  A path as the catalog keeps it, read by its separators: it stays inside the directory it is
  relative to when no component is empty (so it does not start with a separator either), the
  directory itself or its parent.
\<close>

fun split_slash :: "rstring \<Rightarrow> rstring list" where
  "split_slash [] = [[]]"
| "split_slash (b # bs) =
     (if b = 0x2F then [] # split_slash bs
      else (b # hd (split_slash bs)) # tl (split_slash bs))"

definition safe_component :: "rstring \<Rightarrow> bool" where
  "safe_component c \<longleftrightarrow> c \<noteq> [] \<and> c \<noteq> str ''.'' \<and> c \<noteq> str ''..''"

definition safe_path :: "rstring \<Rightarrow> bool" where
  "safe_path p \<longleftrightarrow> length (split_slash p) \<le> 64 \<and> (\<forall>c\<in>set (split_slash p). safe_component c)"

lemma split_slash_plain: "0x2F \<notin> set c \<Longrightarrow> split_slash c = [c]"
  by (induction c) auto

lemma split_slash_first: "0x2F \<notin> set c \<Longrightarrow> split_slash (c @ 0x2F # rest) = c # split_slash rest"
  by (induction c) auto

lemma str_slash: "str ''/'' = [0x2F]"
  by code_simp

lemma split_slash_join: "cs \<noteq> [] \<Longrightarrow> \<forall>c\<in>set cs. 0x2F \<notin> set c \<Longrightarrow> split_slash (join_slash cs) = cs"
  by (induction cs rule: join_slash.induct) (simp_all add: split_slash_plain split_slash_first str_slash)

lemma from_utf8_lossy_Nil: "from_utf8_lossy bs = [] \<longleftrightarrow> bs = []"
proof (cases bs)
  case (Cons b bs')
  obtain ok n where c: "utf8_chunk (b # bs') = (ok, n)" by fastforce
  from utf8_chunk_pos [OF this] show ?thesis using c Cons by simp
qed simp

lemma path_component_safe:
  assumes "path_component part = Inr c"
  shows "safe_component c \<and> 0x2F \<notin> set c"
proof -
  obtain b where b: "part = BBytes b"
    using assms by (cases part) (simp_all add: path_component_def)
  have "b \<noteq> []" "c = from_utf8_lossy b" "c \<noteq> str ''.''" "c \<noteq> str ''..''" "0x2F \<notin> set c"
    using assms unfolding path_component_def b bvalue.case Let_def by (metis Inl_Inr_False sum.inject(2))+
  then show ?thesis using from_utf8_lossy_Nil unfolding safe_component_def by metis
qed

lemma path_components_safe:
  "path_components parts = Inr cs \<Longrightarrow>
    length cs = length parts \<and> (\<forall>c\<in>set cs. safe_component c \<and> 0x2F \<notin> set c)"
proof (induction parts arbitrary: cs)
  case (Cons part parts)
  obtain c cs' where c: "path_component part = Inr c" "path_components parts = Inr cs'" "cs = c # cs'"
    using Cons.prems by (auto split: sum.splits)
  then show ?case using Cons.IH [OF c(2)] path_component_safe [OF c(1)] by simp
qed simp

lemma checked_add_value: "checked_add_i64 a b = Some c \<Longrightarrow> sint c = sint a + sint b"
  by (auto simp: checked_add_i64_def sint_word_ariths signed_take_bit_int_eq_self split: if_splits)

lemma file_entry_safe:
  assumes "file_entry tot v = Inr (tot', p, sz)"
  shows "sint tot' = sint tot + sint sz \<and> 0 \<le> sint sz \<and> safe_path p"
proof -
  obtain d where d: "v = BDict d" "get_bencode_int d (str ''length'') = Some sz" "\<not> sint sz < 0"
    "checked_add_i64 tot sz = Some tot'"
    using assms by (auto simp: file_entry_def split: bvalue.splits option.splits if_splits sum.splits)
  obtain parts cs where "parts \<noteq> []" "length parts \<le> 64" "path_components parts = Inr cs" "p = join_slash cs"
    using assms d by (auto simp: file_entry_def MAX_PATH_COMPONENTS_def split: bvalue.splits option.splits if_splits sum.splits)
  then have "safe_path p"
    using path_components_safe [of parts cs] split_slash_join [of cs] by (cases cs) (auto simp: safe_path_def)
  then show ?thesis using d checked_add_value by auto
qed

lemma file_entries_safe:
  "file_entries tot vs = Inr (tot', files) \<Longrightarrow>
    length files = length vs \<and> sint tot' = sint tot + (\<Sum>f\<leftarrow>files. sint (snd f)) \<and>
    (\<forall>f\<in>set files. 0 \<le> sint (snd f) \<and> safe_path (fst f))"
proof (induction vs arbitrary: tot files)
  case (Cons v vs)
  obtain tot1 p sz rest where e: "file_entry tot v = Inr (tot1, p, sz)" "file_entries tot1 vs = Inr (tot', rest)"
    "files = (p, sz) # rest"
    using Cons.prems by (auto split: sum.splits)
  show ?case using Cons.IH [OF e(2)] file_entry_safe [OF e(1)] e(3) by auto
qed simp

lemma torrent_files_listed:
  assumes "fmlookup dict (str ''files'') = Some (BList vs)" "torrent_files dict name = Inr (tot, files)"
  shows "files \<noteq> [] \<and> length files = length vs \<and> length files \<le> MAX_FILE_COUNT \<and>
    sint tot = (\<Sum>f\<leftarrow>files. sint (snd f)) \<and> (\<forall>f\<in>set files. 0 \<le> sint (snd f) \<and> safe_path (fst f))"
proof -
  have e: "file_entries 0 vs = Inr (tot, files)" "vs \<noteq> []" "length vs \<le> MAX_FILE_COUNT"
    using assms(2) unfolding torrent_files_def assms(1) option.case bvalue.case by (auto split: if_splits)
  then show ?thesis using file_entries_safe [OF e(1)] by (cases files) auto
qed

lemma torrent_files_single:
  assumes "\<nexists>vs. fmlookup dict (str ''files'') = Some (BList vs)" "torrent_files dict name = Inr (tot, files)"
  shows "0 \<le> sint tot \<and> files = [(name, tot)] \<and> get_bencode_int dict (str ''length'') = Some tot"
proof -
  have "torrent_files dict name = (case get_bencode_int dict (str ''length'') of
             Some len \<Rightarrow>
               if sint len < 0 then Inl (str ''negative torrent length'')
               else Inr (len, [(name, len)])
           | None \<Rightarrow> Inl (str ''no files or length in info dict''))"
    unfolding torrent_files_def using assms(1) by (simp split: option.split bvalue.split)
  then show ?thesis using assms(2) by (auto simp: not_less split: option.splits if_splits)
qed

text \<open>
  C29: what is read from an info dictionary is within the bounds the catalog relies on: a piece
  length between one byte and 64 mebibytes, between one and a hundred thousand files and their
  exact count, no negative size, a total that is the sum of the sizes (no overflow) and a name
  of at most 4096 bytes. With a file list there is one file for each entry, and no path leaves
  its directory: split at its separators it has at most 64 components, none of them empty (so
  it is relative), a dot or two dots. Without one the only file has the torrent's name and
  its length; that name is not checked as a path.
\<close>

theorem torrent_info_is_bounded:
  assumes "parse_torrent_info dec data = Inr info"
  shows "1 \<le> sint (ti_piece_length info) \<and> sint (ti_piece_length info) \<le> 64 * 1024 * 1024 \<and>
    1 \<le> length (ti_files info) \<and> length (ti_files info) \<le> 100000 \<and>
    sint (ti_file_count info) = int (length (ti_files info)) \<and>
    (\<forall>f\<in>set (ti_files info). 0 \<le> sint (snd f)) \<and>
    sint (ti_total_size info) = (\<Sum>f\<leftarrow>ti_files info. sint (snd f)) \<and>
    length (ti_name info) \<le> 4096 \<and>
    (\<exists>dict. dec data = Inr (BDict dict) \<and>
      (case fmlookup dict (str ''files'') of
         Some (BList vs) \<Rightarrow> length (ti_files info) = length vs \<and> (\<forall>f\<in>set (ti_files info). safe_path (fst f))
       | _ \<Rightarrow> ti_files info = [(ti_name info, ti_total_size info)] \<and>
             fmlookup dict (str ''length'') = Some (BInt (ti_total_size info))))"
proof -
  obtain dict where dec: "dec data = Inr (BDict dict)"
    using assms by (auto simp: parse_torrent_info_def split: sum.splits bvalue.splits)
  note parse = assms [unfolded parse_torrent_info_def dec sum.case bvalue.case Let_def]
  obtain name where name: "name = (case get_bencode_preferred_str dict (str ''name.utf-8'') (str ''name'') of
                 None \<Rightarrow> str ''unknown'' | Some name \<Rightarrow> name)" by blast
  note parse = parse [folded name]
  obtain pl where pl: "get_bencode_int dict (str ''piece length'') = Some pl"
    using parse by (cases "get_bencode_int dict (str ''piece length'')") (auto split: if_splits)
  note parse = parse [unfolded pl option.case]
  obtain tot files where info: "info = \<lparr>ti_name = name, ti_piece_length = pl, ti_total_size = tot,
        ti_file_count = of_nat (length files), ti_files = files\<rparr>" "length name \<le> MAX_NAME_BYTES"
    "1 \<le> sint pl" "sint pl \<le> sint MAX_PIECE_LENGTH" "torrent_files dict name = Inr (tot, files)"
    using parse by (cases "torrent_files dict name") (auto simp: not_less split: if_splits)
  note listed = torrent_files_listed [OF _ info(5)] and single = torrent_files_single [OF _ info(5)]
  have files: "files \<noteq> []" "length files \<le> 100000" "sint tot = (\<Sum>f\<leftarrow>files. sint (snd f))"
    "\<forall>f\<in>set files. 0 \<le> sint (snd f)"
    by (cases "\<exists>vs. fmlookup dict (str ''files'') = Some (BList vs)";
        use listed single in \<open>force simp: MAX_FILE_COUNT_def\<close>)+
  then have count: "sint (of_nat (length files) :: i64) = int (length files)"
    by (simp add: signed_of_nat signed_take_bit_int_eq_self)
  have f: "ti_name info = name" "ti_piece_length info = pl" "ti_total_size info = tot"
    "ti_file_count info = of_nat (length files)" "ti_files info = files"
    by (simp_all add: info(1))
  have "case fmlookup dict (str ''files'') of
         Some (BList vs) \<Rightarrow> length (ti_files info) = length vs \<and> (\<forall>f\<in>set (ti_files info). safe_path (fst f))
       | _ \<Rightarrow> ti_files info = [(ti_name info, ti_total_size info)] \<and>
             fmlookup dict (str ''length'') = Some (BInt (ti_total_size info))"
    unfolding f using listed single by (auto simp: get_bencode_int_def split: option.splits bvalue.splits)
  moreover have "1 \<le> length files" using files(1) by (cases files) auto
  moreover have "sint pl \<le> 64 * 1024 * 1024" "length name \<le> 4096"
    using info by (simp_all add: MAX_PIECE_LENGTH_def MAX_NAME_BYTES_def)
  ultimately show ?thesis using files count dec info(3) unfolding f by blast
qed

definition ex_file :: bvalue where
  "ex_file = BDict (fmupd (str ''length'') (BInt 5) (fmupd (str ''path'') (BList [BBytes (str ''a''), BBytes (str ''b'')]) fmempty))"

definition ex_info :: bdict where
  "ex_info = fmupd (str ''piece length'') (BInt 16384)
     (fmupd (str ''name'') (BBytes (str ''n'')) (fmupd (str ''files'') (BList [ex_file, ex_file]) fmempty))"

lemma ex_lossy:
  "from_utf8_lossy (str ''n'') = str ''n''" "from_utf8_lossy (str ''a'') = str ''a''" "from_utf8_lossy (str ''b'') = str ''b''"
  by code_simp+

lemma ex_paths: "path_components [BBytes (str ''a''), BBytes (str ''b'')] = Inr [str ''a'', str ''b'']"
proof -
  have "str ''a'' \<noteq> []" "str ''b'' \<noteq> []" "str ''a'' \<noteq> str ''.''" "str ''a'' \<noteq> str ''..''" "str ''b'' \<noteq> str ''.''"
    "str ''b'' \<noteq> str ''..''" "0x2F \<notin> set (str ''a'')" "0x2F \<notin> set (str ''b'')"
    "length (str ''a'') = 1" "length (str ''b'') = 1"
    by code_simp+
  then show ?thesis by (simp add: path_component_def ex_lossy MAX_PATH_COMPONENT_BYTES_def)
qed

lemma ex_entry:
  "file_entry 0 ex_file = Inr (5, join_slash [str ''a'', str ''b''], 5)"
  "file_entry 5 ex_file = Inr (10, join_slash [str ''a'', str ''b''], 5)"
  by (simp_all only: file_entry_def ex_file_def bvalue.case)
    (simp_all add: get_bencode_int_def or_else_def checked_add_i64_def MAX_PATH_COMPONENTS_def ex_paths del: join_slash.simps path_components.simps)

lemma ex_info_parsed:
  "parse_torrent_info (\<lambda>bs. Inr (BDict ex_info)) [] = Inr \<lparr>ti_name = str ''n'', ti_piece_length = 16384,
     ti_total_size = 10, ti_file_count = 2,
     ti_files = [(join_slash [str ''a'', str ''b''], 5), (join_slash [str ''a'', str ''b''], 5)]\<rparr>"
proof -
  have "torrent_files ex_info nm =
      Inr (10, [(join_slash [str ''a'', str ''b''], 5), (join_slash [str ''a'', str ''b''], 5)])" for nm
    by (simp add: torrent_files_def ex_info_def MAX_FILE_COUNT_def ex_entry del: join_slash.simps)
  moreover have "get_bencode_preferred_str ex_info (str ''name.utf-8'') (str ''name'') = Some (str ''n'')"
    by (simp add: get_bencode_preferred_str_def get_bencode_str_def or_else_def ex_info_def ex_lossy)
  moreover have "get_bencode_int ex_info (str ''piece length'') = Some 16384" "get_bencode_int ex_info (str ''meta version'') = None"
    by (simp_all add: get_bencode_int_def ex_info_def)
  moreover have "length (str ''n'') = 1" by code_simp
  ultimately show ?thesis
    by (simp add: parse_torrent_info_def MAX_NAME_BYTES_def MAX_PIECE_LENGTH_def del: join_slash.simps)
qed

lemma torrent_info_is_bounded_witness:
  "safe_path (join_slash [str ''a'', str ''b''])"
proof -
  have "fmlookup ex_info (str ''files'') = Some (BList [ex_file, ex_file])" by (simp add: ex_info_def)
  then show ?thesis using torrent_info_is_bounded [OF ex_info_parsed] by (simp del: join_slash.simps)
qed

text \<open>
  The specification of a path refuses what it should, and the name of a torrent without a file
  list, which becomes the path of its only file, is not held to it.
\<close>

lemma unsafe_paths:
  "\<not> safe_path (str ''/etc'')" "\<not> safe_path (str ''../x'')" "\<not> safe_path (str ''a//b'')"
  by code_simp+

lemma single_file_name_unchecked:
  fixes dict :: bdict
  defines "dict \<equiv> fmupd (str ''piece length'') (BInt 16384)
     (fmupd (str ''name'') (BBytes (str ''../x'')) (fmupd (str ''length'') (BInt 5) fmempty))"
  shows "\<exists>info. parse_torrent_info (\<lambda>bs. Inr (BDict dict)) [] = Inr info \<and> ti_files info = [(str ''../x'', 5)]"
proof -
  have lossy: "from_utf8_lossy (str ''../x'') = str ''../x''" "length (str ''../x'') = 4" by code_simp+
  have "torrent_files dict nm = Inr (5, [(nm, 5)])" for nm
    by (simp add: torrent_files_def dict_def get_bencode_int_def)
  moreover have "get_bencode_preferred_str dict (str ''name.utf-8'') (str ''name'') = Some (str ''../x'')"
    by (simp add: get_bencode_preferred_str_def get_bencode_str_def or_else_def dict_def lossy)
  moreover have "get_bencode_int dict (str ''piece length'') = Some 16384"
    "get_bencode_int dict (str ''meta version'') = None" by (simp_all add: get_bencode_int_def dict_def)
  ultimately show ?thesis
    by (simp add: parse_torrent_info_def MAX_NAME_BYTES_def MAX_PIECE_LENGTH_def lossy Let_def)
qed

end
