(* ===== verification/Metadata_Rounds.thy ===== *)
theory Metadata_Rounds
  imports Metadata_Jobs Metadata_Sessions
begin

text \<open>
  The calls a round of a job makes to the store, the answers it got and the outcome it
  reports; and that a round ends when the store and the peers answer.
\<close>

subsection \<open>What a round may write\<close>

text \<open>Only metadata whose hash is the job's, from a peer of the job, is committed.\<close>

definition call_ok :: "job_env \<Rightarrow> (bytes \<Rightarrow> bool) \<Rightarrow> info_hash \<Rightarrow> store_call \<Rightarrow> bool" where
  "call_ok ev fetched h c \<longleftrightarrow> (case c of
      HashJobIsTerminal h' \<Rightarrow> h' = h
    | PeerRetryEligibility h' a n \<Rightarrow> h' = h
    | SetPeerAttempt h' a f \<Rightarrow> h' = h
    | CommitMetadata h' name piece_length total_size files \<Rightarrow> h' = h \<and>
        (\<exists>bytes info. fetched bytes \<and> je_sha1 ev bytes = h \<and> parse_torrent_info (je_dec ev) bytes = Inr info \<and>
           name = ti_name info \<and> piece_length = ti_piece_length info \<and> total_size = ti_total_size info \<and>
           files = ti_files info)
    | UpdateHashJobFailure h' status n t msg \<Rightarrow> h' = h
    | _ \<Rightarrow> False)"

text \<open>
  The calls after which the round goes on: the store did not say that the job is terminal,
  refused the commit, or refused the status.  A commit refused because its search document is
  too large is special: the round ends with it.
\<close>

definition leaves_open :: "job_env \<Rightarrow> nat \<times> store_call \<Rightarrow> bool" where
  "leaves_open ev kc \<longleftrightarrow> (case snd kc of
      HashJobIsTerminal h \<Rightarrow> je_terminal ev (fst kc) \<noteq> Inr True
    | CommitMetadata h name piece_length total_size files \<Rightarrow> \<exists>e. je_commit ev (fst kc) = Inl e
    | UpdateHashJobFailure h status n t msg \<Rightarrow> \<exists>e. je_rows ev (fst kc) = Inl e
    | _ \<Rightarrow> True)"

definition too_large :: "job_env \<Rightarrow> rstring \<Rightarrow> nat \<times> store_call \<Rightarrow> bool" where
  "too_large ev msg kc \<longleftrightarrow> (case snd kc of
      CommitMetadata h name piece_length total_size files \<Rightarrow>
        \<exists>e. je_commit ev (fst kc) = Inl e \<and> is_unsupported_search_document e \<and> db_error_text e = msg
    | _ \<Rightarrow> False)"

text \<open>
  The call that ends a round, with the store's answer, and the outcome reported for it.
  \<^item> The store said that the job is terminal: terminal, without an attempt.
  \<^item> The store accepted a commit: complete.
  \<^item> A status was written, with the attempts of this and earlier rounds: the job is not
    complete.  It is terminal if the metadata could not be used: the commit before was refused
    as too large, and the store accepted the status; or what a peer sent has the right hash
    and cannot be read.  It is parked if it waits for peers, else it will be retried.
\<close>

definition settles ::
  "job_env \<Rightarrow> (bytes \<Rightarrow> bool) \<Rightarrow> info_hash \<Rightarrow> u32 \<Rightarrow> job_outcome \<Rightarrow> (nat \<times> store_call) list \<Rightarrow> nat \<times> store_call \<Rightarrow> bool" where
  "settles ev fetched h prior outcome calls kc \<longleftrightarrow> (case snd kc of
      HashJobIsTerminal h' \<Rightarrow> je_terminal ev (fst kc) = Inr True \<and>
        \<not> jo_complete outcome \<and> jo_terminal outcome \<and> \<not> jo_parked outcome \<and> jo_attempts outcome = 0
    | CommitMetadata h' name piece_length total_size files \<Rightarrow> je_commit ev (fst kc) = Inr () \<and>
        jo_complete outcome \<and> \<not> jo_terminal outcome \<and> \<not> jo_parked outcome
    | UpdateHashJobFailure h' status n t msg \<Rightarrow>
        \<not> jo_complete outcome \<and> n = sat_add_u32 prior (jo_attempts outcome) \<and>
        (if jo_terminal outcome then \<not> jo_parked outcome \<and> t = 0 \<and>
           (status = str ''unsupported'' \<and> (\<exists>kc'\<in>set calls. too_large ev msg kc') \<and> (\<exists>rows. je_rows ev (fst kc) = Inr rows) \<or>
            (\<exists>bytes. fetched bytes \<and> je_sha1 ev bytes = h \<and> parse_torrent_info (je_dec ev) bytes = Inl msg \<and>
               status = (if sublist (str ''unsupported'') msg then str ''unsupported'' else str ''invalid'')))
         else if jo_parked outcome then status = str ''waiting_peers'' \<and> t = 0
         else status = str ''retry_at'')
    | _ \<Rightarrow> False)"

subsection \<open>The calls of a round\<close>

definition goes_on :: "job_env \<Rightarrow> (bytes \<Rightarrow> bool) \<Rightarrow> info_hash \<Rightarrow> job_world \<Rightarrow> job_world \<Rightarrow> bool" where
  "goes_on ev F h w w' \<longleftrightarrow> (\<exists>calls. jw_log w' = calls @ jw_log w \<and>
     (\<forall>kc\<in>set calls. call_ok ev F h (snd kc) \<and> leaves_open ev kc \<and> (\<nexists>msg. too_large ev msg kc)))"

definition closes ::
  "job_env \<Rightarrow> (bytes \<Rightarrow> bool) \<Rightarrow> info_hash \<Rightarrow> u32 \<Rightarrow> job_outcome \<Rightarrow> job_world \<Rightarrow> job_world \<Rightarrow> bool" where
  "closes ev F h prior outcome w w' \<longleftrightarrow> (\<exists>kc calls. jw_log w' = kc # calls @ jw_log w \<and>
     call_ok ev F h (snd kc) \<and> (\<forall>kc'\<in>set calls. call_ok ev F h (snd kc') \<and> leaves_open ev kc') \<and>
     settles ev F h prior outcome calls kc \<and>
     ((\<exists>kc'\<in>set calls. \<exists>msg. too_large ev msg kc') \<longrightarrow> jo_terminal outcome \<and> (\<exists>rows. je_rows ev (fst kc) = Inr rows)))"

lemma goes_on_refl [simp]: "goes_on ev F h w w"
  by (simp add: goes_on_def)

lemma goes_on_trans: "goes_on ev F h a b \<Longrightarrow> goes_on ev F h b c \<Longrightarrow> goes_on ev F h a c"
  unfolding goes_on_def by (metis (no_types, lifting) Un_iff append.assoc set_append)

lemma goes_on_step:
  "jw_log w' = kc # jw_log w \<Longrightarrow> call_ok ev F h (snd kc) \<Longrightarrow> leaves_open ev kc \<Longrightarrow> (\<nexists>msg. too_large ev msg kc) \<Longrightarrow>
   goes_on ev F h w w'"
  unfolding goes_on_def by (rule exI [of _ "[kc]"]) simp

lemma settles_more: "settles ev F h prior outcome calls kc \<Longrightarrow> settles ev F h prior outcome (calls @ old) kc"
  unfolding settles_def by (cases "snd kc") (auto split: if_splits)

lemma closes_after:
  assumes "goes_on ev F h a b" "closes ev F h prior outcome b c"
  shows "closes ev F h prior outcome a c"
proof -
  obtain old where m: "jw_log b = old @ jw_log a"
    "\<forall>kc\<in>set old. call_ok ev F h (snd kc) \<and> leaves_open ev kc \<and> (\<nexists>msg. too_large ev msg kc)"
    using assms(1) unfolding goes_on_def by blast
  obtain kc calls where c: "jw_log c = kc # calls @ jw_log b" "call_ok ev F h (snd kc)"
    "\<forall>kc'\<in>set calls. call_ok ev F h (snd kc') \<and> leaves_open ev kc'" "settles ev F h prior outcome calls kc"
    "(\<exists>kc'\<in>set calls. \<exists>msg. too_large ev msg kc') \<longrightarrow> jo_terminal outcome \<and> (\<exists>rows. je_rows ev (fst kc) = Inr rows)"
    using assms(2) unfolding closes_def by blast
  show ?thesis unfolding closes_def
    by (rule exI [of _ kc], rule exI [of _ "calls @ old"])
      (use m c settles_more [OF c(4), of old] in \<open>simp, blast\<close>)
qed

lemma closes_step:
  "jw_log w' = kc # jw_log w \<Longrightarrow> call_ok ev F h (snd kc) \<Longrightarrow> settles ev F h prior outcome [] kc \<Longrightarrow>
   closes ev F h prior outcome w w'"
  unfolding closes_def by (rule exI [of _ kc], rule exI [of _ "[]"]) simp

lemma log_simps [simp]:
  "jw_log (tick w) = jw_log w" "jw_log (count f w) = jw_log w" "jw_log (call c w) = (jw_calls w, c) # jw_log w"
  "jw_log (record_retrieval_outcome rows r w) = jw_log w"
  "jw_log (snd (emit_event ev e w)) = jw_log w" "jw_log (emit_metadata_failure ev reason w) = jw_log w"
  by (simp_all add: tick_def count_def call_def record_retrieval_outcome_def emit_event_def emit_metadata_failure_def Let_def)

lemma calls_simps [simp]:
  "jw_calls (tick w) = Suc (jw_calls w)" "jw_calls (count f w) = jw_calls w" "jw_calls (call c w) = Suc (jw_calls w)"
  by (simp_all add: tick_def count_def call_def)

lemma log_mark:
  "mark_hash_job_failure ev h status n at_time msg w = (rows, w') \<Longrightarrow>
   jw_log w' = (jw_calls w, UpdateHashJobFailure h status n at_time msg) # jw_log w"
  by (auto simp: mark_hash_job_failure_def update_hash_job_failure_def split: sum.splits)

lemma log_set_attempt [simp]:
  "jw_log (log_storage_result (set_peer_attempt ev h a f w)) = (jw_calls w, SetPeerAttempt h a f) # jw_log w"
  by (auto simp: log_storage_result_def set_peer_attempt_def split: sum.split)

lemma await_terminal_log:
  "await_terminal ev h fuel w = Some (b, w') \<Longrightarrow>
    (if b then closes ev F h prior (job_done h 0 False True False) w w' else goes_on ev F h w w')"
proof (induction fuel arbitrary: w)
  case (Suc fuel)
  show ?case
  proof (cases "je_terminal ev (jw_calls w)")
    case (Inr b')
    then have "w' = call (HashJobIsTerminal h) w" "b = b'" using Suc.prems by simp_all
    then show ?thesis using Inr
      by (auto intro!: closes_step goes_on_step simp: call_ok_def settles_def leaves_open_def too_large_def job_done_def)
  next
    case (Inl e)
    let ?w = "count record_persistence_error (call (HashJobIsTerminal h) w)"
    have "goes_on ev F h w ?w"
      by (rule goes_on_step [of _ "(jw_calls w, HashJobIsTerminal h)"])
        (simp_all add: call_ok_def leaves_open_def too_large_def Inl)
    moreover have "if b then closes ev F h prior (job_done h 0 False True False) ?w w' else goes_on ev F h ?w w'"
      using Suc.prems Inl by (intro Suc.IH) simp
    ultimately show ?thesis using closes_after goes_on_trans by (metis (full_types))
  qed
qed simp

lemma await_unsupported_log:
  "await_unsupported ev h n msg fuel w = Some (rows, w') \<Longrightarrow>
   \<exists>k calls. jw_log w' = (k, UpdateHashJobFailure h (str ''unsupported'') n 0 msg) # calls @ jw_log w \<and> je_rows ev k = Inr rows \<and>
     (\<forall>kc\<in>set calls. call_ok ev F h (snd kc) \<and> leaves_open ev kc \<and> (\<nexists>msg. too_large ev msg kc))"
proof (induction fuel arbitrary: w)
  case (Suc fuel)
  let ?c = "UpdateHashJobFailure h (str ''unsupported'') n 0 msg"
  show ?case
  proof (cases "je_rows ev (jw_calls w)")
    case (Inr b')
    then have "w' = call ?c w" "rows = b'" using Suc.prems by (simp_all add: update_hash_job_failure_def)
    then show ?thesis using Inr by (intro exI [of _ "jw_calls w"] exI [of _ "[]"]) simp
  next
    case (Inl e)
    let ?w = "count record_persistence_error (call ?c w)"
    obtain k calls where r: "jw_log w' = (k, ?c) # calls @ jw_log ?w" "je_rows ev k = Inr rows"
      "\<forall>kc\<in>set calls. call_ok ev F h (snd kc) \<and> leaves_open ev kc \<and> (\<nexists>msg. too_large ev msg kc)"
      using Suc.IH [of ?w] Suc.prems Inl by (auto simp: update_hash_job_failure_def)
    have "call_ok ev F h ?c" "leaves_open ev (jw_calls w, ?c)" "\<nexists>msg. too_large ev msg (jw_calls w, ?c)"
      using Inl by (simp_all add: call_ok_def leaves_open_def too_large_def)
    then show ?thesis using r by (intro exI [of _ k] exI [of _ "calls @ [(jw_calls w, ?c)]"]) auto
  qed
qed simp

lemma filter_log:
  "filter_peers_for_retry ev h peers hours eligible next_at w = (r, w') \<Longrightarrow>
    goes_on ev F h w w' \<and> set (fst r) \<subseteq> set eligible \<union> set peers"
proof (induction ev h peers hours eligible next_at w rule: filter_peers_for_retry.induct)
  case (2 ev h peer peers hours eligible next_at w)
  let ?w = "call (PeerRetryEligibility h (je_addr_text ev (pc_addr peer)) hours) w"
  have "goes_on ev F h w u" if "jw_log u = jw_log ?w" for u
    by (rule goes_on_step [of _ "(jw_calls w, PeerRetryEligibility h (je_addr_text ev (pc_addr peer)) hours)"])
      (use that in \<open>simp_all add: call_ok_def leaves_open_def too_large_def\<close>)
  then have l: "goes_on ev F h w ?w" "goes_on ev F h w (tick (count record_persistence_error ?w))" by simp_all
  show ?case
  proof (cases "je_retry ev (jw_calls w)")
    case (Inl e)
    have "filter_peers_for_retry ev h peers hours eligible
        (earlier next_at (sat_add_i64 (je_now ev (jw_calls (count record_persistence_error ?w))) 300))
        (tick (count record_persistence_error ?w)) = (r, w')"
      using "2.prems" Inl by (simp add: Let_def)
    from "2.IH"(1) [OF refl refl Inl refl refl this] show ?thesis using goes_on_trans [OF l(2)] by auto
  next
    case (Inr a)
    show ?thesis
    proof (cases a)
      case Eligible
      then have "filter_peers_for_retry ev h peers hours (eligible @ [peer]) next_at ?w = (r, w')"
        using "2.prems" Inr by (simp add: Let_def)
      from "2.IH"(2) [OF refl refl Inr Eligible this] show ?thesis using goes_on_trans [OF l(1)] by auto
    next
      case (RetryAt t)
      then have "filter_peers_for_retry ev h peers hours eligible (earlier next_at t) ?w = (r, w')"
        using "2.prems" Inr by (simp add: Let_def)
      from "2.IH"(3) [OF refl refl Inr RetryAt this] show ?thesis using goes_on_trans [OF l(1)] by auto
    next
      case Rejected
      then have "filter_peers_for_retry ev h peers hours eligible next_at ?w = (r, w')"
        using "2.prems" Inr by (simp add: Let_def)
      from "2.IH"(4) [OF refl refl Inr Rejected this] show ?thesis using goes_on_trans [OF l(1)] by auto
    qed
  qed
qed auto

text \<open>Metadata with the right hash.\<close>

lemma accept_log:
  assumes "accept_metadata ev cfg h fuel bytes acc w = Some (x, w')" "F bytes" "je_sha1 ev bytes = h"
  shows "case x of Inl o' \<Rightarrow> closes ev F h (fc_prior_attempt_count cfg) o' w w' | Inr acc' \<Rightarrow> goes_on ev F h w w'"
proof (cases "parse_torrent_info (je_dec ev) bytes")
  case (Inl e)
  let ?status = "if sublist (str ''unsupported'') e then str ''unsupported'' else str ''invalid''"
  let ?n = "sat_add_u32 (fc_prior_attempt_count cfg) (ra_attempts acc)"
  obtain rows w1 where m: "mark_hash_job_failure ev h ?status ?n 0 e w = (rows, w1)"
    by (cases "mark_hash_job_failure ev h ?status ?n 0 e w")
  have r: "x = Inl (job_done h (ra_attempts acc) False True False)" "jw_log w' = jw_log w1"
    using assms(1) m unfolding accept_metadata_def Inl Let_def by (auto split: prod.splits)
  have "settles ev F h (fc_prior_attempt_count cfg) (job_done h (ra_attempts acc) False True False) []
      (jw_calls w, UpdateHashJobFailure h ?status ?n 0 e)"
    using assms(2,3) Inl by (auto simp: settles_def job_done_def)
  then show ?thesis unfolding r(1) sum.case
    by (intro closes_step) (use r(2) log_mark [OF m] in \<open>simp_all add: call_ok_def\<close>)
next
  case (Inr info)
  let ?c = "CommitMetadata h (ti_name info) (ti_piece_length info) (ti_total_size info) (ti_files info)"
  have c: "call_ok ev F h ?c" using assms(2,3) Inr by (auto simp: call_ok_def)
  show ?thesis
  proof (cases "je_commit ev (jw_calls w)")
    case ok: (Inr u)
    then have "x = Inl (job_done h (ra_attempts acc) True False False)" "jw_log w' = (jw_calls w, ?c) # jw_log w"
      using assms(1) unfolding accept_metadata_def Inr Let_def by auto
    then show ?thesis using c ok by (auto intro!: closes_step simp: settles_def job_done_def)
  next
    case fail: (Inl e)
    show ?thesis
    proof (cases "is_unsupported_search_document e")
      case False
      then have "\<exists>acc'. x = Inr acc'" "jw_log w' = (jw_calls w, ?c) # jw_log w"
        using assms(1) fail unfolding accept_metadata_def Inr Let_def by auto
      then show ?thesis using c fail False
        by (auto intro!: goes_on_step [of _ "(jw_calls w, ?c)"] simp: leaves_open_def too_large_def)
    next
      case True
      let ?n = "sat_add_u32 (fc_prior_attempt_count cfg) (ra_attempts acc)"
      let ?u = "UpdateHashJobFailure h (str ''unsupported'') ?n 0 (db_error_text e)"
      let ?o = "job_done h (ra_attempts acc) False True False"
      obtain rows w1 where a: "await_unsupported ev h ?n (db_error_text e) fuel (call ?c w) = Some (rows, w1)"
        using assms(1) fail True unfolding accept_metadata_def Inr Let_def by (auto split: option.splits)
      have r: "x = Inl ?o" "w' = record_retrieval_outcome rows RO_Unsupported w1"
        using assms(1) fail True a unfolding accept_metadata_def Inr Let_def by auto
      obtain k calls where k: "jw_log w1 = (k, ?u) # calls @ jw_log (call ?c w)" "je_rows ev k = Inr rows"
        "\<forall>kc\<in>set calls. call_ok ev F h (snd kc) \<and> leaves_open ev kc \<and> (\<nexists>msg. too_large ev msg kc)"
        using await_unsupported_log [OF a] by blast
      have t: "too_large ev (db_error_text e) (jw_calls w, ?c)" "leaves_open ev (jw_calls w, ?c)"
        using fail True by (simp_all add: too_large_def leaves_open_def)
      have "settles ev F h (fc_prior_attempt_count cfg) ?o (calls @ [(jw_calls w, ?c)]) (k, ?u)"
        using t(1) k(2) by (simp add: settles_def job_done_def)
      moreover have "call_ok ev F h ?u" by (simp add: call_ok_def)
      moreover have "jo_terminal ?o" by (simp add: job_done_def)
      ultimately show ?thesis unfolding r sum.case closes_def
        by (intro exI [of _ "(k, ?u)"] exI [of _ "calls @ [(jw_calls w, ?c)]"]) (use k c t in auto)
    qed
  qed
qed

definition fetched_from :: "fetch_fun \<Rightarrow> fetch_round_config \<Rightarrow> info_hash \<Rightarrow> peer_contact set \<Rightarrow> bytes \<Rightarrow> bool" where
  "fetched_from fetch cfg h peers bytes \<longleftrightarrow> (\<exists>k. \<exists>peer\<in>peers.
     fetch k h peer (fc_connect_timeout cfg) (fc_peer_timeout cfg) (fc_max_metadata_size cfg) = Some (Inr bytes))"

lemma attempts_go_on:
  "jw_log w' = (j, SetPeerAttempt h a g) # (k, SetPeerAttempt h a f) # jw_log w \<Longrightarrow> goes_on ev F h w w'"
  "jw_log w' = (k, SetPeerAttempt h a f) # jw_log w \<Longrightarrow> goes_on ev F h w w'"
proof -
  have s: "call_ok ev F h (SetPeerAttempt h a f)" "leaves_open ev (k, SetPeerAttempt h a f)"
    "\<not> too_large ev msg (k, SetPeerAttempt h a f)" for k f msg
    by (simp_all add: call_ok_def leaves_open_def too_large_def)
  show "goes_on ev F h w w'" if "jw_log w' = (k, SetPeerAttempt h a f) # jw_log w"
    by (rule goes_on_step [OF that]) (simp_all add: s)
  show "goes_on ev F h w w'" if "jw_log w' = (j, SetPeerAttempt h a g) # (k, SetPeerAttempt h a f) # jw_log w"
    unfolding goes_on_def
    by (rule exI [of _ "[(j, SetPeerAttempt h a g), (k, SetPeerAttempt h a f)]"]) (simp add: that s)
qed

lemma try_peer_log:
  assumes "try_peer ev fetch cfg h fuel peer acc w = Some (x, w')" "peer \<in> P"
  shows "case x of Inl o' \<Rightarrow> closes ev (fetched_from fetch cfg h P) h (fc_prior_attempt_count cfg) o' w w'
    | Inr acc' \<Rightarrow> goes_on ev (fetched_from fetch cfg h P) h w w'"
proof -
  let ?F = "fetched_from fetch cfg h P"
  let ?acc = "acc\<lparr>ra_attempts := sat_add_u32 (ra_attempts acc) 1\<rparr>" and ?a = "je_addr_text ev (pc_addr peer)"
  let ?w = "call (SetPeerAttempt h ?a None) w"
  have lw: "goes_on ev ?F h w ?w" by (rule attempts_go_on(2)) simp
  note u = assms(1) [unfolded try_peer_def Let_def set_peer_attempt_def [of ev h _ None] prod.case]
  show ?thesis
  proof (cases "je_attempt ev (jw_calls w)")
    case (Inl e)
    then have "\<exists>a. x = Inr a" "jw_log w' = (jw_calls w, SetPeerAttempt h ?a None) # jw_log w" using u by auto
    then show ?thesis by (auto intro: attempts_go_on(2))
  next
    case ok: (Inr u')
    let ?r = "fetch (jw_calls ?w) h peer (fc_connect_timeout cfg) (fc_peer_timeout cfg) (fc_max_metadata_size cfg)"
    note v = u [unfolded ok sum.case]
    obtain res where Some: "?r = Some res" using v by (cases ?r) simp_all
    show ?thesis
    proof (cases res)
      case (Inl e)
      then have "\<exists>a. x = Inr a" "jw_log w' = (jw_calls ?w, SetPeerAttempt h ?a (Some (fetch_error_text e))) # jw_log ?w"
        using v Some by auto
      then show ?thesis by (auto intro: attempts_go_on(1))
    next
      case (Inr bytes)
      show ?thesis
      proof (cases "verify_metadata_hash (je_sha1 ev) h bytes")
        case False
        then have "\<exists>a. x = Inr a"
          "jw_log w' = (jw_calls ?w, SetPeerAttempt h ?a (Some (str ''metadata hash mismatch''))) # jw_log ?w"
          using v Some Inr by auto
        then show ?thesis by (auto intro: attempts_go_on(1))
      next
        case True
        have a: "accept_metadata ev cfg h fuel bytes ?acc ?w = Some (x, w')" using v Some Inr True by simp
        have f: "?F bytes" using Some Inr assms(2) unfolding fetched_from_def by blast
        have "je_sha1 ev bytes = h" using True by (simp add: verify_metadata_hash_def)
        from accept_log [OF a, of ?F, OF f this]
        show ?thesis using goes_on_trans [OF lw] closes_after [OF lw] by (cases x) simp_all
      qed
    qed
  qed
qed

lemma try_peers_log:
  "try_peers ev fetch cfg h fuel peers acc w = Some (x, w') \<Longrightarrow> set peers \<subseteq> P \<Longrightarrow>
   (case x of Inl o' \<Rightarrow> closes ev (fetched_from fetch cfg h P) h (fc_prior_attempt_count cfg) o' w w'
    | Inr acc' \<Rightarrow> goes_on ev (fetched_from fetch cfg h P) h w w')"
proof (induction peers arbitrary: acc w)
  case (Cons peer peers)
  obtain y w1 where y: "try_peer ev fetch cfg h fuel peer acc w = Some (y, w1)"
    using Cons.prems(1) by (cases "try_peer ev fetch cfg h fuel peer acc w") auto
  note one = try_peer_log [OF y, of P]
  show ?case
  proof (cases y)
    case (Inl o1)
    then have "x = Inl o1" "w' = w1" using Cons.prems(1) y by simp_all
    then show ?thesis using one Cons.prems(2) Inl by simp
  next
    case (Inr acc1)
    then have l: "goes_on ev (fetched_from fetch cfg h P) h w w1" using one Cons.prems(2) by simp
    have "try_peers ev fetch cfg h fuel peers acc1 w1 = Some (x, w')" using Cons.prems(1) y Inr by simp
    note rest = Cons.IH [OF this]
    show ?thesis using rest Cons.prems(2) goes_on_trans [OF l] closes_after [OF l] by (cases x) auto
  qed
qed auto

lemma end_round_log:
  assumes "end_round ev cfg h next_at acc w = (outcome, w')"
  shows "closes ev F h (fc_prior_attempt_count cfg) outcome w w'"
proof -
  let ?n = "sat_add_u32 (fc_prior_attempt_count cfg) (ra_attempts acc)"
  let ?e = "next_peer_eligibility cfg (je_now ev (jw_calls w)) next_at acc"
  show ?thesis
  proof (cases "has_retryable_peer cfg ?e acc")
    case False
    obtain rows w1 where m: "mark_hash_job_failure ev h (str ''waiting_peers'') ?n 0 (ra_last_error acc) (tick w) = (rows, w1)"
      by (cases "mark_hash_job_failure ev h (str ''waiting_peers'') ?n 0 (ra_last_error acc) (tick w)")
    have "outcome = job_done h (ra_attempts acc) False False True" "jw_log w' = jw_log w1"
      using assms False m by (auto simp: end_round_def Let_def)
    then show ?thesis using log_mark [OF m] by (auto intro!: closes_step simp: call_ok_def settles_def job_done_def)
  next
    case True
    let ?b = "sat_add_i64 (je_now ev (jw_calls w)) (int (round_delay (ra_long_backoff acc) ?n (je_random ev (jw_calls (tick w)))))"
    let ?t = "case ?e of None \<Rightarrow> ?b | Some peer_retry_at \<Rightarrow> max ?b peer_retry_at"
    obtain rows w1 where m: "mark_hash_job_failure ev h (str ''retry_at'') ?n ?t (ra_last_error acc) (tick (tick w)) = (rows, w1)"
      by (cases "mark_hash_job_failure ev h (str ''retry_at'') ?n ?t (ra_last_error acc) (tick (tick w))")
    have "outcome = job_done h (ra_attempts acc) False False False" "jw_log w' = jw_log w1"
      using assms True m by (auto simp: end_round_def Let_def simp del: calls_simps)
    then show ?thesis using log_mark [OF m] by (auto intro!: closes_step simp: call_ok_def settles_def job_done_def)
  qed
qed

lemma round_log:
  assumes "process_hash_round_with_fetch ev fetch cfg h fuel peers w = Some (outcome, w')"
  shows "closes ev (fetched_from fetch cfg h (set peers)) h (fc_prior_attempt_count cfg) outcome w w'"
proof -
  let ?F = "fetched_from fetch cfg h (set peers)"
  obtain b w1 where b: "await_terminal ev h fuel w = Some (b, w1)"
    using assms by (auto simp: process_hash_round_with_fetch_def split: option.splits)
  note w1 = await_terminal_log [OF b, of ?F "fc_prior_attempt_count cfg"]
  show ?thesis
  proof (cases b)
    case True
    then have "outcome = job_done h 0 False True False" "w' = w1"
      using assms b by (auto simp: process_hash_round_with_fetch_def)
    then show ?thesis using w1 True by simp
  next
    case False
    let ?acc = "\<lparr>ra_attempts = 0, ra_last_error = str ''no eligible peers'', ra_long_backoff = False, ra_retryable = 0\<rparr>"
    obtain eligible next_at w2 where f: "filter_peers_for_retry ev h peers (fc_retry_after_hours cfg) [] None w1 =
        ((eligible, next_at), w2)"
      by (metis prod.exhaust)
    have l2: "goes_on ev ?F h w1 w2" and sub: "set eligible \<subseteq> set peers" using filter_log [OF f] by auto
    have l: "goes_on ev ?F h w w2" using goes_on_trans [OF _ l2] w1 False by simp
    obtain x w3 where x: "try_peers ev fetch cfg h fuel eligible ?acc w2 = Some (x, w3)"
      using assms b False f by (auto simp: process_hash_round_with_fetch_def split: option.splits)
    note t = try_peers_log [OF x sub]
    show ?thesis
    proof (cases x)
      case (Inl o1)
      then have "outcome = o1" "w' = w3" using assms b False f x by (auto simp: process_hash_round_with_fetch_def)
      then show ?thesis using t Inl closes_after [OF l] by simp
    next
      case (Inr acc)
      then have e: "end_round ev cfg h next_at acc w3 = (outcome, w')"
        using assms b False f x by (auto simp: process_hash_round_with_fetch_def)
      have "goes_on ev ?F h w w3" using t Inr goes_on_trans [OF l] by simp
      then show ?thesis by (rule closes_after [OF _ end_round_log [OF e]])
    qed
  qed
qed

subsection \<open>A round ends\<close>

text \<open>
  The store answers the question whether the job is terminal, and a status, after fewer than
  \<open>fuel\<close> failures in a row: the two loops of a round that would ask forever end.
\<close>

definition store_answers :: "nat \<Rightarrow> job_env \<Rightarrow> bool" where
  "store_answers fuel ev \<longleftrightarrow>
     (\<forall>k. \<exists>j<fuel. \<exists>b. je_terminal ev (k + j) = Inr b) \<and> (\<forall>k. \<exists>j<fuel. \<exists>rows. je_rows ev (k + j) = Inr rows)"

lemma await_terminal_ends:
  "\<exists>j<fuel. \<exists>b. je_terminal ev (jw_calls w + j) = Inr b \<Longrightarrow> await_terminal ev h fuel w \<noteq> None"
proof (induction fuel arbitrary: w)
  case (Suc fuel)
  show ?case
  proof (cases "je_terminal ev (jw_calls w)")
    case (Inl e)
    obtain j b where j: "j < Suc fuel" "je_terminal ev (jw_calls w + j) = Inr b" using Suc.prems by blast
    then obtain i where "j = Suc i" using Inl by (cases j) auto
    then have "\<exists>j<fuel. \<exists>b. je_terminal ev (jw_calls (count record_persistence_error (call (HashJobIsTerminal h) w)) + j) = Inr b"
      using j by auto
    from Suc.IH [OF this] show ?thesis using Inl by simp
  qed simp
qed simp

lemma await_unsupported_ends:
  "\<exists>j<fuel. \<exists>rows. je_rows ev (jw_calls w + j) = Inr rows \<Longrightarrow> await_unsupported ev h n msg fuel w \<noteq> None"
proof (induction fuel arbitrary: w)
  case (Suc fuel)
  show ?case
  proof (cases "je_rows ev (jw_calls w)")
    case (Inl e)
    obtain j b where j: "j < Suc fuel" "je_rows ev (jw_calls w + j) = Inr b" using Suc.prems by blast
    then obtain i where "j = Suc i" using Inl by (cases j) auto
    then have "\<exists>j<fuel. \<exists>rows. je_rows ev (jw_calls (count record_persistence_error
        (call (UpdateHashJobFailure h (str ''unsupported'') n 0 msg) w)) + j) = Inr rows"
      using j by auto
    from Suc.IH [OF this] show ?thesis using Inl by (simp add: update_hash_job_failure_def)
  qed (simp add: update_hash_job_failure_def)
qed simp

lemma accept_ends:
  assumes "store_answers fuel ev"
  shows "accept_metadata ev cfg h fuel bytes acc w \<noteq> None"
proof (cases "parse_torrent_info (je_dec ev) bytes")
  case (Inr info)
  let ?w = "call (CommitMetadata h (ti_name info) (ti_piece_length info) (ti_total_size info) (ti_files info)) w"
  show ?thesis
  proof (cases "je_commit ev (jw_calls w)")
    case (Inl e)
    have "await_unsupported ev h (sat_add_u32 (fc_prior_attempt_count cfg) (ra_attempts acc)) (db_error_text e) fuel ?w \<noteq> None"
      by (rule await_unsupported_ends) (use assms in \<open>unfold store_answers_def, blast\<close>)
    then obtain rows w1 where "await_unsupported ev h (sat_add_u32 (fc_prior_attempt_count cfg) (ra_attempts acc))
        (db_error_text e) fuel ?w = Some (rows, w1)" by auto
    then show ?thesis unfolding accept_metadata_def Let_def Inr Inl sum.case by simp
  qed (simp add: accept_metadata_def Let_def Inr)
qed (simp add: accept_metadata_def Let_def split: prod.split)

lemma try_peers_end:
  assumes "store_answers fuel ev"
    and "\<forall>k. \<forall>peer\<in>set peers. fetch k h peer (fc_connect_timeout cfg) (fc_peer_timeout cfg) (fc_max_metadata_size cfg) \<noteq> None"
  shows "try_peers ev fetch cfg h fuel peers acc w \<noteq> None"
  using assms(2)
proof (induction peers arbitrary: acc w)
  case (Cons peer peers)
  have "try_peer ev fetch cfg h fuel peer acc w \<noteq> None"
  proof -
    let ?w = "call (SetPeerAttempt h (je_addr_text ev (pc_addr peer)) None) w"
    obtain res where "fetch (jw_calls ?w) h peer (fc_connect_timeout cfg) (fc_peer_timeout cfg) (fc_max_metadata_size cfg) = Some res"
      using Cons.prems by fastforce
    then show ?thesis using accept_ends [OF assms(1)]
      unfolding try_peer_def Let_def set_peer_attempt_def [of ev h _ None] prod.case
      by (simp split: sum.split)
  qed
  then show ?case using Cons by (auto split: option.split sum.split)
qed simp

lemma round_ends:
  assumes "store_answers fuel ev"
    and "\<forall>k. \<forall>peer\<in>set peers. fetch k h peer (fc_connect_timeout cfg) (fc_peer_timeout cfg) (fc_max_metadata_size cfg) \<noteq> None"
  shows "process_hash_round_with_fetch ev fetch cfg h fuel peers w \<noteq> None"
proof -
  have "await_terminal ev h fuel w \<noteq> None"
    by (rule await_terminal_ends) (use assms(1) in \<open>simp add: store_answers_def\<close>)
  then obtain b w1 where b: "await_terminal ev h fuel w = Some (b, w1)" by auto
  obtain eligible next_at w2 where f: "filter_peers_for_retry ev h peers (fc_retry_after_hours cfg) [] None w1 =
      ((eligible, next_at), w2)"
    by (metis prod.exhaust)
  have "set eligible \<subseteq> set peers" using filter_log [OF f] by auto
  then have t: "try_peers ev fetch cfg h fuel eligible acc w2 \<noteq> None" for acc
    by (intro try_peers_end [OF assms(1)]) (use assms(2) in blast)
  obtain x w3 where "try_peers ev fetch cfg h fuel eligible \<lparr>ra_attempts = 0, ra_last_error = str ''no eligible peers'',
      ra_long_backoff = False, ra_retryable = 0\<rparr> w2 = Some (x, w3)"
    using t by fastforce
  then show ?thesis using b f
    by (cases b; cases x) (simp_all add: process_hash_round_with_fetch_def)
qed

text \<open>A peer that ends: what it sends is shorter than the fuel, or its clock advances.\<close>

definition peer_ends :: "nat \<Rightarrow> duration \<Rightarrow> peer_env \<times> bytes \<Rightarrow> bool" where
  "peer_ends fuel d conn \<longleftrightarrow> (case conn of (ev, stream) \<Rightarrow> (\<forall>v. pe_enc ev v \<noteq> None) \<and>
     (length stream < fuel \<or> (\<forall>k. pe_clock ev k < pe_clock ev (Suc k)) \<and> d * 2 < fuel))"

lemma fetch_ends:
  assumes "peer_ends fuel d (dial peer)"
  shows "fetch_from_peer_with_limit dial h peer connect_timeout d limit fuel \<noteq> None"
proof -
  obtain ev stream where p: "dial peer = (ev, stream)" by fastforce
  let ?c = "\<lparr>pc_in = stream, pc_ops = 0, pc_written = []\<rparr>"
  have "fetch_from_stream_with_limit ev h d limit fuel c \<noteq> None" if "pc_in c = stream" for c
    using fetch_done [of ev c fuel d h limit] assms that by (auto simp: peer_ends_def p ended_def advancing_def)
  then have "fetch_with_connection ev h connect_timeout d limit fuel ?c \<noteq> None"
    by (simp add: fetch_with_connection_def and_then_def connect_timeout_io_def Let_def split: io_outcome.split)
  then show ?thesis by (simp add: fetch_from_peer_with_limit_def p)
qed

end
