(* ===== verification/Scheduler_Properties.thy ===== *)
theory Scheduler_Properties
  imports Scheduler_Invariant Metadata_Properties Metadata_Rounds
begin

text \<open>
  The properties of the metadata jobs: what a round writes to the store, and what the
  scheduler keeps over every sequence of events.
\<close>

subsection \<open>What the jobs promise\<close>

text \<open>
  C10: a round ends, when the store and the peers answer within the fuel, and commits only
  metadata it fetched from one of the job's peers, whose SHA-1 is the hash of the job, exactly
  as it is read; it writes about no other hash. Its last call of the store and the answer to
  it decide the outcome (\<open>settles\<close>): terminal without an attempt only if the store said so,
  complete only if the store accepted the commit, else a status with the count of the attempts
  is the last write, for the reason and with the status that go with terminal, parked or retry.
  The calls before it left the job open; after a commit refused as too large the round ends
  only when the store has accepted the status. The other statuses are written once: should the
  store refuse one, the outcome is the same.
\<close>

theorem round_commits_verified_metadata:
  assumes "store_answers fuel ev" "\<forall>k. \<forall>peer\<in>set peers. peer_ends fuel (fc_peer_timeout cfg) (dial k peer)"
  shows "\<exists>outcome w' kc calls. process_hash_round ev dial cfg h fuel peers w = Some (outcome, w') \<and>
    jo_info_hash outcome = h \<and> jw_log w' = kc # calls @ jw_log w \<and>
    (let fetched = fetched_from (\<lambda>k hash peer connect_timeout peer_timeout limit.
           fetch_from_peer_with_limit (dial k) hash peer connect_timeout peer_timeout limit fuel) cfg h (set peers)
     in (\<forall>kc'\<in>set (kc # calls). call_ok ev fetched h (snd kc')) \<and> (\<forall>kc'\<in>set calls. leaves_open ev kc') \<and>
        settles ev fetched h (fc_prior_attempt_count cfg) outcome calls kc \<and>
        ((\<exists>kc'\<in>set calls. \<exists>msg. too_large ev msg kc') \<longrightarrow> jo_terminal outcome \<and> (\<exists>rows. je_rows ev (fst kc) = Inr rows)))"
proof -
  let ?fetch = "\<lambda>k hash peer connect_timeout peer_timeout limit.
    fetch_from_peer_with_limit (dial k) hash peer connect_timeout peer_timeout limit fuel"
  have "process_hash_round_with_fetch ev ?fetch cfg h fuel peers w \<noteq> None"
    by (rule round_ends [OF assms(1)]) (use assms(2) fetch_ends in blast)
  then obtain outcome w' where r: "process_hash_round_with_fetch ev ?fetch cfg h fuel peers w = Some (outcome, w')"
    by auto
  from round_log [OF r] round_hash [OF r] r show ?thesis
    unfolding closes_def process_hash_round_def Let_def by (metis set_ConsD)
qed

text \<open>A store that answers everything, and a peer that has the metadata.\<close>

definition ex_job_env :: "peer_retry_eligibility \<Rightarrow> job_env" where
  "ex_job_env eligibility =
     \<lparr>je_terminal = \<lambda>k. Inr False, je_retry = \<lambda>k. Inr eligibility, je_attempt = \<lambda>k. Inr (), je_commit = \<lambda>k. Inr (),
      je_rows = \<lambda>k. Inr 1,
      je_persist = \<lambda>k. Inr \<lparr>dp_torrent_inserted = True, dp_hash_job_created = True, dp_peerless_job_skipped = False,
        dp_peers_inserted = 1, dp_peers_updated = 0, dp_peers_deleted = 0\<rparr>,
      je_due = \<lambda>k. Inr [], je_job_peers = \<lambda>k. Inr [], je_now = \<lambda>k. 1000, je_random = \<lambda>k. 0, je_stats_ok = \<lambda>k. True,
      je_addr_text = \<lambda>a. str ''peer'', je_sha1 = \<lambda>bs. replicate 20 1, je_dec = \<lambda>bs. Inr (BDict ex_info)\<rparr>"

definition ex_peer :: "u8 \<Rightarrow> peer_contact" where
  "ex_peer n = \<lparr>pc_addr = SocketAddrV4 (Ipv4Addr 1 2 3 n) 6881\<rparr>"

definition ex_round_config :: fetch_round_config where
  "ex_round_config = \<lparr>fc_connect_timeout = 5, fc_peer_timeout = 10, fc_retry_after_hours = 6,
     fc_max_metadata_size = 100, fc_prior_attempt_count = 0\<rparr>"

definition ex_world :: job_world where
  "ex_world = \<lparr>jw_calls = 0, jw_log = [], jw_stats = [], jw_metrics = \<lparr>cm_process_started_unix = 0, cm_counters = \<lambda>c. 0\<rparr>\<rparr>"

text \<open>
  A store that answers, once in a while, and refuses the commit: the search document of the
  metadata is too large.
\<close>

definition ex_refusing_env :: job_env where
  "ex_refusing_env = (ex_job_env Eligible)\<lparr>je_terminal := \<lambda>k. if k = 0 then Inl (OtherError []) else Inr False,
     je_commit := \<lambda>k. Inl (TooLargeDocument (str ''large''))\<rparr>"

text \<open>A peer that closes the connection at once.\<close>

lemma round_commits_verified_metadata_witness:
  "\<exists>outcome w' kc calls. process_hash_round ex_refusing_env (\<lambda>k p. (ex_peer_env, [])) ex_round_config
      (replicate 20 1) 2 [ex_peer 4] ex_world = Some (outcome, w') \<and>
    jw_log w' = kc # calls \<and> (\<forall>kc'\<in>set calls. leaves_open ex_refusing_env kc') \<and> jo_info_hash outcome = replicate 20 1"
proof -
  have "store_answers 2 ex_refusing_env"
    unfolding store_answers_def ex_refusing_env_def ex_job_env_def
    by (auto intro: exI [of _ "1 :: nat"] exI [of _ "0 :: nat"])
  moreover have "peer_ends 2 d (ex_peer_env, [])" for d by (simp add: peer_ends_def ex_peer_env_def)
  ultimately show ?thesis
    using round_commits_verified_metadata [of 2 ex_refusing_env "[ex_peer 4]" ex_round_config "\<lambda>k p. (ex_peer_env, [])"
        "replicate 20 1" ex_world]
    unfolding Let_def by (auto simp: ex_world_def)
qed

text \<open>
  A round on an answering peer: refused as too large, the job is terminal, the status written
  with the text of the refusal; with a store that accepts, it is complete.
\<close>

lemma ex_rounds:
  "\<exists>w'. process_hash_round_with_fetch (ex_job_env Eligible) (\<lambda>k h p c t l. Some (Inr [])) ex_round_config
     (replicate 20 1) 1 [ex_peer 4] ex_world = Some (job_done (replicate 20 1) 1 True False False, w')"
  "\<exists>w'. process_hash_round_with_fetch ex_refusing_env (\<lambda>k h p c t l. Some (Inr [])) ex_round_config
     (replicate 20 1) (Suc (Suc 0)) [ex_peer 4] ex_world = Some (job_done (replicate 20 1) 1 False True False, w') \<and>
     snd (hd (jw_log w')) = UpdateHashJobFailure (replicate 20 1) (str ''unsupported'') 1 0 (str ''large'')"
proof -
  have i: "parse_torrent_info (\<lambda>bs. Inr (BDict ex_info)) [] = Inr \<lparr>ti_name = str ''n'', ti_piece_length = 16384,
     ti_total_size = 10, ti_file_count = 2,
     ti_files = [(join_slash [str ''a'', str ''b''], 5), (join_slash [str ''a'', str ''b''], 5)]\<rparr>"
    by (rule ex_info_parsed)
  show "\<exists>w'. process_hash_round_with_fetch (ex_job_env Eligible) (\<lambda>k h p c t l. Some (Inr [])) ex_round_config
     (replicate 20 1) 1 [ex_peer 4] ex_world = Some (job_done (replicate 20 1) 1 True False False, w')"
    using i by (simp add: process_hash_round_with_fetch_def ex_job_env_def try_peer_def set_peer_attempt_def
        verify_metadata_hash_def accept_metadata_def Let_def sat_add_u32_def del: join_slash.simps)
  show "\<exists>w'. process_hash_round_with_fetch ex_refusing_env (\<lambda>k h p c t l. Some (Inr [])) ex_round_config
     (replicate 20 1) (Suc (Suc 0)) [ex_peer 4] ex_world = Some (job_done (replicate 20 1) 1 False True False, w') \<and>
     snd (hd (jw_log w')) = UpdateHashJobFailure (replicate 20 1) (str ''unsupported'') 1 0 (str ''large'')"
    using i by (simp add: process_hash_round_with_fetch_def ex_job_env_def ex_refusing_env_def try_peer_def set_peer_attempt_def
        verify_metadata_hash_def accept_metadata_def Let_def sat_add_u32_def update_hash_job_failure_def
        ex_world_def ex_round_config_def del: join_slash.simps)
qed

text \<open>
  C9: the scheduler keeps its accounts.  For any discoveries, ticks, finished and
  panicked workers in any order, and a store that answers a discovery after finitely many
  failures, the loop goes on and after every event: the queue of ready hashes has no repetition
  and holds exactly the jobs that are not running, each of them with peers to try; every worker
  has a running job of its own and a non-empty round within its limit; no more jobs, peers and
  workers than configured; and either all workers are busy or no job is ready.
\<close>

theorem fetcher_run_safe:
  assumes "0 < ff_max_peer_attempts_per_round cfg" "answers_within fuel ev"
  shows "\<exists>s. fold_opt (fetcher_step ev dial cfg fuel) es (new_fetcher metrics) = Some s \<and>
    sched_ok cfg (jt_ready (mf_table s)) (jt_ready_set (mf_table s)) (jt_jobs (mf_table s)) (mf_workers s) \<and>
    (length (mf_workers s) = ff_max_concurrent cfg \<or> jt_ready (mf_table s) = [])"
  using fetcher_run [OF assms] by (simp add: fetcher_ok_def)

definition ex_fetcher_config :: fetcher_config where
  "ex_fetcher_config = \<lparr>ff_max_concurrent = 1, ff_connect_timeout = 5, ff_peer_timeout = 10, ff_retry_after_hours = 6,
     ff_max_metadata_size = 100, ff_max_peer_attempts_per_round = 2, ff_max_active_hash_jobs = 3, ff_max_peers_per_hash = 4\<rparr>"

definition ex_discovery :: "u8 \<Rightarrow> hash_discovery" where
  "ex_discovery n = \<lparr>hd_info_hash = replicate 20 1, hd_peers = [ex_peer n], hd_source = AnnouncePeer\<rparr>"

lemma ex_answers: "answers_within 1 (ex_job_env e)"
  by (simp add: answers_within_def ex_job_env_def)

lemma fetcher_run_safe_witness:
  "\<exists>s. fold_opt (fetcher_step (ex_job_env Rejected) (\<lambda>k p. (ex_peer_env, [])) ex_fetcher_config 1)
      [Discovered (ex_discovery 4), Discovered (ex_discovery 5), StatusTick, Joined 0, RetryTick] (new_fetcher (jw_metrics ex_world)) = Some s \<and>
    (length (mf_workers s) = 1 \<or> jt_ready (mf_table s) = [])"
  using fetcher_run_safe [of ex_fetcher_config 1 "ex_job_env Rejected" "\<lambda>k p. (ex_peer_env, [])"
      "[Discovered (ex_discovery 4), Discovered (ex_discovery 5), StatusTick, Joined 0, RetryTick]" "jw_metrics ex_world"] ex_answers
  by (fastforce simp: ex_fetcher_config_def)

text \<open>
  C30: a panic of a worker costs its job.  Nothing clears the running mark of a job whose worker
  panicked: from then on, whatever happens, the job keeps its place in the table, is never
  ready and never has a worker again, although new peers are still accepted for it.
\<close>

theorem panicked_job_is_stuck:
  assumes "0 < ff_max_peer_attempts_per_round cfg" "answers_within fuel ev" "fetcher_ok cfg s" "i < length (mf_workers s)"
  shows "\<exists>s'. fold_opt (fetcher_step ev dial cfg fuel) (Panicked i # es) s = Some s' \<and>
    stuck (wk_info_hash (mf_workers s ! i)) s' \<and> wk_info_hash (mf_workers s ! i) \<notin> jt_ready_set (mf_table s')"
proof -
  obtain s1 where s1: "fetcher_step ev dial cfg fuel (Panicked i) s = Some s1" "fetcher_ok cfg s1"
    using step_keeps [OF assms(1-3), of dial "Panicked i"] by (auto simp: ensures_iff)
  have "stuck (wk_info_hash (mf_workers s ! i)) s1" by (rule panic_stuck [OF assms(3,4,1) s1(1)])
  then obtain s2 where s2: "fold_opt (fetcher_step ev dial cfg fuel) es s1 = Some s2"
      "stuck (wk_info_hash (mf_workers s ! i)) s2" "fetcher_ok cfg s2"
    using stuck_run [OF assms(1,2) s1(2)] by blast
  then have "wk_info_hash (mf_workers s ! i) \<notin> jt_ready_set (mf_table s2)"
    by (auto simp: fetcher_ok_def sched_ok_def stuck_def)
  then show ?thesis using s1(1) s2 by (simp del: fetcher_step.simps)
qed

text \<open>The state after one discovery: its job has a worker.\<close>

definition ex_running :: fetcher where
  "ex_running = the (fetcher_step (ex_job_env Rejected) (\<lambda>k p. (ex_peer_env, [])) ex_fetcher_config 1
     (Discovered (ex_discovery 4)) (new_fetcher (jw_metrics ex_world)))"

lemma ex_running_state:
  "mf_workers ex_running = [\<lparr>wk_info_hash = replicate 20 1, wk_peers = [ex_peer 4], wk_prior_attempts = 0\<rparr>]"
  "jt_jobs (mf_table ex_running) = fmupd (replicate 20 1)
     \<lparr>hj_peers = [], hj_peer_set = {}, hj_running = True, hj_attempt_count = 0\<rparr>
     (fmupd (replicate 20 1) \<lparr>hj_peers = [ex_peer 4], hj_peer_set = {pc_addr (ex_peer 4)}, hj_running = False, hj_attempt_count = 0\<rparr> fmempty)"
  by (simp_all add: ex_running_def on_discovery_def ex_job_env_def ex_discovery_def new_fetcher_def ex_fetcher_config_def
      admit_job_peers_def merge_peers_def new_hash_job_def Let_def prioritize_ready_job_def dispatch_def
      dispatch_loop.simps start_job_def take_round_result fcard_fempty)

lemma ex_running_ok: "fetcher_ok ex_fetcher_config ex_running"
proof -
  have "0 < ff_max_peer_attempts_per_round ex_fetcher_config" by (simp add: ex_fetcher_config_def)
  from step_keeps [OF this ex_answers, of "new_fetcher (jw_metrics ex_world)" Rejected "\<lambda>k p. (ex_peer_env, [])" "Discovered (ex_discovery 4)"]
  show ?thesis
    unfolding ex_running_def
    by (auto simp: ensures_iff fetcher_ok_def new_fetcher_def sched_ok_def fcard_fempty simp del: fetcher_step.simps)
qed

lemma panicked_job_is_stuck_witness:
  "\<exists>s'. fold_opt (fetcher_step (ex_job_env Rejected) (\<lambda>k p. (ex_peer_env, [])) ex_fetcher_config 1)
      [Panicked 0, Discovered (ex_discovery 5), RetryTick] ex_running = Some s' \<and> stuck (replicate 20 1) s'"
proof -
  have "0 < ff_max_peer_attempts_per_round ex_fetcher_config" by (simp add: ex_fetcher_config_def)
  from panicked_job_is_stuck [OF this ex_answers ex_running_ok, of 0 Rejected "\<lambda>k p. (ex_peer_env, [])" "[Discovered (ex_discovery 5), RetryTick]"]
  show ?thesis by (auto simp: ex_running_state(1))
qed

text \<open>
  A peer that arrives during the last round of its job is forgotten: the discovery is written
  and merged into the running job, then the round, whose own peers are all rejected, parks the
  job in the store and the scheduler drops it with the new peer.
\<close>

lemma drop_only: "fmdrop k (fmupd k v fmempty) = fmempty"
  by (rule fmap_ext) simp

lemma late_peer_is_forgotten:
  "\<exists>s. fold_opt (fetcher_step (ex_job_env Rejected) (\<lambda>k p. (ex_peer_env, [])) ex_fetcher_config 1)
      [Discovered (ex_discovery 4), Discovered (ex_discovery 5), Joined 0] (new_fetcher (jw_metrics ex_world)) = Some s \<and>
    jt_jobs (mf_table s) = fmempty \<and> mf_workers s = [] \<and>
    map snd (jw_log (mf_world s)) = [UpdateHashJobFailure (replicate 20 1) (str ''waiting_peers'') 0 0 (str ''no eligible peers''),
      PeerRetryEligibility (replicate 20 1) (str ''peer'') 6, HashJobIsTerminal (replicate 20 1),
      PersistHashDiscovery (replicate 20 1) (str ''announce_peer'') [ex_peer 5] 4,
      PersistHashDiscovery (replicate 20 1) (str ''announce_peer'') [ex_peer 4] 4]"
  by (simp add: on_discovery_def ex_job_env_def ex_discovery_def new_fetcher_def ex_fetcher_config_def
      admit_job_peers_def merge_peers_def new_hash_job_def Let_def prioritize_ready_job_def dispatch_def
      dispatch_loop.simps start_job_def take_round_result fcard_fempty on_joined_def process_hash_round_def
      process_hash_round_with_fetch_def end_round_def next_peer_eligibility_def has_retryable_peer_def
      mark_hash_job_failure_def update_hash_job_failure_def round_config_def without_worker_def
      apply_job_outcome_def job_done_def sat_add_u32_def ex_peer_def drop_only)

end
