(* ===== verification/Config_Properties.thy ===== *)
theory Config_Properties
  imports Config Scheduler_Properties
begin

text \<open>
  What a validated configuration guarantees, and that the fetcher runs safely under it.
\<close>

definition sizes_in_range :: "config \<Rightarrow> bool" where
  "sizes_in_range c \<longleftrightarrow>
     unat (bc_pool_size (cfg_database c)) \<in> {1..64} \<and>
     unat (bc_web_pool_size (cfg_database c)) \<in> {1..64} \<and>
     mc_max_concurrent (cfg_metadata c) \<in> {1..4096} \<and>
     mc_max_peers_per_hash (cfg_metadata c) \<in> {1..4096} \<and>
     mc_max_active_hash_jobs (cfg_metadata c) \<in> {1..1000000} \<and>
     mc_max_peer_attempts_per_round (cfg_metadata c) \<in> {1..mc_max_peers_per_hash (cfg_metadata c)} \<and>
     cc_info_hash_channel_capacity (cfg_crawl c) \<in> {1..1000000} \<and>
     cc_stats_channel_capacity (cfg_crawl c) \<in> {1..1000000} \<and>
     cc_max_discovery_hashes (cfg_crawl c) \<in> {1..10000000} \<and>
     cc_max_pending_rpcs (cfg_crawl c) \<in> {1..65535} \<and>
     cc_max_candidate_nodes (cfg_crawl c) \<in> {8..1000000} \<and>
     cc_sampling_requests_per_tick (cfg_crawl c) \<in> {1..256} \<and>
     cc_max_samples_per_response (cfg_crawl c) \<in> {1..4096} \<and>
     cc_announced_peer_hash_capacity (cfg_crawl c) \<in> {1..1000000} \<and>
     cc_announced_peers_per_hash (cfg_crawl c) \<in> {1..4096} \<and>
     bc_batch_size (cfg_database c) \<in> {1..10000} \<and>
     unat (mc_max_metadata_size_bytes (cfg_metadata c)) \<in> {16 * 1024..64 * 1024 * 1024}"

definition times_in_range :: "config \<Rightarrow> bool" where
  "times_in_range c \<longleftrightarrow>
     unat (mc_connect_timeout_secs (cfg_metadata c)) \<in> {1..600} \<and>
     unat (mc_peer_timeout_secs (cfg_metadata c)) \<in> {1..600} \<and>
     unat (cc_get_peers_interval_secs (cfg_crawl c)) \<in> {1..3600} \<and>
     unat (cc_bucket_refresh_mins (cfg_crawl c)) \<in> {1..1440} \<and>
     unat (cc_rpc_timeout_secs (cfg_crawl c)) \<in> {1..600} \<and>
     unat (cc_sampling_interval_secs (cfg_crawl c)) \<in> {1..3600} \<and>
     unat (cc_sampling_min_remote_interval_secs (cfg_crawl c)) \<in> {1..86400} \<and>
     unat (cc_shutdown_drain_secs (cfg_crawl c)) \<in> {1..300} \<and>
     unat (bc_flush_interval_ms (cfg_database c)) \<in> {1..60000} \<and>
     unat (cc_announced_peer_ttl_secs (cfg_crawl c)) \<in> {1..86400}"

lemma first_error_ok: "first_error checks = Inr () \<longleftrightarrow> list_all (\<lambda>x. x = Inr ()) checks"
  by (induction checks rule: first_error.induct) auto

lemma range_ok: "validate_range name v lo hi = Inr () \<longleftrightarrow> v \<in> {lo..hi}"
  by (simp add: validate_range_def)

lemma u64_range_ok: "validate_u64_range name v lo hi = Inr () \<longleftrightarrow> unat v \<in> {unat lo..unat hi}"
  by (simp add: validate_u64_range_def word_le_nat_alt)

lemma if_ok: "(if b then Inl e else Inr ()) = Inr () \<longleftrightarrow> \<not> b" "(if b then Inr () else Inl e) = Inr () \<longleftrightarrow> b"
  by auto

lemma ok_or_ok: "ok_or e x = Inr () \<longleftrightarrow> x \<noteq> None"
  by (simp add: ok_or_def split: option.split)

lemma u64_limits:
  "unat (1 :: u64) = 1" "unat (300 :: u64) = 300" "unat (600 :: u64) = 600" "unat (1440 :: u64) = 1440"
  "unat (3600 :: u64) = 3600" "unat (60000 :: u64) = 60000" "unat (86400 :: u64) = 86400"
  by simp_all

text \<open>The products of the last three checks cannot overflow.\<close>

lemma hours_fit: "checked_mul_u64 (ucast (h :: u32)) 3600 \<noteq> None"
proof -
  have "unat (ucast h :: u64) = unat h" using unat_lt2p_nat [of h] by (simp add: unsigned_ucast_eq take_bit_nat_eq_self)
  then have "unat (ucast h :: u64) < 2 ^ 32" using unat_lt2p_nat [of h] by simp
  then show ?thesis by (simp add: checked_mul_u64_def)
qed

lemma minutes_fit: "unat m \<le> 1440 \<Longrightarrow> checked_mul_u64 m 60 \<noteq> None"
  by (simp add: checked_mul_u64_def)

lemma validate_ok:
  "validate_config c = Inr () \<longleftrightarrow> bc_path (cfg_database c) = None \<and> sizes_in_range c \<and> times_in_range c"
proof -
  have size: "16384 \<le> n \<and> n \<le> 67108864 \<longleftrightarrow> unat n \<in> {16 * 1024..64 * 1024 * 1024}" for n :: u32
    by (simp add: word_le_nat_alt)
  have "validate_config c = Inr () \<longleftrightarrow> bc_path (cfg_database c) = None \<and> sizes_in_range c \<and> times_in_range c \<and>
      checked_mul_u64 (cc_bucket_refresh_mins (cfg_crawl c)) 60 \<noteq> None"
    unfolding validate_config_def first_error_ok sizes_in_range_def times_in_range_def
    by (simp only: list.pred_inject if_ok range_ok u64_range_ok ok_or_ok hours_fit size not_not simp_thms)
      (simp only: conj_ac u64_limits)
  moreover have "times_in_range c \<Longrightarrow> checked_mul_u64 (cc_bucket_refresh_mins (cfg_crawl c)) 60 \<noteq> None"
    by (rule minutes_fit) (simp add: times_in_range_def)
  ultimately show ?thesis by blast
qed

lemma default_validates: "validate_config default_config = Inr ()"
proof -
  have "sizes_in_range default_config" "times_in_range default_config" "bc_path (cfg_database default_config) = None"
    by (simp_all add: sizes_in_range_def times_in_range_def default_config_def default_metadata_config_def
        default_database_config_def default_crawl_config_def default_pool_size_def default_web_pool_size_def
        default_max_concurrent_def default_max_peers_per_hash_def default_max_active_hash_jobs_def
        default_max_peer_attempts_per_round_def default_info_hash_channel_capacity_def
        default_stats_channel_capacity_def default_max_discovery_hashes_def default_max_pending_rpcs_def
        default_max_candidate_nodes_def default_sampling_requests_per_tick_def default_max_samples_per_response_def
        default_announced_peer_hash_capacity_def default_announced_peers_per_hash_def default_database_batch_size_def
        default_max_metadata_size_bytes_def default_connect_timeout_secs_def default_peer_timeout_secs_def
        default_get_peers_interval_secs_def default_bucket_refresh_mins_def default_rpc_timeout_secs_def
        default_sampling_interval_secs_def default_sampling_min_remote_interval_secs_def default_shutdown_drain_secs_def
        default_database_flush_interval_ms_def default_announced_peer_ttl_secs_def)
  then show ?thesis by (simp add: validate_ok)
qed

text \<open>
  C32: validation accepts exactly the configurations whose every size and time is in its range
  and that name no database path, whatever the order of the checks; the defaults are accepted,
  and the checks for overflow behind the ranges never fire.
\<close>

theorem validation_is_exact:
  "(validate_config c = Inr () \<longleftrightarrow> bc_path (cfg_database c) = None \<and> sizes_in_range c \<and> times_in_range c) \<and>
   validate_config default_config = Inr ()"
  using validate_ok default_validates by blast

text \<open>
  C31: under a validated configuration, with or without a number of workers from the command
  line, the metadata fetcher runs safely on every sequence of events: it is refused only for a
  number out of range, it keeps the invariant of its scheduler within the configured bounds,
  and whenever a job is ready some worker is busy.
\<close>

theorem validated_fetcher_runs:
  assumes "validate_config c = Inr ()" "fetcher_config_of chosen c = Some cfg" "answers_within fuel ev"
  shows "(\<exists>s. fold_opt (fetcher_step ev dial cfg fuel) es (new_fetcher metrics) = Some s \<and>
      sched_ok cfg (jt_ready (mf_table s)) (jt_ready_set (mf_table s)) (jt_jobs (mf_table s)) (mf_workers s) \<and>
      fcard (fmdom (jt_jobs (mf_table s))) \<le> 1000000 \<and> length (mf_workers s) \<le> 4096 \<and>
      (mf_workers s \<noteq> [] \<or> jt_ready (mf_table s) = [])) \<and>
    fetcher_config_of None c \<noteq> None"
proof -
  have ok: "sizes_in_range c" using assms(1) by (simp add: validate_ok)
  have cfg: "0 < ff_max_peer_attempts_per_round cfg" "0 < ff_max_concurrent cfg" "ff_max_concurrent cfg \<le> 4096"
    "ff_max_active_hash_jobs cfg \<le> 1000000"
    using assms(2) ok by (auto simp: fetcher_config_of_def sizes_in_range_def Let_def split: if_splits)
  obtain s where s: "fold_opt (fetcher_step ev dial cfg fuel) es (new_fetcher metrics) = Some s" "fetcher_ok cfg s"
    using fetcher_run [OF cfg(1) assms(3)] by blast
  have "mf_workers s \<noteq> [] \<or> jt_ready (mf_table s) = []" using s(2) cfg(2) by (auto simp: fetcher_ok_def)
  moreover have "fcard (fmdom (jt_jobs (mf_table s))) \<le> 1000000" "length (mf_workers s) \<le> 4096"
    using s(2) cfg(3,4) by (simp_all add: fetcher_ok_def sched_ok_def)
  moreover have "fetcher_config_of None c \<noteq> None"
    using ok by (simp add: fetcher_config_of_def sizes_in_range_def)
  ultimately show ?thesis using s by (auto simp: fetcher_ok_def)
qed

lemma validated_fetcher_runs_witness:
  "\<exists>cfg s. fetcher_config_of (Some 3) default_config = Some cfg \<and>
     fold_opt (fetcher_step (ex_job_env Rejected) (\<lambda>k p. (ex_peer_env, [])) cfg 1)
       [Discovered (ex_discovery 4), Joined 0, StatusTick] (new_fetcher (jw_metrics ex_world)) = Some s \<and>
     (mf_workers s \<noteq> [] \<or> jt_ready (mf_table s) = [])"
proof -
  obtain cfg where cfg: "fetcher_config_of (Some 3) default_config = Some cfg" by (simp add: fetcher_config_of_def)
  have "validate_config default_config = Inr ()" by (rule default_validates)
  from validated_fetcher_runs [OF this cfg ex_answers [of Rejected],
      where dial = "\<lambda>k p. (ex_peer_env, [])" and es = "[Discovered (ex_discovery 4), Joined 0, StatusTick]" and
      metrics = "jw_metrics ex_world"] cfg
  show ?thesis by blast
qed

end
