(* ===== verification/Spec2Isabelle.thy ===== *)
theory Spec2Isabelle
  imports Bep3 Routing Crawler_Properties Config_Properties
begin

text \<open>
  A model of \<^bold>\<open>btfind\<close>, a crawler of the BitTorrent DHT written in Rust, and the theorems that
  make it correct.

  \<^bold>\<open>The program.\<close>  One process joins the DHT under a node id of its own, answers the queries of
  other nodes, asks nodes for the peers of info hashes it has heard of, fetches the info
  dictionary of each hash from those peers, checks it against the hash and writes it to a
  catalog in a MySQL database, which a web server and a command line search.  The crawler
  (\<^verbatim>\<open>dht.rs\<close>) owns the UDP socket and the routing table (\<^verbatim>\<open>routing.rs\<close>); its messages are bencoded
  KRPC dictionaries (\<^verbatim>\<open>bencode.rs\<close>).  What it discovers goes through a bounded channel to the
  metadata fetcher (\<^verbatim>\<open>metadata.rs\<close>), which speaks the peer wire protocol (\<^verbatim>\<open>wire.rs\<close>) and writes
  through the store (\<^verbatim>\<open>store.rs\<close>).  Both count what they do (\<^verbatim>\<open>metrics.rs\<close>) and are set up from one
  configuration (\<^verbatim>\<open>config.rs\<close>, \<^verbatim>\<open>main.rs\<close>).  All these files are in \<^verbatim>\<open>src/src/\<close>.

  \<^bold>\<open>The theories.\<close>
  \<^item> \<open>Btfind_Prelude\<close>: machine types, byte strings, UTF-8, panics as \<open>None\<close> (\<open>ensures\<close>, \<open>fold_opt\<close>),
    association lists, and the interfaces: \<open>codec\<close> and \<open>fixed_codec\<close> (what is written is read
    back), \<open>machine\<close> and \<open>counted_machine\<close> (an invariant that excludes panics).
  \<^item> \<open>Node_Types\<close> (\<^verbatim>\<open>types.rs\<close>): identifiers, contacts, discovery sources, statistics events, the
    XOR distance.
  \<^item> \<open>Routing\<close> (\<^verbatim>\<open>routing.rs\<close>): buckets, candidates, validation, splitting, failures, and the
    nearest contacts.  Its invariant \<open>rt_inv\<close> says that the buckets partition the identifiers;
    \<open>mark_validated\<close> and \<open>record_failure\<close> refine updates of the relation of live contacts.
  \<^item> \<open>Bencode\<close> (\<^verbatim>\<open>bencode.rs\<close>): KRPC messages to and from bencoded values.
  \<^item> \<open>Wire\<close> (\<^verbatim>\<open>wire.rs\<close>): handshake, frames, extension handshake, metadata messages, and the scanner
    that finds the end of a bencoded value in an untrusted buffer.  \<open>Bep3\<close> has the reference
    encoder of BEP 3 against which the scanner and the dictionaries are proved.
  \<^item> \<open>Dht_Codec\<close> (\<^verbatim>\<open>dht.rs\<close>, the free functions): public addresses, compact encodings, tokens, the
    correlation of responses with outstanding queries, queries and responses.
  \<^item> \<open>Dht_Crawler\<close> (\<^verbatim>\<open>dht.rs\<close>, \<open>DhtCrawler\<close>): the record \<open>crawler\<close> has the fields of the struct; every
    method is a definition, \<open>crawler_step\<close> is one turn of the event loop, and \<open>crawler_life\<close> seeds a
    new crawler as \<^verbatim>\<open>main.rs\<close> does and runs it.
    \<open>Crawler_Invariant\<close>, \<open>Crawler_Safety\<close> and \<open>Crawler_Frame\<close> show what every handler keeps;
    \<open>quiet_frame\<close> and \<open>cache_frame\<close> are the interfaces for properties that the elementary updates
    keep. \<open>Crawler_Serving\<close> uses them to follow an announced peer through the cache, and
    \<open>Crawler_Properties\<close> states what follows for whole runs.
  \<^item> \<open>Metrics\<close> (\<^verbatim>\<open>metrics.rs\<close>): counters, request windows, periodic reports.
  \<^item> \<open>Metadata_Fetch\<close> (\<^verbatim>\<open>metadata.rs\<close>, first half): the session with one peer and the reading of an
    info dictionary.  \<open>Metadata_Sessions\<close> follows sessions with an honest and with an arbitrary
    peer; \<open>Metadata_Properties\<close> states the results.
  \<^item> \<open>Metadata_Jobs\<close> (\<^verbatim>\<open>metadata.rs\<close>, \<open>process_hash_round\<close>): one round over the peers of a hash, with
    every call of the store. \<open>Metadata_Rounds\<close> shows which calls a round makes, which answer its
    outcome rests on, and that it ends.  \<open>Metadata_Scheduler\<close> (\<open>HashJob\<close>, \<open>run_metadata_fetcher\<close>): the queue of
    jobs and the hand-out to workers.  \<open>Scheduler_Invariant\<close> has its invariant \<open>sched_ok\<close> and the
    interpretation of \<open>machine\<close>; \<open>Scheduler_Properties\<close> states the results.
  \<^item> \<open>Config\<close> (\<^verbatim>\<open>config.rs\<close>, and where \<^verbatim>\<open>main.rs\<close> hands it over): sections, defaults, validation.
    \<open>Config_Properties\<close> shows validation exact and runs the fetcher under it.

  \<^bold>\<open>How the code is read.\<close>  Byte strings and Rust strings are lists of \<open>u8\<close>, integers are words of
  their width and \<open>usize\<close> is \<open>nat\<close>; instants and durations are natural numbers, times of day
  integers.  A \<open>Result\<close> is a sum with the error on the left, an early return is a branch, and a
  panic is \<open>None\<close>.  What the code awaits is an environment: for the crawler the fate of every
  packet it sends and of every channel, for a peer the bytes that arrive and how every
  operation ends, for the fetcher the answer of the n-th operation on the store, the clock and
  the statistics channel.  The theorems hold for every environment unless they name a
  hypothesis.  Libraries are parameters: \<open>serde_bencode\<close> (encoder and decoder), SHA-1, the
  hexadecimal coding, the random numbers, TOML, and the order in which a hash map is iterated.

  \<^bold>\<open>Fuel.\<close>  The scanner's fuel is the length of its buffer, and \<open>scanner_total_and_bounded\<close> shows
  that it is enough.  The loops of a fetch carry fuel, and \<open>fetch_terminates\<close> bounds it by the
  bytes the peer sends, and by twice the timeout when the clock advances.  The loops that wait
  for the store end when it answers; \<open>answers_within\<close> and \<open>store_answers\<close> say after how many
  failures, and a round then ends too (\<open>round_ends\<close>).  The split
  of a bucket ends by a measure.

  \<^bold>\<open>What the theorems show.\<close>  For the crawler: no run panics and its state stays bounded; the
  accounts of lookups balance; transaction identifiers are fresh; answers that were not asked
  for change nothing; an announcement needs a token and is then served until it expires or is
  displaced; what it publishes is well formed; a queued hash is looked up.  For the fetcher:
  the queue, the jobs and the workers of the scheduler agree after every event; only verified
  metadata is committed, and the outcome of a round is what the store was told; an honest peer's metadata arrives; a
  hostile peer gains nothing beyond the limits and the time; what is read is bounded, and the
  paths of a file list stay in their directory.  For the formats: round trips, exactness, limits.  For the routing table:
  partition, refinement, nearest contacts.  Two theorems show defects: a job whose worker
  panicked is stuck (\<open>panicked_job_is_stuck\<close>), and a peer that arrives during a round that parks
  its job is forgotten (\<open>late_peer_is_forgotten\<close>).

  \<^bold>\<open>Not modelled.\<close>  Log lines and the pauses between retries have no effect on the state.
  Threads: the fetcher's loop is one task, a round takes effect when its worker is joined, so
  the interleaving of a round's writes with those of other rounds is not shown (they concern
  other hashes).  The SQL of \<^verbatim>\<open>store.rs\<close>, the web server (\<^verbatim>\<open>web.rs\<close>), magnet links (\<^verbatim>\<open>magnet.rs\<close>) and
  the tasks of \<^verbatim>\<open>main.rs\<close> are not modelled yet; \<^verbatim>\<open>logging.rs\<close>, \<^verbatim>\<open>db.rs\<close> and \<^verbatim>\<open>build.rs\<close> set up
  libraries and hold no logic of the program.
\<close>

end
